(* ===== verification/Prelude.thy ===== *)
theory Prelude
  imports Main "HOL-Library.Word" "HOL-Library.Sublist" "HOL-Library.Multiset"
begin

section \<open>Rust results, integers and strings\<close>

text \<open>
  The vocabulary every component uses: \<open>Result\<close> as a sum with \<open>anyhow\<close>'s message on the
  left, the checked and saturating integer operations, and the string operations of Rust's
  standard library that the sources call. A \<open>str\<close> or a byte slice is a list of \<open>char\<close>,
  one per byte. Case mapping and \<open>trim\<close> are those of ASCII text: bytes from 128 on are left
  alone, which is what Rust does to text without case or Unicode white space.
\<close>

subsection \<open>Collections of facts\<close>

named_theorems rust_simps \<open>definitions of the standard library operations\<close>
named_theorems result_simps \<open>equations of the result monad\<close>

subsection \<open>Results\<close>

text \<open>An \<open>anyhow::Error\<close> is represented by its outermost message.\<close>

type_synonym error = string
type_synonym 'a result = "error + 'a"

definition is_ok :: "'a result \<Rightarrow> bool" where
  "is_ok r = (case r of Inl _ \<Rightarrow> False | Inr _ \<Rightarrow> True)"

definition result_bind :: "'a result \<Rightarrow> ('a \<Rightarrow> 'b result) \<Rightarrow> 'b result" where
  "result_bind r f = (case r of Inl e \<Rightarrow> Inl e | Inr x \<Rightarrow> f x)"

definition with_context :: "'a option \<Rightarrow> error \<Rightarrow> 'a result" where
  "with_context r message = (case r of None \<Rightarrow> Inl message | Some x \<Rightarrow> Inr x)"

text \<open>\<open>x.or(y)\<close> on options.\<close>

definition option_or :: "'a option \<Rightarrow> 'a option \<Rightarrow> 'a option" where
  "option_or x y = (case x of None \<Rightarrow> y | Some _ \<Rightarrow> x)"

text \<open>\<open>iter.map(f).collect::<Result<Vec<_>>>()\<close>: the first error wins.\<close>

fun result_map :: "('a \<Rightarrow> 'b result) \<Rightarrow> 'a list \<Rightarrow> 'b list result" where
  "result_map f [] = Inr []"
| "result_map f (x # xs) =
     (case f x of Inl e \<Rightarrow> Inl e
      | Inr y \<Rightarrow> (case result_map f xs of Inl e \<Rightarrow> Inl e | Inr ys \<Rightarrow> Inr (y # ys)))"

lemma is_ok_simps [simp, result_simps]: "is_ok (Inr x)" "\<not> is_ok (Inl e)"
  by (simp_all add: is_ok_def)

lemma is_ok_iff: "is_ok r \<longleftrightarrow> (\<exists>x. r = Inr x)"
  by (cases r) simp_all

lemma result_bind_simps [simp, result_simps]:
  "result_bind (Inr x) f = f x" "result_bind (Inl e) f = Inl e"
  by (simp_all add: result_bind_def)

lemma result_bind_Inr:
  "result_bind r f = Inr y \<longleftrightarrow> (\<exists>x. r = Inr x \<and> f x = Inr y)"
  by (cases r) simp_all

lemma with_context_simps [simp, result_simps]:
  "with_context (Some x) m = Inr x" "with_context None m = Inl m"
  by (simp_all add: with_context_def)

lemma option_or_simps [simp, result_simps]:
  "option_or (Some x) y = Some x" "option_or None y = y"
  by (simp_all add: option_or_def)

lemma with_context_Inr: "with_context r m = Inr x \<longleftrightarrow> r = Some x"
  by (cases r) simp_all

lemma result_map_Inr:
  "result_map f xs = Inr ys \<longleftrightarrow> list_all2 (\<lambda>x y. f x = Inr y) xs ys"
proof (induction xs arbitrary: ys)
  case Nil
  then show ?case by auto
next
  case (Cons x xs)
  then show ?case
    by (cases ys) (auto simp: Cons.IH [symmetric] split: sum.splits)
qed

lemma result_map_total:
  "(\<And>x. x \<in> set xs \<Longrightarrow> f x = Inr (g x)) \<Longrightarrow> result_map f xs = Inr (map g xs)"
  by (induction xs) auto

subsection \<open>Integers\<close>

text \<open>
  \<open>u64\<close> values are words. \<open>usize\<close> counts and sizes are naturals with the saturation written
  out, on a 64-bit target. \<open>i64\<close> and \<open>i128\<close> are integers with their range written out.
\<close>

type_synonym u64 = "64 word"

definition usize_max :: nat where
  "usize_max = 18446744073709551615"

definition saturating_add :: "nat \<Rightarrow> nat \<Rightarrow> nat" where
  "saturating_add a b = min (a + b) usize_max"

definition saturating_mul :: "nat \<Rightarrow> nat \<Rightarrow> nat" where
  "saturating_mul a b = min (a * b) usize_max"

definition saturating_sub :: "nat \<Rightarrow> nat \<Rightarrow> nat" where
  "saturating_sub a b = a - b"

definition clamp :: "nat \<Rightarrow> nat \<Rightarrow> nat \<Rightarrow> nat" where
  "clamp lo hi x = (if x < lo then lo else if hi < x then hi else x)"

definition div_ceil :: "nat \<Rightarrow> nat \<Rightarrow> nat" where
  "div_ceil a b = (if a mod b = 0 then a div b else a div b + 1)"

definition i64_min :: int where "i64_min = -9223372036854775808"
definition i64_max :: int where "i64_max = 9223372036854775807"
definition i32_min :: int where "i32_min = -2147483648"
definition i32_max :: int where "i32_max = 2147483647"
definition i128_min :: int where "i128_min = -170141183460469231731687303715884105728"
definition i128_max :: int where "i128_max = 170141183460469231731687303715884105727"

definition in_i64 :: "int \<Rightarrow> bool" where
  "in_i64 x \<longleftrightarrow> i64_min \<le> x \<and> x \<le> i64_max"

definition in_i32 :: "int \<Rightarrow> bool" where
  "in_i32 x \<longleftrightarrow> i32_min \<le> x \<and> x \<le> i32_max"

definition in_i128 :: "int \<Rightarrow> bool" where
  "in_i128 x \<longleftrightarrow> i128_min \<le> x \<and> x \<le> i128_max"

definition checked_mul :: "int \<Rightarrow> int \<Rightarrow> int option" where
  "checked_mul a b = (if in_i128 (a * b) then Some (a * b) else None)"

definition checked_add :: "int \<Rightarrow> int \<Rightarrow> int option" where
  "checked_add a b = (if in_i128 (a + b) then Some (a + b) else None)"

definition checked_neg :: "int \<Rightarrow> int option" where
  "checked_neg a = (if in_i128 (- a) then Some (- a) else None)"

definition i64_saturating_add :: "int \<Rightarrow> int \<Rightarrow> int" where
  "i64_saturating_add a b = max i64_min (min i64_max (a + b))"

definition i64_saturating_sub :: "int \<Rightarrow> int \<Rightarrow> int" where
  "i64_saturating_sub a b = max i64_min (min i64_max (a - b))"

lemmas int_bounds = i64_min_def i64_max_def i32_min_def i32_max_def i128_min_def i128_max_def
  in_i64_def in_i32_def in_i128_def

text \<open>Evaluation goes through binary integers.\<close>

lemma min_usize_max_code: "min n usize_max = nat (min (int n) 18446744073709551615)"
  by (cases "n \<le> usize_max") (simp_all add: usize_max_def min_def)

lemma saturating_add_code [code]:
  "saturating_add a b = nat (min (int a + int b) 18446744073709551615)"
  by (simp add: saturating_add_def min_usize_max_code)

lemma saturating_mul_code [code]:
  "saturating_mul a b = nat (min (int a * int b) 18446744073709551615)"
  by (simp add: saturating_mul_def min_usize_max_code)

lemma saturating_add_exact: "a + b \<le> usize_max \<Longrightarrow> saturating_add a b = a + b"
  by (simp add: saturating_add_def)

lemma clamp_bounds: "lo \<le> hi \<Longrightarrow> lo \<le> clamp lo hi x \<and> clamp lo hi x \<le> hi"
  by (simp add: clamp_def)

lemma div_ceil_mult_ge:
  assumes "0 < b"
  shows "a \<le> div_ceil a b * b"
proof (cases "a mod b = 0")
  case True
  then show ?thesis by (simp add: div_ceil_def mod_eq_0_iff_dvd)
next
  case False
  have "a = a div b * b + a mod b" by simp
  also have "\<dots> \<le> a div b * b + b"
    using assms mod_less_divisor[of b a] by linarith
  finally show ?thesis using False by (simp add: div_ceil_def)
qed

lemma div_ceil_less_eq:
  assumes "0 < b" and "a \<le> k * b"
  shows "div_ceil a b \<le> k"
proof (cases "a mod b = 0")
  case True
  with assms show ?thesis
    by (simp add: div_ceil_def) (metis div_le_mono nonzero_mult_div_cancel_right less_not_refl)
next
  case False
  have "a \<noteq> k * b" using False by auto
  with assms(2) have "a < k * b" by simp
  then have "a div b < k" by (simp add: less_mult_imp_div_less)
  with False show ?thesis by (simp add: div_ceil_def)
qed

end
