(* ===== verification/Rust_Str.thy ===== *)
theory Rust_Str
  imports Prelude
begin

section \<open>The string operations of the standard library\<close>

text \<open>
  The methods of \<open>str\<close> and byte slices that the sources call, and integer parsing and
  printing, each an executable function on the list of bytes. The lemmas are the laws the
  components use: what a stripped prefix or suffix was, that splitting and joining are inverse,
  and that a printed number parses back.
\<close>

subsection \<open>Prefixes, suffixes, searching\<close>

definition starts_with :: "string \<Rightarrow> string \<Rightarrow> bool" where
  "starts_with s p \<longleftrightarrow> prefix p s"

definition ends_with :: "string \<Rightarrow> string \<Rightarrow> bool" where
  "ends_with s p \<longleftrightarrow> suffix p s"

definition strip_prefix :: "string \<Rightarrow> string \<Rightarrow> string option" where
  "strip_prefix s p = (if prefix p s then Some (drop (length p) s) else None)"

definition strip_suffix :: "string \<Rightarrow> string \<Rightarrow> string option" where
  "strip_suffix s p = (if suffix p s then Some (take (length s - length p) s) else None)"

fun contains :: "string \<Rightarrow> string \<Rightarrow> bool" where
  "contains [] p = (p = [])"
| "contains (c # cs) p = (prefix p (c # cs) \<or> contains cs p)"

text \<open>\<open>iter().position(|byte| *byte == c)\<close>\<close>

fun position :: "char \<Rightarrow> string \<Rightarrow> nat option" where
  "position c [] = None"
| "position c (x # xs) = (if x = c then Some 0 else map_option Suc (position c xs))"

lemma strip_prefix_Some: "strip_prefix s p = Some r \<longleftrightarrow> s = p @ r"
  by (auto simp: strip_prefix_def prefix_def)

lemma strip_prefix_append [simp]: "strip_prefix (p @ r) p = Some r"
  by (simp add: strip_prefix_Some)

lemma strip_suffix_Some: "strip_suffix s p = Some r \<longleftrightarrow> s = r @ p"
  by (auto simp: strip_suffix_def suffix_def)

lemma strip_suffix_append [simp]: "strip_suffix (r @ p) p = Some r"
  by (simp add: strip_suffix_Some)

lemma position_append: "c \<notin> set xs \<Longrightarrow> position c (xs @ c # ys) = Some (length xs)"
  by (induction xs) auto

lemma position_Some_take: "position c xs = Some n \<Longrightarrow> c \<notin> set (take n xs) \<and> n < length xs \<and> xs ! n = c"
  by (induction xs arbitrary: n) (auto split: if_splits)

lemma position_None: "position c xs = None \<longleftrightarrow> c \<notin> set xs"
  by (induction xs) auto

subsection \<open>Splitting\<close>

fun split_on :: "char \<Rightarrow> string \<Rightarrow> string list" where
  "split_on c [] = [[]]"
| "split_on c (x # xs) =
     (if x = c then [] # split_on c xs
      else (case split_on c xs of [] \<Rightarrow> [[x]] | w # ws \<Rightarrow> (x # w) # ws))"

definition split_once :: "char \<Rightarrow> string \<Rightarrow> (string \<times> string) option" where
  "split_once c s =
     (case position c s of None \<Rightarrow> None | Some n \<Rightarrow> Some (take n s, drop (Suc n) s))"

definition rsplit_once :: "char \<Rightarrow> string \<Rightarrow> (string \<times> string) option" where
  "rsplit_once c s =
     (case split_once c (rev s) of None \<Rightarrow> None | Some (a, b) \<Rightarrow> Some (rev b, rev a))"

text \<open>\<open>split_once\<close> with a string pattern.\<close>

fun split_once_str :: "string \<Rightarrow> string \<Rightarrow> (string \<times> string) option" where
  "split_once_str p [] = (if p = [] then Some ([], []) else None)"
| "split_once_str p (c # cs) =
     (if prefix p (c # cs) then Some ([], drop (length p) (c # cs))
      else map_option (\<lambda>(a, b). (c # a, b)) (split_once_str p cs))"

text \<open>\<open>rsplit(c).next()\<close>: the last component.\<close>

definition last_component :: "char \<Rightarrow> string \<Rightarrow> string" where
  "last_component c s = rev (takeWhile (\<lambda>x. x \<noteq> c) (rev s))"

fun join_on :: "char \<Rightarrow> string list \<Rightarrow> string" where
  "join_on c [] = []"
| "join_on c [w] = w"
| "join_on c (w # v # ws) = w @ c # join_on c (v # ws)"

lemma split_on_ne [simp]: "split_on c s \<noteq> []"
  by (induction s) (auto split: list.splits)

lemma split_on_no_sep: "w \<in> set (split_on c s) \<Longrightarrow> c \<notin> set w"
  by (induction s arbitrary: w) (auto split: if_splits list.splits)

lemma join_split: "join_on c (split_on c s) = s"
proof (induction s)
  case (Cons x s)
  obtain w ws where "split_on c s = w # ws"
    by (cases "split_on c s") auto
  with Cons show ?case
    by (cases ws) auto
qed simp

lemma split_on_append: "c \<notin> set w \<Longrightarrow> split_on c (w @ c # s) = w # split_on c s"
  by (induction w) auto

lemma split_on_plain: "c \<notin> set w \<Longrightarrow> split_on c w = [w]"
  by (induction w) auto

lemma split_once_append: "c \<notin> set w \<Longrightarrow> split_once c (w @ c # s) = Some (w, s)"
  by (simp add: split_once_def position_append)

lemma split_once_Some: "split_once c s = Some (a, b) \<longleftrightarrow> s = a @ c # b \<and> c \<notin> set a"
proof
  assume "split_once c s = Some (a, b)"
  then obtain n where n: "position c s = Some n" "a = take n s" "b = drop (Suc n) s"
    by (auto simp: split_once_def split: option.splits)
  with position_Some_take [OF n(1)] show "s = a @ c # b \<and> c \<notin> set a"
    by (metis id_take_nth_drop)
qed (auto simp: split_once_append)

lemma split_once_None: "split_once c s = None \<longleftrightarrow> c \<notin> set s"
  by (simp add: split_once_def position_None [symmetric] split: option.split)

lemma rsplit_once_append: "c \<notin> set w \<Longrightarrow> rsplit_once c (s @ c # w) = Some (s, w)"
  by (simp add: rsplit_once_def split_once_append)

lemma rsplit_once_Some: "rsplit_once c s = Some (a, b) \<longleftrightarrow> s = a @ c # b \<and> c \<notin> set b"
proof
  assume "rsplit_once c s = Some (a, b)"
  then have "split_once c (rev s) = Some (rev b, rev a)"
    by (auto simp: rsplit_once_def split: option.splits prod.splits)
  then have "rev s = rev b @ c # rev a" and "c \<notin> set b"
    by (simp_all add: split_once_Some)
  then show "s = a @ c # b \<and> c \<notin> set b"
    by (metis append.assoc append_Cons append_Nil rev_append rev_rev_ident rev_singleton_conv
        rev.simps(2))
qed (auto simp: rsplit_once_append)

lemma last_component_append [simp]: "c \<notin> set w \<Longrightarrow> last_component c (s @ c # w) = w"
proof -
  assume "c \<notin> set w"
  then have "takeWhile (\<lambda>x. x \<noteq> c) (rev w @ c # rev s) = rev w"
    by (subst takeWhile_append2) auto
  then show ?thesis by (simp add: last_component_def)
qed

lemma last_component_no_sep: "c \<notin> set (last_component c s)"
  by (auto simp: last_component_def dest: set_takeWhileD)

subsection \<open>Trimming\<close>

definition trim_start_matches :: "char \<Rightarrow> string \<Rightarrow> string" where
  "trim_start_matches c s = dropWhile (\<lambda>x. x = c) s"

definition trim_end_matches :: "char \<Rightarrow> string \<Rightarrow> string" where
  "trim_end_matches c s = rev (dropWhile (\<lambda>x. x = c) (rev s))"

definition trim_matches :: "char \<Rightarrow> string \<Rightarrow> string" where
  "trim_matches c s = trim_end_matches c (trim_start_matches c s)"

definition is_space :: "char \<Rightarrow> bool" where
  "is_space c \<longleftrightarrow> of_char c \<in> {9, 10, 11, 12, 13, 32 :: nat}"

definition trim :: "string \<Rightarrow> string" where
  "trim s = rev (dropWhile is_space (rev (dropWhile is_space s)))"

definition split_whitespace :: "string \<Rightarrow> string list" where
  "split_whitespace s =
     filter (\<lambda>w. w \<noteq> []) (split_on CHR '' '' (map (\<lambda>c. if is_space c then CHR '' '' else c) s))"

text \<open>\<open>trim_end_matches\<close> with a string pattern drops the pattern as often as it occurs.\<close>

function trim_end_matches_str :: "string \<Rightarrow> string \<Rightarrow> string" where
  "trim_end_matches_str p s =
     (if p \<noteq> [] \<and> suffix p s then trim_end_matches_str p (take (length s - length p) s) else s)"
  by pat_completeness auto
termination
  by (relation "measure (\<lambda>(p, s). length s)") (auto simp: suffix_def)

declare trim_end_matches_str.simps [simp del]

lemma trim_end_matches_no_tail: "s \<noteq> [] \<Longrightarrow> last s \<noteq> c \<Longrightarrow> trim_end_matches c s = s"
  by (cases s rule: rev_cases) (simp_all add: trim_end_matches_def)

lemma trim_matches_plain: "c \<notin> set s \<Longrightarrow> trim_matches c s = s"
proof -
  assume c: "c \<notin> set s"
  have drop: "c \<notin> set xs \<Longrightarrow> dropWhile (\<lambda>x. x = c) xs = xs" for xs
    by (cases xs) auto
  from c drop [of s] drop [of "rev s"] show ?thesis
    by (simp add: trim_matches_def trim_start_matches_def trim_end_matches_def)
qed

lemma trim_matches_clean:
  assumes "s \<noteq> []" and "hd s \<noteq> c" and "last s \<noteq> c"
  shows "trim_matches c s = s" and "trim_matches c (c # s) = s"
proof -
  have "trim_start_matches c s = s" "trim_start_matches c (c # s) = s"
    using assms(1,2) by (cases s; simp add: trim_start_matches_def)+
  then show "trim_matches c s = s" and "trim_matches c (c # s) = s"
    using trim_end_matches_no_tail [OF assms(1,3)] by (simp_all add: trim_matches_def)
qed

lemma trim_end_matches_last: "trim_end_matches c s = [] \<or> last (trim_end_matches c s) \<noteq> c"
  using hd_dropWhile [of "\<lambda>x. x = c" "rev s"]
  by (auto simp: trim_end_matches_def last_rev)

subsection \<open>Case mapping\<close>

definition upper_char :: "char \<Rightarrow> char" where
  "upper_char c = (let n = of_char c in if 97 \<le> n \<and> n \<le> 122 then char_of (n - 32 :: nat) else c)"

definition lower_char :: "char \<Rightarrow> char" where
  "lower_char c = (let n = of_char c in if 65 \<le> n \<and> n \<le> 90 then char_of (n + 32 :: nat) else c)"

definition to_uppercase :: "string \<Rightarrow> string" where
  "to_uppercase = map upper_char"

definition to_lowercase :: "string \<Rightarrow> string" where
  "to_lowercase = map lower_char"

subsection \<open>Numbers\<close>

definition is_ascii_digit :: "char \<Rightarrow> bool" where
  "is_ascii_digit c \<longleftrightarrow> 48 \<le> (of_char c :: nat) \<and> (of_char c :: nat) \<le> 57"

definition digit_val :: "char \<Rightarrow> nat" where
  "digit_val c = of_char c - 48"

definition digit_char :: "nat \<Rightarrow> char" where
  "digit_char d = char_of (48 + d)"

text \<open>The value of a run of digits, most significant first, on top of \<open>acc\<close>.\<close>

fun digits_value :: "nat \<Rightarrow> string \<Rightarrow> nat" where
  "digits_value acc [] = acc"
| "digits_value acc (c # cs) = digits_value (10 * acc + digit_val c) cs"

text \<open>\<open>str::parse::<u64>\<close>: an optional plus sign, then at least one digit, in range.\<close>

definition parse_digits :: "string \<Rightarrow> nat option" where
  "parse_digits s =
     (if s \<noteq> [] \<and> list_all is_ascii_digit s then Some (digits_value 0 s) else None)"

definition parse_u64 :: "string \<Rightarrow> u64 option" where
  "parse_u64 s =
     (let body = (case s of c # cs \<Rightarrow> if c = CHR ''+'' then cs else s | [] \<Rightarrow> s)
      in case parse_digits body of
           None \<Rightarrow> None
         | Some n \<Rightarrow> if n < 2 ^ 64 then Some (of_nat n) else None)"

text \<open>\<open>str::parse::<i64>\<close>: a minus sign is allowed too.\<close>

definition parse_i64 :: "string \<Rightarrow> int option" where
  "parse_i64 s =
     (let negative = (case s of c # cs \<Rightarrow> c = CHR ''-'' | [] \<Rightarrow> False);
          body = (case s of c # cs \<Rightarrow> if c = CHR ''+'' \<or> c = CHR ''-'' then cs else s | [] \<Rightarrow> s)
      in case parse_digits body of
           None \<Rightarrow> None
         | Some n \<Rightarrow> (let v = (if negative then - int n else int n)
                     in if in_i64 v then Some v else None))"

fun show_nat :: "nat \<Rightarrow> string" where
  "show_nat n = (if n < 10 then [digit_char n] else show_nat (n div 10) @ [digit_char (n mod 10)])"

declare show_nat.simps [simp del]

text \<open>\<open>{:0w}\<close> for an unsigned number.\<close>

definition show_padded :: "nat \<Rightarrow> nat \<Rightarrow> string" where
  "show_padded w n = (let s = show_nat n in replicate (w - length s) CHR ''0'' @ s)"

lemma digit_char_props:
  assumes "d < 10"
  shows "is_ascii_digit (digit_char d)" and "digit_val (digit_char d) = d"
  using assms by (simp_all add: is_ascii_digit_def digit_val_def digit_char_def)

lemma digits_value_append: "digits_value a (xs @ ys) = digits_value (digits_value a xs) ys"
  by (induction xs arbitrary: a) auto

lemma digits_value_shift: "digits_value a s = a * 10 ^ length s + digits_value 0 s"
proof (induction s arbitrary: a)
  case (Cons c s)
  show ?case
    using Cons [of "10 * a + digit_val c"] Cons [of "digit_val c"]
    by (simp add: algebra_simps)
qed simp

lemma digits_value_mono: "a \<le> digits_value a s"
proof -
  have "a * 1 \<le> a * 10 ^ length s" by (intro mult_le_mono) simp_all
  then show ?thesis unfolding digits_value_shift [of a s] by linarith
qed

lemma show_nat_digits: "list_all is_ascii_digit (show_nat n)"
  by (induction n rule: show_nat.induct)
    (subst show_nat.simps, simp add: digit_char_props)

lemma show_nat_ne [simp]: "show_nat n \<noteq> []"
  by (subst show_nat.simps) simp

lemma digits_value_show_nat: "digits_value 0 (show_nat n) = n"
proof (induction n rule: show_nat.induct)
  case (1 n)
  show ?case
  proof (cases "n < 10")
    case True
    then show ?thesis by (subst show_nat.simps) (simp add: digit_char_props)
  next
    case False
    with 1 show ?thesis
      by (subst show_nat.simps) (simp add: digits_value_append digit_char_props)
  qed
qed

lemma digits_value_zeros: "digits_value 0 (replicate k CHR ''0'' @ s) = digits_value 0 s"
  by (induction k) (simp_all add: digit_val_def)

lemma show_padded_digits: "list_all is_ascii_digit (show_padded w n)"
  using show_nat_digits [of n]
  by (auto simp: show_padded_def Let_def list_all_iff is_ascii_digit_def)

lemma show_padded_ne [simp]: "show_padded w n \<noteq> []"
  by (simp add: show_padded_def Let_def)

lemma digits_value_show_padded: "digits_value 0 (show_padded w n) = n"
  by (simp add: show_padded_def Let_def digits_value_zeros digits_value_show_nat)

lemma parse_digits_show [simp]:
  "parse_digits (show_nat n) = Some n" "parse_digits (show_padded w n) = Some n"
  by (simp_all add: parse_digits_def show_nat_digits digits_value_show_nat
      show_padded_digits digits_value_show_padded)

lemma not_digit_sign:
  "\<not> is_ascii_digit CHR ''+''" "\<not> is_ascii_digit CHR ''-''" "\<not> is_ascii_digit CHR ''.''"
  "\<not> is_ascii_digit CHR ''/''"
  by (simp_all add: is_ascii_digit_def)

lemma digits_value_bound: "list_all is_ascii_digit s \<Longrightarrow> digits_value 0 s < 10 ^ length s"
proof (induction s)
  case (Cons c s)
  have "digit_val c \<le> 9" using Cons.prems by (auto simp: is_ascii_digit_def digit_val_def)
  then have "digit_val c * 10 ^ length s \<le> 9 * 10 ^ length s" by (rule mult_le_mono1)
  moreover have "digits_value 0 s < 10 ^ length s" using Cons by simp
  moreover have "digits_value 0 (c # s) = digit_val c * 10 ^ length s + digits_value 0 s"
    using digits_value_shift [of "digit_val c" s] by simp
  moreover have "(10::nat) ^ length (c # s) = 10 * 10 ^ length s" by simp
  ultimately show ?case by linarith
qed simp

lemma parse_u64_show:
  assumes "n < 2 ^ 64"
  shows "parse_u64 (show_nat n) = Some (of_nat n)"
proof -
  obtain c cs where s: "show_nat n = c # cs"
    by (cases "show_nat n") auto
  have "is_ascii_digit c" using show_nat_digits [of n] by (simp add: s)
  then have "c \<noteq> CHR ''+''" using not_digit_sign by auto
  then have "parse_u64 (show_nat n) =
    (case parse_digits (show_nat n) of None \<Rightarrow> None
     | Some n \<Rightarrow> if n < 2 ^ 64 then Some (of_nat n) else None)"
    by (simp add: parse_u64_def s)
  with assms show ?thesis by simp
qed

lemma parse_i64_in_range: "parse_i64 s = Some v \<Longrightarrow> in_i64 v"
  by (auto simp: parse_i64_def Let_def split: option.splits if_splits list.splits)

subsection \<open>UTF-8\<close>

definition is_cont :: "char \<Rightarrow> bool" where
  "is_cont c \<longleftrightarrow> 128 \<le> (of_char c :: nat) \<and> (of_char c :: nat) \<le> 191"

definition between :: "nat \<Rightarrow> nat \<Rightarrow> char \<Rightarrow> bool" where
  "between lo hi c \<longleftrightarrow> lo \<le> of_char c \<and> of_char c \<le> hi"

text \<open>\<open>std::str::from_utf8\<close> succeeds exactly on these byte sequences.\<close>

fun utf8_valid :: "string \<Rightarrow> bool" where
  "utf8_valid [] = True"
| "utf8_valid (a # s) =
     (if between 0 127 a then utf8_valid s
      else if between 194 223 a then
        (case s of b # t \<Rightarrow> is_cont b \<and> utf8_valid t | _ \<Rightarrow> False)
      else if between 224 239 a then
        (case s of b # c # t \<Rightarrow>
           (if between 224 224 a then between 160 191 b
            else if between 237 237 a then between 128 159 b else is_cont b)
           \<and> is_cont c \<and> utf8_valid t
         | _ \<Rightarrow> False)
      else if between 240 244 a then
        (case s of b # c # d # t \<Rightarrow>
           (if between 240 240 a then between 144 191 b
            else if between 244 244 a then between 128 143 b else is_cont b)
           \<and> is_cont c \<and> is_cont d \<and> utf8_valid t
         | _ \<Rightarrow> False)
      else False)"

lemma utf8_valid_ascii: "list_all (between 0 127) s \<Longrightarrow> utf8_valid s"
  by (induction s) simp_all

end
