(* ===== verification/Data_Model.thy ===== *)
theory Data_Model
  imports Rust_Str
begin

section \<open>Markets, values and records\<close>

text \<open>
  The data of \<open>src/model.rs\<close> and the two enumerations of \<open>src/config.rs\<close> that
  every component shares. A \<open>DateTime<Utc>\<close> is the number of nanoseconds since the Unix
  epoch. \<open>Decimal\<close> and \<open>I64\<close> values are integers, \<open>U64\<close> values are words.
  What \<open>compact_str\<close> and the compiler decide (which texts are on the heap, the size of the
  types) is the argument \<open>layout\<close> of the size estimate.
\<close>

subsection \<open>Markets and exchanges\<close>

datatype market = Spot | Usdm | Coinm

datatype exchange = Binance | Okx | Bybit

text \<open>\<open>ValueEnum\<close> lists the variants; so does the class \<open>enum\<close>, with their quantifiers.\<close>

instantiation market :: enum
begin

definition enum_market :: "market list" where
  "enum_market = [Spot, Usdm, Coinm]"

definition enum_all_market :: "(market \<Rightarrow> bool) \<Rightarrow> bool" where
  "enum_all_market P \<longleftrightarrow> P Spot \<and> P Usdm \<and> P Coinm"

definition enum_ex_market :: "(market \<Rightarrow> bool) \<Rightarrow> bool" where
  "enum_ex_market P \<longleftrightarrow> P Spot \<or> P Usdm \<or> P Coinm"

instance
proof
  have cases: "m = Spot \<or> m = Usdm \<or> m = Coinm" for m :: market by (cases m) simp_all
  show "(UNIV :: market set) = set enum_class.enum" using cases by (auto simp: enum_market_def)
  show "enum_class.enum_all P \<longleftrightarrow> Ball UNIV P" for P :: "market \<Rightarrow> bool"
    unfolding enum_all_market_def using cases by (metis UNIV_I)
  show "enum_class.enum_ex P \<longleftrightarrow> Bex UNIV P" for P :: "market \<Rightarrow> bool"
    unfolding enum_ex_market_def using cases by (metis UNIV_I)
qed (simp add: enum_market_def)

end

lemma every_market: "(\<forall>m. P m) \<longleftrightarrow> P Spot \<and> P Usdm \<and> P Coinm"
  by (metis market.exhaust)

lemma market_universe: "UNIV = {Spot, Usdm, Coinm}"
  using UNIV_enum [where 'a = market] by (simp add: enum_market_def)

fun market_as_str :: "market \<Rightarrow> string" where
  "market_as_str Spot = ''spot''"
| "market_as_str Usdm = ''usdm''"
| "market_as_str Coinm = ''coinm''"

fun exchange_as_str :: "exchange \<Rightarrow> string" where
  "exchange_as_str Binance = ''binance''"
| "exchange_as_str Okx = ''okx''"
| "exchange_as_str Bybit = ''bybit''"

lemma market_as_str_inj: "market_as_str a = market_as_str b \<longleftrightarrow> a = b"
  by (cases a; cases b) simp_all

lemma market_as_str_no_slash [simp]: "CHR ''/'' \<notin> set (market_as_str m)"
  by (cases m) simp_all

subsection \<open>Values and records\<close>

type_synonym datetime = int

datatype data_value =
    Null
  | TimestampMicros int
  | Text string
  | StaticText string
  | U64 u64
  | I64 int
  | Decimal int
  | Boolean bool

record data_record =
  rec_table :: string
  rec_values :: "data_value list"
  rec_target :: "market option"

definition timestamp_micros :: "datetime \<Rightarrow> int" where
  "timestamp_micros t = t div 1000"

definition timestamp_millis :: "datetime \<Rightarrow> int" where
  "timestamp_millis t = t div 1000000"

definition timestamp_value :: "datetime \<Rightarrow> data_value" where
  "timestamp_value t = TimestampMicros (timestamp_micros t)"

definition text_value :: "string \<Rightarrow> data_value" where
  "text_value s = Text s"

definition static_text :: "string \<Rightarrow> data_value" where
  "static_text s = StaticText s"

definition decimal_value :: "int \<Rightarrow> data_value" where
  "decimal_value d = Decimal d"

subsection \<open>Size estimates\<close>

record layout =
  size_of_value :: nat
  size_of_record :: nat
  heap_capacity :: "string \<Rightarrow> nat option"

fun payload_bytes :: "layout \<Rightarrow> data_value \<Rightarrow> nat" where
  "payload_bytes l (Text s) = (case heap_capacity l s of Some n \<Rightarrow> n | None \<Rightarrow> 0)"
| "payload_bytes l (StaticText s) = length s"
| "payload_bytes l _ = 0"

definition estimated_bytes :: "layout \<Rightarrow> data_value \<Rightarrow> nat" where
  "estimated_bytes l v = size_of_value l + payload_bytes l v"

subsection \<open>Decimal numbers\<close>

fun scale_digits :: "int \<Rightarrow> string \<Rightarrow> int option" where
  "scale_digits scaled [] = Some scaled"
| "scale_digits scaled (c # cs) =
     (if \<not> is_ascii_digit c then None
      else case checked_mul scaled 10 of
             None \<Rightarrow> None
           | Some s \<Rightarrow> (case checked_add s (int (digit_val c)) of
                         None \<Rightarrow> None
                       | Some s' \<Rightarrow> scale_digits s' cs))"

fun scale_zeros :: "int \<Rightarrow> nat \<Rightarrow> int option" where
  "scale_zeros scaled 0 = Some scaled"
| "scale_zeros scaled (Suc n) =
     (case checked_mul scaled 10 of None \<Rightarrow> None | Some s \<Rightarrow> scale_zeros s n)"

definition parse_decimal :: "string \<Rightarrow> int option" where
  "parse_decimal raw =
     (if raw = [] then None
      else
        (let (negative, digits) =
               (case strip_prefix raw ''-'' of None \<Rightarrow> (False, raw) | Some v \<Rightarrow> (True, v));
             (whole, fraction) =
               (case split_once CHR ''.'' digits of None \<Rightarrow> (digits, []) | Some p \<Rightarrow> p)
         in if whole = [] \<and> fraction = [] then None
            else (case scale_digits 0 whole of
                    None \<Rightarrow> None
                  | Some s \<Rightarrow> (case scale_digits s (take 18 fraction) of
                        None \<Rightarrow> None
                      | Some s' \<Rightarrow> (case scale_zeros s' (18 - min (length fraction) 18) of
                            None \<Rightarrow> None
                          | Some scaled \<Rightarrow> if negative then checked_neg scaled else Some scaled)))))"

text \<open>The three loops together compute the value of the digits, if it is in range.\<close>

lemma scale_digits_eq:
  "0 \<le> a \<Longrightarrow> a \<le> i128_max \<Longrightarrow>
   scale_digits a cs =
     (if list_all is_ascii_digit cs \<and> a * 10 ^ length cs + int (digits_value 0 cs) \<le> i128_max
      then Some (a * 10 ^ length cs + int (digits_value 0 cs)) else None)"
proof (induction cs arbitrary: a)
  case (Cons c cs)
  let ?b = "a * 10 + int (digit_val c)"
  have b: "0 \<le> ?b" using Cons.prems by simp
  have dv: "int (digits_value 0 (c # cs)) =
      int (digit_val c) * 10 ^ length cs + int (digits_value 0 cs)"
    using digits_value_shift [of "digit_val c" cs] by simp
  have eq: "a * 10 ^ length (c # cs) + int (digits_value 0 (c # cs)) =
      ?b * 10 ^ length cs + int (digits_value 0 cs)"
    unfolding dv by (simp add: algebra_simps)
  have big: "?b \<le> ?b * 10 ^ length cs + int (digits_value 0 cs)"
  proof -
    have "?b * 1 \<le> ?b * 10 ^ length cs" using b by (intro mult_left_mono) simp_all
    then have "?b \<le> ?b * 10 ^ length cs" by (simp only: mult_1_right)
    moreover have "0 \<le> int (digits_value 0 cs)" by simp
    ultimately show ?thesis by (rule add_increasing2 [rotated])
  qed
  have step: "scale_digits a (c # cs) =
      (if is_ascii_digit c \<and> ?b \<le> i128_max then scale_digits ?b cs else None)"
    using Cons.prems by (auto simp: checked_mul_def checked_add_def int_bounds)
  show ?case
  proof (cases "is_ascii_digit c \<and> ?b \<le> i128_max")
    case True
    with Cons.IH [OF b] show ?thesis unfolding step eq by simp
  next
    case False
    with big have "\<not> (is_ascii_digit c \<and> ?b * 10 ^ length cs + int (digits_value 0 cs) \<le> i128_max)"
      by auto
    then show ?thesis unfolding eq using False step by auto
  qed
qed simp

lemma scale_zeros_eq:
  "0 \<le> a \<Longrightarrow> a \<le> i128_max \<Longrightarrow>
   scale_zeros a n = (if a * 10 ^ n \<le> i128_max then Some (a * 10 ^ n) else None)"
proof (induction n arbitrary: a)
  case (Suc n)
  have "a * 10 * 1 \<le> a * 10 * 10 ^ n" using Suc.prems by (intro mult_left_mono) simp_all
  with Suc.prems Suc.IH [of "a * 10"] show ?case
    by (auto simp: checked_mul_def int_bounds algebra_simps)
qed simp

text \<open>
  The parts of a text: an optional minus sign, a whole part, and optionally a point and a fraction,
  of which the code reads the first 18 bytes. The magnitude is scaled by \<open>10 ^ 18\<close>.
\<close>

definition decimal_magnitude :: "string \<Rightarrow> string \<Rightarrow> int" where
  "decimal_magnitude whole fraction =
     int (digits_value 0 (whole @ take 18 fraction)) * 10 ^ (18 - min (length fraction) 18)"

definition decimal_text :: "bool \<Rightarrow> string \<Rightarrow> bool \<Rightarrow> string \<Rightarrow> string" where
  "decimal_text negative whole point fraction =
     (if negative then ''-'' else []) @ whole @ (if point then CHR ''.'' # fraction else [])"

definition decimal_parts_ok :: "string \<Rightarrow> string \<Rightarrow> bool" where
  "decimal_parts_ok whole fraction \<longleftrightarrow>
     \<not> (whole = [] \<and> fraction = []) \<and> list_all is_ascii_digit (whole @ take 18 fraction)
     \<and> decimal_magnitude whole fraction \<le> i128_max"

text \<open>
  The number that digits denote, independently of how the code reads them: \<open>v\<close> is the decimal
  number \<open>whole.fraction\<close>, with its sign, times \<open>10 ^ 18\<close>, exactly.
\<close>

definition decimal_denotes :: "bool \<Rightarrow> string \<Rightarrow> string \<Rightarrow> int \<Rightarrow> bool" where
  "decimal_denotes negative whole fraction v \<longleftrightarrow>
     whole @ fraction \<noteq> [] \<and> list_all is_ascii_digit (whole @ fraction)
     \<and> v * 10 ^ length fraction =
         (if negative then -1 else 1) * int (digits_value 0 (whole @ fraction)) * 10 ^ 18"

lemma decimal_magnitude_nonneg: "0 \<le> decimal_magnitude whole fraction"
  by (simp add: decimal_magnitude_def)

lemma scale_parts_eq:
  "(case scale_digits 0 whole of None \<Rightarrow> None
    | Some s \<Rightarrow> (case scale_digits s (take 18 fraction) of None \<Rightarrow> None
        | Some s' \<Rightarrow> scale_zeros s' (18 - min (length fraction) 18)))
   = (if list_all is_ascii_digit (whole @ take 18 fraction)
         \<and> decimal_magnitude whole fraction \<le> i128_max
      then Some (decimal_magnitude whole fraction) else None)"
proof -
  let ?w = "int (digits_value 0 whole)" and ?f = "take 18 fraction"
  let ?k = "18 - min (length fraction) 18" and ?v = "int (digits_value 0 (whole @ take 18 fraction))"
  have v: "?v = ?w * 10 ^ length ?f + int (digits_value 0 ?f)"
    by (simp add: digits_value_append digits_value_shift [of "digits_value 0 whole"])
  have wv: "?w \<le> ?v"
    using digits_value_mono [of "digits_value 0 whole" ?f] by (simp add: digits_value_append)
  have "?v * 1 \<le> ?v * 10 ^ ?k" by (intro mult_left_mono) simp_all
  then have vm: "?v \<le> decimal_magnitude whole fraction"
    by (simp only: mult_1_right decimal_magnitude_def)
  have m0: "(0::int) \<le> i128_max" by (simp add: i128_max_def)
  show ?thesis
  proof (cases "list_all is_ascii_digit (whole @ ?f) \<and> ?v \<le> i128_max")
    case True
    then have "scale_digits 0 whole = Some ?w" and "?w \<le> i128_max"
      using wv m0 by (auto simp: scale_digits_eq)
    moreover from this have "scale_digits ?w ?f = Some ?v"
      using True unfolding v by (simp add: scale_digits_eq)
    ultimately show ?thesis
      using True by (simp add: scale_zeros_eq decimal_magnitude_def)
  next
    case False
    then have "\<not> (list_all is_ascii_digit (whole @ ?f) \<and> decimal_magnitude whole fraction \<le> i128_max)"
      using vm by auto
    moreover have "(case scale_digits 0 whole of None \<Rightarrow> None | Some s \<Rightarrow> scale_digits s ?f) = None"
      using False m0 wv unfolding v by (auto simp: scale_digits_eq)
    ultimately show ?thesis by (auto split: option.splits)
  qed
qed

lemma parse_decimal_eq:
  "parse_decimal raw =
     (let (negative, digits) =
            (case strip_prefix raw ''-'' of None \<Rightarrow> (False, raw) | Some v \<Rightarrow> (True, v));
          (whole, fraction) =
            (case split_once CHR ''.'' digits of None \<Rightarrow> (digits, []) | Some p \<Rightarrow> p)
      in if decimal_parts_ok whole fraction
         then Some (if negative then - decimal_magnitude whole fraction
                    else decimal_magnitude whole fraction)
         else None)"
proof -
  have core: "(case scale_digits 0 whole of None \<Rightarrow> None
      | Some s \<Rightarrow> (case scale_digits s (take 18 fraction) of None \<Rightarrow> None
          | Some s' \<Rightarrow> (case scale_zeros s' (18 - min (length fraction) 18) of
                None \<Rightarrow> None | Some scaled \<Rightarrow> if neg then checked_neg scaled else Some scaled)))
    = (if list_all is_ascii_digit (whole @ take 18 fraction)
         \<and> decimal_magnitude whole fraction \<le> i128_max
       then Some (if neg then - decimal_magnitude whole fraction
                  else decimal_magnitude whole fraction) else None)"
    (is "?lhs = _") for whole fraction neg
  proof -
    have "?lhs = (case (case scale_digits 0 whole of None \<Rightarrow> None
        | Some s \<Rightarrow> (case scale_digits s (take 18 fraction) of None \<Rightarrow> None
            | Some s' \<Rightarrow> scale_zeros s' (18 - min (length fraction) 18))) of
        None \<Rightarrow> None | Some scaled \<Rightarrow> if neg then checked_neg scaled else Some scaled)"
      by (simp split: option.split)
    then show ?thesis
      unfolding scale_parts_eq using decimal_magnitude_nonneg [of whole fraction]
      by (simp add: checked_neg_def int_bounds)
  qed
  obtain neg digits where a:
    "(case strip_prefix raw ''-'' of None \<Rightarrow> (False, raw) | Some v \<Rightarrow> (True, v)) = (neg, digits)"
    by fastforce
  obtain whole fraction where b:
    "(case split_once CHR ''.'' digits of None \<Rightarrow> (digits, []) | Some p \<Rightarrow> p) = (whole, fraction)"
    by fastforce
  have "whole = [] \<and> fraction = []" if "raw = []"
    using a b that by (simp add: strip_prefix_def split_once_def)
  then show ?thesis
    by (simp only: parse_decimal_def a Let_def prod.case b core decimal_parts_ok_def) argo
qed

lemma digits_no_punctuation:
  assumes "list_all is_ascii_digit s"
  shows "CHR ''.'' \<notin> set s" and "CHR ''-'' \<notin> set s"
  using assms not_digit_sign by (auto simp: list_all_iff)

text \<open>What the two splits of \<open>parse_decimal\<close> find in a decimal text.\<close>

lemma decimal_text_split:
  fixes negative :: bool
  assumes "list_all is_ascii_digit whole" and "point \<or> fraction = []"
  defines "digits \<equiv> whole @ (if point then CHR ''.'' # fraction else [])"
    and "raw \<equiv> decimal_text negative whole point fraction"
  shows "(case strip_prefix raw ''-'' of None \<Rightarrow> (False, raw) | Some v \<Rightarrow> (True, v))
           = (negative, digits)"
    and "(case split_once CHR ''.'' digits of None \<Rightarrow> (digits, []) | Some p \<Rightarrow> p)
           = (whole, fraction)"
proof -
  note no = digits_no_punctuation [OF assms(1)]
  have "prefix ''-'' raw \<longleftrightarrow> negative"
    using no(2) by (cases whole) (auto simp: raw_def decimal_text_def)
  then show "(case strip_prefix raw ''-'' of None \<Rightarrow> (False, raw) | Some v \<Rightarrow> (True, v))
      = (negative, digits)"
    by (auto simp: strip_prefix_def raw_def digits_def decimal_text_def)
  show "(case split_once CHR ''.'' digits of None \<Rightarrow> (digits, []) | Some p \<Rightarrow> p)
      = (whole, fraction)"
    using assms(2) no(1)
    by (auto simp: digits_def split_once_append split_once_None [THEN iffD2])
qed

lemma parse_decimal_text:
  assumes "list_all is_ascii_digit whole" and "point \<or> fraction = []"
  shows "parse_decimal (decimal_text negative whole point fraction) =
    (if decimal_parts_ok whole fraction
     then Some (if negative then - decimal_magnitude whole fraction
                else decimal_magnitude whole fraction)
     else None)"
  by (simp only: parse_decimal_eq decimal_text_split [OF assms] Let_def prod.case)

lemma scaled_div: "t < m \<Longrightarrow> 0 < c \<Longrightarrow> (h * m + t) * c div (m * c) = (h :: nat)"
  by (simp only: div_mult_mult2) (auto intro!: div_nat_eqI)

lemma decimal_magnitude_div:
  assumes "list_all is_ascii_digit fraction"
  shows "decimal_magnitude whole fraction =
    int (digits_value 0 (whole @ fraction)) * 10 ^ 18 div 10 ^ length fraction"
proof (cases "length fraction \<le> 18")
  case True
  let ?n = "length fraction" and ?v = "int (digits_value 0 (whole @ fraction))"
  have "(10::int) ^ 18 = 10 ^ (18 - ?n) * 10 ^ ?n"
    using True by (simp flip: power_add)
  then have "?v * 10 ^ 18 = (?v * 10 ^ (18 - ?n)) * 10 ^ ?n" by (simp only: mult.assoc)
  moreover have "x * 10 ^ ?n div 10 ^ ?n = x" for x :: int by simp
  ultimately have "?v * 10 ^ 18 div 10 ^ ?n = ?v * 10 ^ (18 - ?n)" by (simp only:)
  with True show ?thesis by (simp add: decimal_magnitude_def)
next
  case False
  let ?k = "length fraction - 18" and ?head = "digits_value 0 (whole @ take 18 fraction)"
  let ?tail = "digits_value 0 (drop 18 fraction)"
  have "digits_value 0 (whole @ fraction) = ?head * 10 ^ ?k + ?tail"
    by (metis append.assoc append_take_drop_id digits_value_append digits_value_shift length_drop)
  moreover have "?tail < 10 ^ ?k"
    using digits_value_bound [of "drop 18 fraction"] assms
    by (simp add: list_all_iff) (meson in_set_dropD)
  moreover have "(10::nat) ^ length fraction = 10 ^ ?k * 10 ^ 18"
    unfolding power_add [symmetric] using False by (intro arg_cong [of _ _ "(^) 10"]) simp
  ultimately have "digits_value 0 (whole @ fraction) * 10 ^ 18 div 10 ^ length fraction = ?head"
    by (simp only: scaled_div zero_less_power zero_less_numeral)
  then have "int (digits_value 0 (whole @ fraction)) * 10 ^ 18 div 10 ^ length fraction = int ?head"
    by (metis (no_types) of_nat_div of_nat_mult of_nat_numeral of_nat_power)
  with False show ?thesis by (simp add: decimal_magnitude_def min_def)
qed

lemma decimal_denotes_magnitude:
  assumes "length fraction \<le> 18" and "rest = [] \<or> length fraction = 18"
  shows "decimal_denotes negative whole fraction v \<and> \<bar>v\<bar> \<le> i128_max \<longleftrightarrow>
    decimal_parts_ok whole (fraction @ rest)
    \<and> v = (if negative then - decimal_magnitude whole (fraction @ rest)
           else decimal_magnitude whole (fraction @ rest))"
proof -
  let ?k = "length fraction" and ?d = "int (digits_value 0 (whole @ fraction))"
  have cut: "take 18 (fraction @ rest) = fraction" "min (length (fraction @ rest)) 18 = ?k"
    using assms by auto
  have mag: "decimal_magnitude whole (fraction @ rest) = ?d * 10 ^ (18 - ?k)"
      and ok: "decimal_parts_ok whole (fraction @ rest) \<longleftrightarrow> \<not> (whole = [] \<and> fraction @ rest = [])
        \<and> list_all is_ascii_digit (whole @ fraction) \<and> ?d * 10 ^ (18 - ?k) \<le> i128_max"
    unfolding decimal_parts_ok_def decimal_magnitude_def cut by simp_all
  have ne: "whole = [] \<and> fraction @ rest = [] \<longleftrightarrow> whole @ fraction = []" using assms(2) by auto
  have pow: "(10::int) ^ 18 = 10 ^ (18 - ?k) * 10 ^ ?k" using assms(1) by (simp flip: power_add)
  have "v * 10 ^ ?k = x * 10 ^ 18 \<longleftrightarrow> v = x * 10 ^ (18 - ?k)" for x :: int
    unfolding pow mult.assoc [symmetric] by simp
  then have "decimal_denotes negative whole fraction v \<longleftrightarrow>
      \<not> (whole = [] \<and> fraction @ rest = []) \<and> list_all is_ascii_digit (whole @ fraction)
      \<and> v = (if negative then -1 else 1) * ?d * 10 ^ (18 - ?k)"
    unfolding decimal_denotes_def ne by simp
  then show ?thesis unfolding ok mag by (cases negative) auto
qed

lemma parse_decimal_parts:
  "parse_decimal raw = Some v \<longleftrightarrow>
     (\<exists>negative whole point fraction.
        raw = decimal_text negative whole point fraction \<and> (point \<or> fraction = [])
        \<and> decimal_parts_ok whole fraction
        \<and> v = (if negative then - decimal_magnitude whole fraction
               else decimal_magnitude whole fraction))" (is "_ \<longleftrightarrow> ?parts")
proof
  assume some: "parse_decimal raw = Some v"
  obtain neg digits where a:
    "(case strip_prefix raw ''-'' of None \<Rightarrow> (False, raw) | Some v \<Rightarrow> (True, v)) = (neg, digits)"
    by fastforce
  obtain whole fraction where b:
    "(case split_once CHR ''.'' digits of None \<Rightarrow> (digits, []) | Some p \<Rightarrow> p) = (whole, fraction)"
    by fastforce
  have "raw = (if neg then ''-'' else []) @ digits"
    using a by (auto simp: strip_prefix_Some split: option.splits)
  moreover have "\<exists>point. digits = whole @ (if point then CHR ''.'' # fraction else [])
      \<and> (point \<or> fraction = [])"
    using b by (cases "split_once CHR ''.'' digits") (auto simp: split_once_Some intro: exI [of _ True])
  ultimately obtain point where "raw = decimal_text neg whole point fraction" "point \<or> fraction = []"
    by (auto simp: decimal_text_def)
  moreover have "decimal_parts_ok whole fraction \<and> v = (if neg then - decimal_magnitude whole fraction
      else decimal_magnitude whole fraction)"
    using some by (simp only: parse_decimal_eq a Let_def prod.case b) (simp split: if_splits)
  ultimately show ?parts by blast
next
  assume ?parts
  then show "parse_decimal raw = Some v"
    by (auto simp: parse_decimal_text decimal_parts_ok_def)
qed

text \<open>
  C27. \<open>parse_decimal\<close> accepts exactly the decimal numbers with at most 18 digits after the point,
  and those with 18 digits after the point that are followed by any further bytes, digits or not,
  which it ignores; the value is exactly the number of these digits times \<open>10 ^ 18\<close>, and must fit
  an \<open>i128\<close> without its least value.
\<close>

theorem parse_decimal_iff:
  "parse_decimal raw = Some v \<longleftrightarrow>
     (\<exists>negative whole point fraction rest.
        raw = decimal_text negative whole point (fraction @ rest) \<and> (point \<or> fraction @ rest = [])
        \<and> length fraction \<le> 18 \<and> (rest = [] \<or> length fraction = 18)
        \<and> decimal_denotes negative whole fraction v \<and> \<bar>v\<bar> \<le> i128_max)" (is "_ \<longleftrightarrow> ?split")
proof
  assume "parse_decimal raw = Some v"
  then obtain negative whole point f where raw: "raw = decimal_text negative whole point f" "point \<or> f = []"
      and v: "decimal_parts_ok whole f \<and> v = (if negative then - decimal_magnitude whole f else decimal_magnitude whole f)"
    unfolding parse_decimal_parts by blast
  have split: "length (take 18 f) \<le> 18" "drop 18 f = [] \<or> length (take 18 f) = 18" by auto
  show ?split
    using raw v decimal_denotes_magnitude [OF split, of negative whole v] split
    by (intro exI [of _ negative] exI [of _ whole] exI [of _ point] exI [of _ "take 18 f"] exI [of _ "drop 18 f"]) simp
next
  assume ?split
  then show "parse_decimal raw = Some v" unfolding parse_decimal_parts using decimal_denotes_magnitude by blast
qed

text \<open>
  Where every byte of the fraction is a digit, the value is the exact decimal number times
  \<open>10 ^ 18\<close>, truncated towards zero.
\<close>

lemma parse_decimal_truncates:
  assumes "parse_decimal (decimal_text negative whole point fraction) = Some v"
    and "point \<or> fraction = []" and "list_all is_ascii_digit (whole @ fraction)"
  shows "v = (if negative then -1 else 1) *
     (int (digits_value 0 (whole @ fraction)) * 10 ^ 18 div 10 ^ length fraction)"
proof -
  have "list_all is_ascii_digit whole" and "list_all is_ascii_digit fraction"
    using assms(3) by simp_all
  with assms(1,2) show ?thesis
    by (simp add: parse_decimal_text decimal_magnitude_div split: if_splits)
qed

end
