(* ===== verification/Binance_Json.thy ===== *)
theory Binance_Json
  imports Data_Model
begin

section \<open>Decoding websocket payloads\<close>

text \<open>
  \<open>src/binance_json.rs\<close>: the borrowed event with its raw JSON fields, the iterator over one
  or many events, the fast path for the fixed combined-stream envelope and the fallback through
  \<open>serde_json\<close>, and the readers of raw values. \<open>serde_json\<close> itself is a parameter, the
  record \<open>codec\<close>: what it makes of an envelope (the stream name and the raw text of \<open>data\<close>),
  of one event and of an array of events; \<open>None\<close> is a decoding error. The record also holds
  chrono's \<open>timestamp_millis_opt\<close>, which the parsers use.
\<close>

subsection \<open>Events\<close>

type_synonym raw_value = "string option"

record event =
  ev_e :: raw_value
  ev_event_time :: raw_value
  ev_transaction_time :: raw_value
  ev_s :: raw_value
  ev_side :: raw_value
  ev_first_update :: raw_value
  ev_u :: raw_value
  ev_pu :: raw_value
  ev_a :: raw_value
  ev_upper_a :: raw_value
  ev_b :: raw_value
  ev_upper_b :: raw_value
  ev_p :: raw_value
  ev_upper_p :: raw_value
  ev_q :: raw_value
  ev_upper_q :: raw_value
  ev_f :: raw_value
  ev_upper_f :: raw_value
  ev_l :: raw_value
  ev_upper_l :: raw_value
  ev_m :: raw_value
  ev_upper_m :: raw_value
  ev_t :: raw_value
  ev_c :: raw_value
  ev_o :: raw_value
  ev_h :: raw_value
  ev_v :: raw_value
  ev_upper_v :: raw_value
  ev_w :: raw_value
  ev_i :: raw_value
  ev_x :: raw_value
  ev_status :: raw_value
  ev_open_time :: raw_value
  ev_close_time :: raw_value
  ev_n :: raw_value
  ev_ps :: raw_value
  ev_r :: raw_value
  ev_ap :: raw_value
  ev_z :: raw_value
  ev_k :: raw_value
  ev_nq :: raw_value
  ev_st :: raw_value

text \<open>Every field has \<open>serde(default)\<close>: the event of an empty object.\<close>

definition empty_event :: event where
  "empty_event = \<lparr>ev_e = None, ev_event_time = None, ev_transaction_time = None, ev_s = None,
     ev_side = None, ev_first_update = None, ev_u = None, ev_pu = None, ev_a = None,
     ev_upper_a = None, ev_b = None, ev_upper_b = None, ev_p = None, ev_upper_p = None,
     ev_q = None, ev_upper_q = None, ev_f = None, ev_upper_f = None, ev_l = None,
     ev_upper_l = None, ev_m = None, ev_upper_m = None, ev_t = None, ev_c = None, ev_o = None,
     ev_h = None, ev_v = None, ev_upper_v = None, ev_w = None, ev_i = None, ev_x = None,
     ev_status = None, ev_open_time = None, ev_close_time = None, ev_n = None, ev_ps = None,
     ev_r = None, ev_ap = None, ev_z = None, ev_k = None, ev_nq = None, ev_st = None\<rparr>"

record codec =
  from_envelope :: "string \<Rightarrow> (string \<times> raw_value) option"
  from_event :: "string \<Rightarrow> event option"
  from_event_list :: "string \<Rightarrow> event list option"
  timestamp_millis_opt :: "int \<Rightarrow> datetime option"

text \<open>The iterator: one event, or the rest of an array.\<close>

record events =
  events_one :: "event option"
  events_many :: "event list"

definition events_next :: "events \<Rightarrow> event option \<times> events" where
  "events_next es =
     (case events_one es of
        Some e \<Rightarrow> (Some e, es\<lparr>events_one := None\<rparr>)
      | None \<Rightarrow> (case events_many es of
            [] \<Rightarrow> (None, es)
          | e # rest \<Rightarrow> (Some e, es\<lparr>events_many := rest\<rparr>)))"

definition events_len :: "events \<Rightarrow> nat" where
  "events_len es = (if events_one es = None then 0 else 1) + length (events_many es)"

text \<open>A \<open>for\<close> loop over the iterator visits these events.\<close>

function events_collect :: "events \<Rightarrow> event list" where
  "events_collect es =
     (case events_next es of (None, _) \<Rightarrow> [] | (Some e, es') \<Rightarrow> e # events_collect es')"
  by pat_completeness auto
termination
  by (relation "measure events_len")
    (auto simp: events_next_def events_len_def split: option.splits list.splits)

declare events_collect.simps [simp del]

subsection \<open>The envelope\<close>

definition combined_prefix :: string where
  \<open>combined_prefix = ''{"stream":"''\<close>

definition data_separator :: string where
  \<open>data_separator = ''","data":''\<close>

definition combined_payload :: "string \<Rightarrow> (string \<times> string) option" where
  "combined_payload payload =
     (case strip_prefix payload combined_prefix of
        None \<Rightarrow> None
      | Some rest \<Rightarrow> (case position (CHR 0x22) rest of
            None \<Rightarrow> None
          | Some stream_end \<Rightarrow>
              (let stream = take stream_end rest
               in if \<not> utf8_valid stream then None
                  else (case strip_prefix (drop stream_end rest) data_separator of
                          None \<Rightarrow> None
                        | Some body \<Rightarrow> (case strip_suffix body ''}'' of
                              None \<Rightarrow> None
                            | Some event_payload \<Rightarrow>
                                if event_payload \<noteq> [] then Some (stream, event_payload)
                                else None)))))"

definition websocket_payload :: "codec \<Rightarrow> string \<Rightarrow> (string \<times> string) result" where
  "websocket_payload cd payload =
     (case combined_payload payload of
        Some combined \<Rightarrow> Inr combined
      | None \<Rightarrow> result_bind
          (with_context (from_envelope cd payload) ''decode websocket envelope'')
          (\<lambda>(stream, body). Inr (stream, case body of None \<Rightarrow> payload | Some d \<Rightarrow> d)))"

definition decode :: "codec \<Rightarrow> string \<Rightarrow> (string \<times> events) result" where
  "decode cd payload =
     result_bind (websocket_payload cd payload) (\<lambda>(stream, event_payload).
       result_bind
         (case event_payload of
            CHR ''['' # _ \<Rightarrow>
              result_bind
                (with_context (from_event_list cd event_payload) ''decode websocket event array'')
                (\<lambda>es. Inr \<lparr>events_one = None, events_many = es\<rparr>)
          | _ \<Rightarrow>
              result_bind
                (with_context (from_event cd event_payload) ''decode websocket event'')
                (\<lambda>e. Inr \<lparr>events_one = Some e, events_many = []\<rparr>))
         (\<lambda>es. Inr (stream, es)))"

definition decode_nested :: "codec \<Rightarrow> raw_value \<Rightarrow> event result" where
  "decode_nested cd raw =
     with_context (from_event cd (case raw of None \<Rightarrow> ''{}'' | Some r \<Rightarrow> r))
       ''decode nested websocket event''"

subsection \<open>Raw values\<close>

definition unquote :: "string \<Rightarrow> string option" where
  "unquote v =
     (case strip_prefix v [CHR 0x22] of None \<Rightarrow> None | Some r \<Rightarrow> strip_suffix r [CHR 0x22])"

definition json_string :: "raw_value \<Rightarrow> string" where
  "json_string raw =
     (case unquote (case raw of None \<Rightarrow> [] | Some v \<Rightarrow> v) of None \<Rightarrow> [] | Some s \<Rightarrow> s)"

definition json_number :: "raw_value \<Rightarrow> string" where
  "json_number raw =
     (let v = (case raw of None \<Rightarrow> [] | Some v \<Rightarrow> v)
      in case unquote v of None \<Rightarrow> v | Some s \<Rightarrow> s)"

definition json_u64 :: "raw_value \<Rightarrow> u64" where
  "json_u64 raw = (case parse_u64 (json_number raw) of None \<Rightarrow> 0 | Some n \<Rightarrow> n)"

definition json_i64 :: "raw_value \<Rightarrow> int" where
  "json_i64 raw = (case parse_i64 (json_number raw) of None \<Rightarrow> 0 | Some n \<Rightarrow> n)"

definition json_boolean :: "raw_value \<Rightarrow> bool \<Rightarrow> bool" where
  "json_boolean raw dflt =
     (if raw = Some ''true'' then True else if raw = Some ''false'' then False else dflt)"

definition json_text :: "raw_value \<Rightarrow> string" where
  "json_text raw = (case raw of None \<Rightarrow> ''[]'' | Some v \<Rightarrow> v)"

subsection \<open>The iterator visits every event once, in order\<close>

lemma events_collect_many: "events_collect \<lparr>events_one = None, events_many = es\<rparr> = es"
  by (induction es) (subst events_collect.simps, simp add: events_next_def)+

lemma events_collect_eq:
  "events_collect es =
     (case events_one es of None \<Rightarrow> [] | Some e \<Rightarrow> [e]) @ events_many es"
proof (cases es)
  case (fields one many)
  show ?thesis
  proof (cases one)
    case None
    with fields show ?thesis by (simp add: events_collect_many)
  next
    case (Some e)
    then have "events_collect es = e # events_collect \<lparr>events_one = None, events_many = many\<rparr>"
      by (subst events_collect.simps) (simp add: events_next_def fields)
    with Some fields show ?thesis by (simp add: events_collect_many)
  qed
qed

lemma events_len_collect: "events_len es = length (events_collect es)"
  by (simp add: events_len_def events_collect_eq split: option.split)

subsection \<open>The fast path\<close>

definition combined_message :: "string \<Rightarrow> string \<Rightarrow> string" where
  "combined_message stream body = combined_prefix @ stream @ data_separator @ body @ ''}''"

lemma combined_payload_message:
  assumes "CHR 0x22 \<notin> set stream" and "utf8_valid stream" and "body \<noteq> []"
  shows "combined_payload (combined_message stream body) = Some (stream, body)"
proof -
  have "data_separator = CHR 0x22 # tl data_separator" by (simp add: data_separator_def)
  then have "position (CHR 0x22) (stream @ data_separator @ body @ ''}'') = Some (length stream)"
    using assms(1) by (metis append_Cons position_append)
  with assms show ?thesis
    by (simp add: combined_payload_def combined_message_def)
qed

text \<open>
  The hand-written scanner for the combined envelope accepts exactly the messages built
  from the fixed frame with a stream name that is UTF-8 without a quote and a non-empty body,
  and returns that name and that body.
\<close>

theorem combined_payload_iff:
  "combined_payload payload = Some (stream, body) \<longleftrightarrow>
     payload = combined_message stream body \<and> CHR 0x22 \<notin> set stream \<and> utf8_valid stream \<and> body \<noteq> []"
proof
  assume "combined_payload payload = Some (stream, body)"
  then obtain rest n tail where p: "payload = combined_prefix @ rest"
    and n: "position (CHR 0x22) rest = Some n" and stream: "stream = take n rest"
    and rest: "drop n rest = data_separator @ tail" and tail: "tail = body @ ''}''"
    and ok: "utf8_valid stream" "body \<noteq> []"
    by (auto simp: combined_payload_def Let_def strip_prefix_Some strip_suffix_Some
        split: option.splits if_splits)
  have "rest = stream @ data_separator @ body @ ''}''"
    using rest tail stream by (metis append_take_drop_id)
  then have "payload = combined_message stream body"
    using p by (simp only: combined_message_def)
  moreover have "CHR 0x22 \<notin> set stream"
    using position_Some_take [OF n] unfolding stream by blast
  ultimately show "payload = combined_message stream body \<and> CHR 0x22 \<notin> set stream \<and> utf8_valid stream
      \<and> body \<noteq> []"
    using ok by blast
qed (auto simp: combined_payload_message)

text \<open>Decoding by \<open>serde_json\<close> alone, without the scanner: the reference of the next claim.\<close>

definition decode_by_envelope :: "codec \<Rightarrow> string \<Rightarrow> (string \<times> events) result" where
  "decode_by_envelope cd payload =
     result_bind (with_context (from_envelope cd payload) ''decode websocket envelope'')
       (\<lambda>(stream, body).
         (let event_payload = (case body of None \<Rightarrow> payload | Some d \<Rightarrow> d)
          in if take 1 event_payload = ''[''
             then result_bind
               (with_context (from_event_list cd event_payload) ''decode websocket event array'')
               (\<lambda>es. Inr (stream, \<lparr>events_one = None, events_many = es\<rparr>))
             else result_bind
               (with_context (from_event cd event_payload) ''decode websocket event'')
               (\<lambda>e. Inr (stream, \<lparr>events_one = Some e, events_many = []\<rparr>))))"

lemma decode_eq:
  "decode cd payload =
     result_bind (websocket_payload cd payload) (\<lambda>(stream, event_payload).
       if take 1 event_payload = ''[''
       then result_bind
         (with_context (from_event_list cd event_payload) ''decode websocket event array'')
         (\<lambda>es. Inr (stream, \<lparr>events_one = None, events_many = es\<rparr>))
       else result_bind
         (with_context (from_event cd event_payload) ''decode websocket event'')
         (\<lambda>e. Inr (stream, \<lparr>events_one = Some e, events_many = []\<rparr>)))"
proof -
  have "(case ep of CHR ''['' # _ \<Rightarrow> x | _ \<Rightarrow> y) = (if take 1 ep = ''['' then x else y)"
    for ep :: string and x y :: "events result"
    by (cases ep) (auto split: char.split bool.split)
  then show ?thesis
    unfolding decode_def by (cases "websocket_payload cd payload") (auto simp: result_bind_def split: sum.split)
qed

text \<open>The frame of a combined message, and the decoding of the body that it holds.\<close>

definition framed :: "string \<Rightarrow> string \<Rightarrow> string \<Rightarrow> bool" where
  "framed payload stream body \<longleftrightarrow> payload = combined_message stream body
     \<and> CHR 0x22 \<notin> set stream \<and> utf8_valid stream \<and> body \<noteq> []"

definition decode_body :: "codec \<Rightarrow> string \<Rightarrow> events result" where
  "decode_body cd body =
     (if hd body = CHR ''[''
      then (case from_event_list cd body of
              None \<Rightarrow> Inl ''decode websocket event array''
            | Some es \<Rightarrow> Inr \<lparr>events_one = None, events_many = es\<rparr>)
      else (case from_event cd body of
              None \<Rightarrow> Inl ''decode websocket event''
            | Some e \<Rightarrow> Inr \<lparr>events_one = Some e, events_many = []\<rparr>))"

lemma decode_framed:
  assumes "framed payload stream body"
  shows "decode cd payload = (case decode_body cd body of Inl e \<Rightarrow> Inl e | Inr es \<Rightarrow> Inr (stream, es))"
proof -
  have "combined_payload payload = Some (stream, body)" "body \<noteq> []"
    using assms by (simp_all add: framed_def combined_payload_message)
  then show ?thesis
    by (cases body)
      (auto simp: decode_eq websocket_payload_def decode_body_def with_context_def split: option.split)
qed

lemma decode_unframed:
  assumes "\<nexists>stream body. framed payload stream body"
  shows "decode cd payload = decode_by_envelope cd payload"
proof -
  have "combined_payload payload = None"
    using assms by (cases "combined_payload payload") (auto simp: framed_def combined_payload_iff)
  then show ?thesis
    by (cases "from_envelope cd payload")
      (auto simp: decode_eq websocket_payload_def decode_by_envelope_def result_bind_def with_context_def
        Let_def split: option.splits)
qed

text \<open>
  C28. The fast path is taken exactly for the messages in the fixed frame of a combined stream,
  with a stream name in UTF-8 without a quote and a body that is not empty. For these, decoding
  gives that name with the events of that body, or the body's error, whatever \<open>serde_json\<close> makes of
  the envelope; a message has at most one such name and body. Every other message is decoded
  through the JSON envelope.
\<close>

theorem decode_cases:
  "(\<forall>stream body. framed payload stream body \<longrightarrow>
      decode cd payload = (case decode_body cd body of Inl e \<Rightarrow> Inl e | Inr es \<Rightarrow> Inr (stream, es))
      \<and> (\<forall>stream' body'. framed payload stream' body' \<longrightarrow> stream' = stream \<and> body' = body))
   \<and> ((\<nexists>stream body. framed payload stream body) \<longrightarrow> decode cd payload = decode_by_envelope cd payload)"
proof -
  have "stream' = stream \<and> body' = body" if "framed payload stream body" "framed payload stream' body'"
    for stream body stream' body'
    using that combined_payload_iff unfolding framed_def by (metis option.inject prod.inject)
  then show ?thesis using decode_framed decode_unframed by blast
qed

text \<open>A codec that knows one stream, for the witnesses.\<close>

definition sample_codec :: codec where
  "sample_codec =
     \<lparr>from_envelope = (\<lambda>p. Some (''s'', Some ''{}'')),
      from_event = (\<lambda>p. if p = ''{}'' then Some empty_event else None),
      from_event_list = (\<lambda>p. None),
      timestamp_millis_opt = (\<lambda>ms. if \<bar>ms\<bar> < 8000000000000000 then Some (ms * 1000000) else None)\<rparr>"

theorem decode_cases_witness:
  "decode sample_codec (combined_message ''s'' ''{}'') =
     Inr (''s'', \<lparr>events_one = Some empty_event, events_many = []\<rparr>)
   \<and> decode sample_codec ''{}'' = decode_by_envelope sample_codec ''{}''"
proof -
  have "utf8_valid ''s''" by code_simp
  then have "framed (combined_message ''s'' ''{}'') ''s'' ''{}''" by (simp add: framed_def)
  then have "decode sample_codec (combined_message ''s'' ''{}'') =
      (case decode_body sample_codec ''{}'' of Inl e \<Rightarrow> Inl e | Inr es \<Rightarrow> Inr (''s'', es))"
    using decode_cases [of "combined_message ''s'' ''{}''" sample_codec] by blast
  moreover have "\<nexists>stream body. framed ''{}'' stream body"
    by (auto simp: framed_def combined_message_def combined_prefix_def)
  then have "decode sample_codec ''{}'' = decode_by_envelope sample_codec ''{}''"
    using decode_cases [of "''{}''" sample_codec] by blast
  ultimately show ?thesis by (simp add: decode_body_def sample_codec_def)
qed

subsection \<open>Reading raw values\<close>

lemma unquote_quoted [simp]: "unquote (CHR 0x22 # s @ [CHR 0x22]) = Some s"
  using strip_prefix_append [of "[CHR 0x22]" "s @ [CHR 0x22]"]
  by (simp add: unquote_def)

lemma unquote_unquoted:
  assumes "s = [] \<or> hd s \<noteq> CHR 0x22"
  shows "unquote s = None"
  using assms by (cases s) (auto simp: unquote_def strip_prefix_def)

lemma json_string_quoted [simp]: "json_string (Some (CHR 0x22 # s @ [CHR 0x22])) = s"
  by (simp add: json_string_def)

lemma json_string_None [simp]: "json_string None = []"
  by (simp add: json_string_def unquote_unquoted)

lemma json_number_plain: "s = [] \<or> hd s \<noteq> CHR 0x22 \<Longrightarrow> json_number (Some s) = s"
  by (simp add: json_number_def unquote_unquoted)

lemma json_number_quoted [simp]: "json_number (Some (CHR 0x22 # s @ [CHR 0x22])) = s"
  by (simp add: json_number_def)

lemma json_i64_range: "in_i64 (json_i64 raw)"
  by (auto simp: json_i64_def int_bounds split: option.split dest!: parse_i64_in_range)

lemma json_i64_None [simp]: "json_i64 None = 0"
  by (simp add: json_i64_def json_number_def unquote_unquoted parse_i64_def parse_digits_def)

lemma show_nat_hd: "is_ascii_digit (hd (show_nat n))"
  using show_nat_digits [of n] by (cases "show_nat n") auto

text \<open>
  A 64-bit identifier reads back exactly, whether Binance sends it as a number or as a
  quoted string.
\<close>

theorem json_u64_roundtrip:
  assumes "n < 2 ^ 64"
  shows "json_u64 (Some (show_nat n)) = of_nat n
    \<and> json_u64 (Some (CHR 0x22 # show_nat n @ [CHR 0x22])) = of_nat n"
proof -
  have "hd (show_nat n) \<noteq> CHR 0x22"
    using show_nat_hd [of n] by (auto simp: is_ascii_digit_def)
  then show ?thesis
    by (simp add: json_u64_def json_number_plain parse_u64_show [OF assms])
qed

theorem json_u64_roundtrip_witness:
  "json_u64 (Some (show_nat 18446744073709551615)) = - 1"
  using json_u64_roundtrip [of 18446744073709551615] by simp

end
