(* ===== verification/Spot_Parser.thy ===== *)
theory Spot_Parser
  imports Binance_Json
begin

section \<open>The Spot parser\<close>

text \<open>
  \<open>src/parser.rs\<close>: one definition per function. A parser appends to the caller's vector,
  so \<open>parse_into\<close> takes the records and returns the records it leaves behind together with
  its result: after an error the vector keeps what was pushed before it.
\<close>

subsection \<open>The loop over the events of a payload\<close>

fun push_events ::
  "(event \<Rightarrow> data_record option result) \<Rightarrow> event list \<Rightarrow> data_record list \<Rightarrow> data_record list \<times> unit result"
where
  "push_events f [] records = (records, Inr ())"
| "push_events f (d # ds) records =
     (case f d of
        Inl e \<Rightarrow> (records, Inl e)
      | Inr None \<Rightarrow> push_events f ds records
      | Inr (Some r) \<Rightarrow> push_events f ds (records @ [r]))"

lemma push_events_prefix: "\<exists>new. fst (push_events f ds records) = records @ new"
proof (induction ds arbitrary: records)
  case (Cons d ds)
  then show ?case
    by (auto split: sum.split option.split) (metis append.assoc)
qed simp

lemma push_events_new:
  assumes "push_events f ds records = (records @ new, out)"
  shows "set new \<subseteq> {r. \<exists>d \<in> set ds. f d = Inr (Some r)}"
  using assms
proof (induction ds arbitrary: records new)
  case (Cons d ds)
  show ?case
  proof (cases "f d")
    case (Inr x)
    show ?thesis
    proof (cases x)
      case None
      with Cons Inr show ?thesis by fastforce
    next
      case (Some r)
      with Cons.prems Inr obtain tail where tail: "new = r # tail"
        using push_events_prefix [of f ds "records @ [r]"] by auto
      with Cons.prems Inr Some have "push_events f ds (records @ [r]) = ((records @ [r]) @ tail, out)"
        by simp
      from Cons.IH [OF this] tail Inr Some show ?thesis by fastforce
    qed
  qed (use Cons in auto)
qed simp

lemma push_events_ok:
  assumes "\<And>d. d \<in> set ds \<Longrightarrow> f d = Inr (g d)"
  shows "push_events f ds records = (records @ List.map_filter g ds, Inr ())"
  using assms
  by (induction ds arbitrary: records) (auto simp: map_filter_simps split: option.split)

subsection \<open>Fields\<close>

definition mk_record :: "string \<Rightarrow> data_value list \<Rightarrow> data_record" where
  "mk_record table values = \<lparr>rec_table = table, rec_values = values, rec_target = None\<rparr>"

definition spot_decimal :: "raw_value \<Rightarrow> data_value" where
  "spot_decimal raw =
     decimal_value (case parse_decimal (json_string raw) of None \<Rightarrow> 0 | Some d \<Rightarrow> d)"

definition uint_value :: "raw_value \<Rightarrow> data_value" where
  "uint_value raw = U64 (json_u64 raw)"

definition integer_value :: "raw_value \<Rightarrow> data_value" where
  "integer_value raw = I64 (json_i64 raw)"

definition spot_boolean :: "raw_value \<Rightarrow> bool \<Rightarrow> data_value" where
  "spot_boolean raw dflt = Boolean (json_boolean raw dflt)"

definition spot_millis :: "codec \<Rightarrow> raw_value \<Rightarrow> datetime \<Rightarrow> data_value" where
  "spot_millis cd raw fallback =
     (let milliseconds = json_i64 raw
      in timestamp_value
           (if milliseconds = 0 then fallback
            else (case timestamp_millis_opt cd milliseconds of None \<Rightarrow> fallback | Some t \<Rightarrow> t)))"

definition spot_event_time :: "codec \<Rightarrow> event \<Rightarrow> datetime \<Rightarrow> data_value" where
  "spot_event_time cd d fallback = spot_millis cd (ev_event_time d) fallback"

subsection \<open>One table per event type\<close>

definition spot_parse_depth :: "codec \<Rightarrow> event \<Rightarrow> datetime \<Rightarrow> string \<Rightarrow> data_record" where
  "spot_parse_depth cd d received source = mk_record ''depth_updates''
     [spot_event_time cd d received,
      timestamp_value received,
      text_value (json_string (ev_s d)),
      uint_value (ev_first_update d),
      uint_value (ev_u d),
      static_text source,
      text_value (json_text (ev_b d)),
      text_value (json_text (ev_a d))]"

definition spot_parse_ticker :: "codec \<Rightarrow> event \<Rightarrow> datetime \<Rightarrow> string \<Rightarrow> data_record" where
  "spot_parse_ticker cd d received source = mk_record ''tickers''
     [spot_event_time cd d received,
      timestamp_value received,
      text_value (json_string (ev_s d)),
      spot_decimal (ev_p d),
      spot_decimal (ev_upper_p d),
      spot_decimal (ev_w d),
      spot_decimal (ev_x d),
      spot_decimal (ev_c d),
      spot_decimal (ev_upper_q d),
      spot_decimal (ev_b d),
      spot_decimal (ev_upper_b d),
      spot_decimal (ev_a d),
      spot_decimal (ev_upper_a d),
      spot_decimal (ev_o d),
      spot_decimal (ev_h d),
      spot_decimal (ev_l d),
      spot_decimal (ev_v d),
      spot_decimal (ev_q d),
      spot_millis cd (ev_open_time d) received,
      spot_millis cd (ev_close_time d) received,
      integer_value (ev_upper_f d),
      integer_value (ev_upper_l d),
      uint_value (ev_n d),
      static_text source]"

definition spot_parse_rolling_ticker :: "codec \<Rightarrow> event \<Rightarrow> datetime \<Rightarrow> string \<Rightarrow> data_record" where
  "spot_parse_rolling_ticker cd d received source =
     (let window = trim_end_matches_str ''Ticker'' (json_string (ev_e d))
      in mk_record ''rolling_tickers''
     [spot_event_time cd d received,
      timestamp_value received,
      text_value (json_string (ev_s d)),
      text_value window,
      spot_decimal (ev_p d),
      spot_decimal (ev_upper_p d),
      spot_decimal (ev_o d),
      spot_decimal (ev_h d),
      spot_decimal (ev_l d),
      spot_decimal (ev_c d),
      spot_decimal (ev_w d),
      spot_decimal (ev_v d),
      spot_decimal (ev_q d),
      spot_millis cd (ev_open_time d) received,
      spot_millis cd (ev_close_time d) received,
      integer_value (ev_upper_f d),
      integer_value (ev_upper_l d),
      uint_value (ev_n d),
      static_text source])"

definition spot_parse_kline ::
  "codec \<Rightarrow> event \<Rightarrow> datetime \<Rightarrow> string \<Rightarrow> data_record result" where
  "spot_parse_kline cd d received source =
     result_bind (decode_nested cd (ev_k d)) (\<lambda>kline. Inr (mk_record ''klines''
     [spot_event_time cd d received,
      timestamp_value received,
      text_value (json_string (ev_s d)),
      spot_millis cd (ev_t kline) received,
      spot_millis cd (ev_transaction_time kline) received,
      text_value (json_string (ev_s kline)),
      text_value (json_string (ev_i kline)),
      integer_value (ev_f kline),
      integer_value (ev_upper_l kline),
      spot_decimal (ev_o kline),
      spot_decimal (ev_c kline),
      spot_decimal (ev_h kline),
      spot_decimal (ev_l kline),
      spot_decimal (ev_v kline),
      uint_value (ev_n kline),
      spot_boolean (ev_x kline) False,
      spot_decimal (ev_q kline),
      spot_decimal (ev_upper_v kline),
      spot_decimal (ev_upper_q kline),
      spot_decimal (ev_upper_b kline),
      static_text source]))"

definition spot_parse_event ::
  "codec \<Rightarrow> string \<Rightarrow> event \<Rightarrow> datetime \<Rightarrow> string \<Rightarrow> data_record option result" where
  "spot_parse_event cd stream d received source =
     (let e = json_string (ev_e d) in
      if e = ''depthUpdate'' then Inr (Some (spot_parse_depth cd d received source))
      else if e = ''aggTrade'' then Inr (Some (mk_record ''aggregate_trades''
        [spot_event_time cd d received,
         timestamp_value received,
         text_value (json_string (ev_s d)),
         uint_value (ev_a d),
         spot_decimal (ev_p d),
         spot_decimal (ev_q d),
         uint_value (ev_f d),
         uint_value (ev_l d),
         spot_millis cd (ev_transaction_time d) received,
         spot_boolean (ev_m d) False,
         spot_boolean (ev_upper_m d) True,
         static_text source]))
      else if e = ''trade'' then Inr (Some (mk_record ''trades''
        [spot_event_time cd d received,
         timestamp_value received,
         text_value (json_string (ev_s d)),
         uint_value (ev_t d),
         spot_decimal (ev_p d),
         spot_decimal (ev_q d),
         spot_millis cd (ev_transaction_time d) received,
         spot_boolean (ev_m d) False,
         spot_boolean (ev_upper_m d) True,
         static_text source]))
      else if e = ''kline'' then
        result_bind (spot_parse_kline cd d received source) (\<lambda>r. Inr (Some r))
      else if e = ''24hrMiniTicker'' then Inr (Some (mk_record ''mini_tickers''
        [spot_event_time cd d received,
         timestamp_value received,
         text_value (json_string (ev_s d)),
         spot_decimal (ev_c d),
         spot_decimal (ev_o d),
         spot_decimal (ev_h d),
         spot_decimal (ev_l d),
         spot_decimal (ev_v d),
         spot_decimal (ev_q d),
         static_text source]))
      else if e = ''24hrTicker'' then Inr (Some (spot_parse_ticker cd d received source))
      else if e = ''1hTicker'' \<or> e = ''4hTicker'' \<or> e = ''1dTicker'' then
        Inr (Some (spot_parse_rolling_ticker cd d received source))
      else if e = ''avgPrice'' then Inr (Some (mk_record ''average_prices''
        [spot_event_time cd d received,
         timestamp_value received,
         text_value (json_string (ev_s d)),
         text_value (json_string (ev_i d)),
         spot_decimal (ev_w d),
         spot_millis cd (ev_transaction_time d) received,
         static_text source]))
      else if e = [] \<and> contains stream ''@bookTicker'' then Inr (Some (mk_record ''book_tickers''
        [timestamp_value received,
         text_value (json_string (ev_s d)),
         uint_value (ev_u d),
         spot_decimal (ev_b d),
         spot_decimal (ev_upper_b d),
         spot_decimal (ev_a d),
         spot_decimal (ev_upper_a d),
         static_text source]))
      else Inr None)"

definition spot_parse_into ::
  "codec \<Rightarrow> string \<Rightarrow> datetime \<Rightarrow> string \<Rightarrow> data_record list \<Rightarrow> data_record list \<times> unit result"
where
  "spot_parse_into cd payload received source records =
     (case decode cd payload of
        Inl e \<Rightarrow> (records, Inl e)
      | Inr (stream, events) \<Rightarrow>
          push_events (\<lambda>d. spot_parse_event cd stream d received source)
            (events_collect events) records)"

definition spot_parse :: "codec \<Rightarrow> string \<Rightarrow> datetime \<Rightarrow> string \<Rightarrow> data_record list result" where
  "spot_parse cd payload received source =
     (case spot_parse_into cd payload received source [] of
        (records, Inr _) \<Rightarrow> Inr records
      | (_, Inl e) \<Rightarrow> Inl e)"

lemma spot_parse_into_prefix:
  "\<exists>new. fst (spot_parse_into cd payload received source records) = records @ new"
  by (auto simp: spot_parse_into_def push_events_prefix split: sum.split prod.split)

lemma spot_parse_event_target:
  "spot_parse_event cd stream d received source = Inr (Some r) \<Longrightarrow> rec_target r = None"
  by (auto simp: spot_parse_event_def Let_def mk_record_def spot_parse_depth_def
      spot_parse_ticker_def spot_parse_rolling_ticker_def spot_parse_kline_def result_bind_Inr
      split: if_splits)

end
