(* ===== verification/Json_Value.thy ===== *)
theory Json_Value
  imports Rust_Str
begin

section \<open>JSON values\<close>

text \<open>
  The data that \<open>serde_json::Value\<close> holds and the accessors the sources call on it. A number
  without fraction or exponent is \<open>JInt\<close>; any other number keeps its text. The members of an
  object are an association list whose first entry for a key counts.
\<close>

datatype json =
    JNull
  | JBool bool
  | JInt int
  | JFloat string
  | JString string
  | JArray "json list"
  | JObject "(string \<times> json) list"

fun json_get :: "json \<Rightarrow> string \<Rightarrow> json option" where
  "json_get (JObject members) key = map_of members key"
| "json_get _ _ = None"

fun as_str :: "json \<Rightarrow> string option" where
  "as_str (JString s) = Some s"
| "as_str _ = None"

fun as_bool :: "json \<Rightarrow> bool option" where
  "as_bool (JBool b) = Some b"
| "as_bool _ = None"

fun as_i64 :: "json \<Rightarrow> int option" where
  "as_i64 (JInt n) = (if in_i64 n then Some n else None)"
| "as_i64 _ = None"

fun as_u64 :: "json \<Rightarrow> u64 option" where
  "as_u64 (JInt n) = (if 0 \<le> n \<and> n < 2 ^ 64 then Some (of_int n) else None)"
| "as_u64 _ = None"

fun as_array :: "json \<Rightarrow> json list option" where
  "as_array (JArray xs) = Some xs"
| "as_array _ = None"

text \<open>\<open>value.get(key).and_then(Value::as_str)\<close>\<close>

definition get_str :: "json \<Rightarrow> string \<Rightarrow> string option" where
  "get_str v key = Option.bind (json_get v key) as_str"

text \<open>\<open>pointer("/a/b")\<close> on objects.\<close>

fun json_pointer :: "json \<Rightarrow> string list \<Rightarrow> json option" where
  "json_pointer v [] = Some v"
| "json_pointer v (k # ks) =
     (case json_get v k of None \<Rightarrow> None | Some w \<Rightarrow> json_pointer w ks)"

lemma get_str_Some: "get_str v key = Some s \<longleftrightarrow> json_get v key = Some (JString s)"
proof -
  have "as_str x = Some s \<longleftrightarrow> x = JString s" for x by (cases x) auto
  then show ?thesis by (cases "json_get v key") (auto simp: get_str_def)
qed

end
