(* ===== verification/Futures_Parser.thy ===== *)
theory Futures_Parser
  imports Spot_Parser Json_Value
begin

section \<open>The futures parser\<close>

text \<open>
  \<open>src/futures_parser.rs\<close>: the USD-M and COIN-M tables, the market a record is routed to
  (\<open>st\<close>), the fallback to the Spot parser for payloads that produced no record, and the open
  interest records of the REST poller.
\<close>

subsection \<open>Fields\<close>

definition futures_decimal_value :: "string \<Rightarrow> data_value" where
  "futures_decimal_value raw =
     (case parse_decimal raw of None \<Rightarrow> Null | Some scaled \<Rightarrow> decimal_value scaled)"

definition futures_decimal :: "raw_value \<Rightarrow> data_value" where
  "futures_decimal raw = futures_decimal_value (json_string raw)"

definition optional_integer :: "raw_value \<Rightarrow> data_value" where
  "optional_integer raw = (case raw of None \<Rightarrow> Null | Some v \<Rightarrow> I64 (json_i64 (Some v)))"

definition target_market :: "event \<Rightarrow> market option" where
  "target_market d =
     (let st = json_i64 (ev_st d)
      in if st = 1 then Some Usdm else if st = 2 then Some Coinm else None)"

definition futures_boolean :: "raw_value \<Rightarrow> data_value" where
  "futures_boolean raw = Boolean (json_boolean raw False)"

definition futures_millis :: "codec \<Rightarrow> raw_value \<Rightarrow> datetime \<Rightarrow> data_value" where
  "futures_millis cd raw fallback =
     timestamp_value
       (case timestamp_millis_opt cd (json_i64 raw) of None \<Rightarrow> fallback | Some t \<Rightarrow> t)"

definition mk_futures_record ::
  "string \<Rightarrow> data_value list \<Rightarrow> market option \<Rightarrow> data_record" where
  "mk_futures_record table values target =
     \<lparr>rec_table = table, rec_values = values, rec_target = target\<rparr>"

subsection \<open>One table per event type\<close>

definition futures_parse_depth :: "codec \<Rightarrow> event \<Rightarrow> datetime \<Rightarrow> string \<Rightarrow> data_record" where
  "futures_parse_depth cd d received source = mk_futures_record ''futures_depth_updates''
     [futures_millis cd (ev_event_time d) received,
      futures_millis cd (ev_transaction_time d) received,
      timestamp_value received,
      text_value (json_string (ev_s d)),
      text_value (json_string (ev_ps d)),
      uint_value (ev_first_update d),
      uint_value (ev_u d),
      uint_value (ev_pu d),
      text_value (json_text (ev_b d)),
      text_value (json_text (ev_a d)),
      optional_integer (ev_st d),
      static_text source]
     (target_market d)"

definition aggregate_trade :: "codec \<Rightarrow> event \<Rightarrow> datetime \<Rightarrow> string \<Rightarrow> data_record" where
  "aggregate_trade cd d received source = mk_futures_record ''futures_aggregate_trades''
     [futures_millis cd (ev_event_time d) received,
      timestamp_value received,
      text_value (json_string (ev_s d)),
      text_value (json_string (ev_ps d)),
      uint_value (ev_a d),
      futures_decimal (ev_p d),
      futures_decimal (ev_q d),
      futures_decimal (ev_nq d),
      uint_value (ev_f d),
      uint_value (ev_l d),
      futures_millis cd (ev_transaction_time d) received,
      futures_boolean (ev_m d),
      optional_integer (ev_st d),
      static_text source]
     (target_market d)"

definition book_ticker :: "codec \<Rightarrow> event \<Rightarrow> datetime \<Rightarrow> string \<Rightarrow> data_record" where
  "book_ticker cd d received source = mk_futures_record ''futures_book_tickers''
     [futures_millis cd (ev_event_time d) received,
      futures_millis cd (ev_transaction_time d) received,
      timestamp_value received,
      text_value (json_string (ev_s d)),
      uint_value (ev_u d),
      futures_decimal (ev_b d),
      futures_decimal (ev_upper_b d),
      futures_decimal (ev_a d),
      futures_decimal (ev_upper_a d),
      text_value (json_string (ev_ps d)),
      optional_integer (ev_st d),
      static_text source]
     (target_market d)"

definition mark_price :: "codec \<Rightarrow> event \<Rightarrow> datetime \<Rightarrow> string \<Rightarrow> data_record" where
  "mark_price cd d received source = mk_futures_record ''futures_mark_prices''
     [futures_millis cd (ev_event_time d) received,
      timestamp_value received,
      text_value (json_string (ev_s d)),
      text_value (json_string (ev_ps d)),
      futures_decimal (ev_p d),
      futures_decimal (ev_i d),
      futures_decimal (ev_upper_p d),
      futures_decimal (ev_r d),
      futures_millis cd (ev_transaction_time d) received,
      optional_integer (ev_st d),
      static_text source]
     (target_market d)"

definition liquidation :: "codec \<Rightarrow> event \<Rightarrow> datetime \<Rightarrow> string \<Rightarrow> data_record result" where
  "liquidation cd d received source =
     result_bind (decode_nested cd (ev_o d)) (\<lambda>order.
       Inr (mk_futures_record ''futures_liquidations''
     [futures_millis cd (ev_event_time d) received,
      timestamp_value received,
      text_value (json_string (ev_s order)),
      text_value (json_string (ev_side order)),
      text_value (json_string (ev_o order)),
      text_value (json_string (ev_f order)),
      futures_decimal (ev_q order),
      futures_decimal (ev_p order),
      futures_decimal (ev_ap order),
      text_value (json_string (ev_status order)),
      futures_decimal (ev_l order),
      futures_decimal (ev_z order),
      futures_millis cd (ev_transaction_time order) received,
      text_value (json_string (ev_ps order)),
      optional_integer (option_or (ev_st d) (ev_st order)),
      static_text source]
     (option_or (target_market d) (target_market order))))"

definition mini_ticker :: "codec \<Rightarrow> event \<Rightarrow> datetime \<Rightarrow> string \<Rightarrow> data_record" where
  "mini_ticker cd d received source = mk_futures_record ''futures_mini_tickers''
     [futures_millis cd (ev_event_time d) received,
      timestamp_value received,
      text_value (json_string (ev_s d)),
      text_value (json_string (ev_ps d)),
      futures_decimal (ev_c d),
      futures_decimal (ev_o d),
      futures_decimal (ev_h d),
      futures_decimal (ev_l d),
      futures_decimal (ev_v d),
      futures_decimal (ev_q d),
      optional_integer (ev_st d),
      static_text source]
     (target_market d)"

definition futures_ticker :: "codec \<Rightarrow> event \<Rightarrow> datetime \<Rightarrow> string \<Rightarrow> data_record" where
  "futures_ticker cd d received source = mk_futures_record ''futures_tickers''
     [futures_millis cd (ev_event_time d) received,
      timestamp_value received,
      text_value (json_string (ev_s d)),
      text_value (json_string (ev_ps d)),
      futures_decimal (ev_p d),
      futures_decimal (ev_upper_p d),
      futures_decimal (ev_w d),
      futures_decimal (ev_c d),
      futures_decimal (ev_upper_q d),
      futures_decimal (ev_o d),
      futures_decimal (ev_h d),
      futures_decimal (ev_l d),
      futures_decimal (ev_v d),
      futures_decimal (ev_q d),
      futures_millis cd (ev_open_time d) received,
      futures_millis cd (ev_close_time d) received,
      integer_value (ev_upper_f d),
      integer_value (ev_upper_l d),
      uint_value (ev_n d),
      optional_integer (ev_st d),
      static_text source]
     (target_market d)"

definition futures_kline :: "codec \<Rightarrow> event \<Rightarrow> datetime \<Rightarrow> string \<Rightarrow> data_record result" where
  "futures_kline cd d received source =
     result_bind (decode_nested cd (ev_k d)) (\<lambda>value.
       Inr (mk_futures_record ''futures_klines''
     [futures_millis cd (ev_event_time d) received,
      timestamp_value received,
      text_value (json_string (ev_s d)),
      text_value (json_string (ev_ps value)),
      futures_millis cd (ev_t value) received,
      futures_millis cd (ev_transaction_time value) received,
      text_value (json_string (ev_i value)),
      integer_value (ev_f value),
      integer_value (ev_upper_l value),
      futures_decimal (ev_o value),
      futures_decimal (ev_c value),
      futures_decimal (ev_h value),
      futures_decimal (ev_l value),
      futures_decimal (ev_v value),
      uint_value (ev_n value),
      futures_boolean (ev_x value),
      futures_decimal (ev_q value),
      futures_decimal (ev_upper_v value),
      futures_decimal (ev_upper_q value),
      futures_decimal (ev_upper_b value),
      optional_integer (option_or (ev_st d) (ev_st value)),
      static_text source]
     (option_or (target_market d) (target_market value))))"

definition futures_parse_event ::
  "codec \<Rightarrow> event \<Rightarrow> datetime \<Rightarrow> string \<Rightarrow> data_record option result" where
  "futures_parse_event cd d received source =
     (let e = json_string (ev_e d) in
      if e = ''depthUpdate'' then Inr (Some (futures_parse_depth cd d received source))
      else if e = ''aggTrade'' then Inr (Some (aggregate_trade cd d received source))
      else if e = ''bookTicker'' then Inr (Some (book_ticker cd d received source))
      else if e = ''markPriceUpdate'' then Inr (Some (mark_price cd d received source))
      else if e = ''forceOrder'' then
        result_bind (liquidation cd d received source) (\<lambda>r. Inr (Some r))
      else if e = ''24hrMiniTicker'' then Inr (Some (mini_ticker cd d received source))
      else if e = ''24hrTicker'' then Inr (Some (futures_ticker cd d received source))
      else if e = ''kline'' then
        result_bind (futures_kline cd d received source) (\<lambda>r. Inr (Some r))
      else Inr None)"

definition futures_parse_into ::
  "codec \<Rightarrow> string \<Rightarrow> datetime \<Rightarrow> string \<Rightarrow> data_record list \<Rightarrow> data_record list \<times> unit result"
where
  "futures_parse_into cd payload received source records =
     (case decode cd payload of
        Inl e \<Rightarrow> (records, Inl e)
      | Inr (_, events) \<Rightarrow>
          (let initial_len = length records in
           case push_events (\<lambda>d. futures_parse_event cd d received source)
                  (events_collect events) records of
             (records', Inl e) \<Rightarrow> (records', Inl e)
           | (records', Inr _) \<Rightarrow>
               if length records' = initial_len
               then spot_parse_into cd payload received source records'
               else (records', Inr ())))"

definition futures_parse :: "codec \<Rightarrow> string \<Rightarrow> datetime \<Rightarrow> string \<Rightarrow> data_record list result" where
  "futures_parse cd payload received source =
     (case futures_parse_into cd payload received source [] of
        (records, Inr _) \<Rightarrow> Inr records
      | (_, Inl e) \<Rightarrow> Inl e)"

subsection \<open>Open interest\<close>

definition rest_string :: "json \<Rightarrow> string \<Rightarrow> string" where
  "rest_string v key = (case get_str v key of None \<Rightarrow> [] | Some s \<Rightarrow> s)"

definition rest_millis :: "codec \<Rightarrow> json \<Rightarrow> string \<Rightarrow> datetime \<Rightarrow> data_value" where
  "rest_millis cd v key fallback =
     (let raw = Option.bind (json_get v key)
                  (\<lambda>w. option_or (as_i64 w) (Option.bind (as_str w) parse_i64))
      in timestamp_value
           (case Option.bind raw (timestamp_millis_opt cd) of None \<Rightarrow> fallback | Some t \<Rightarrow> t))"

definition parse_open_interest ::
  "codec \<Rightarrow> string \<Rightarrow> json \<Rightarrow> datetime \<Rightarrow> string \<Rightarrow> data_record" where
  "parse_open_interest cd symbol d received source = mk_futures_record ''futures_open_interest''
     [rest_millis cd d ''time'' received,
      timestamp_value received,
      text_value (case get_str d ''symbol'' of None \<Rightarrow> symbol | Some s \<Rightarrow> s),
      text_value (rest_string d ''pair''),
      text_value (rest_string d ''contractType''),
      futures_decimal_value (rest_string d ''openInterest''),
      static_text source]
     None"

end
