(* ===== verification/Runtime.thy ===== *)
theory Runtime
  imports Json_Value
begin

section \<open>Metrics\<close>

text \<open>
  \<open>src/runtime.rs\<close>: the counters of the process. Each is an atomic \<open>u64\<close>: additions wrap,
  and an operation on one of them is one step.
\<close>

record metrics =
  received_messages :: u64
  parsed_records :: u64
  written_records :: u64
  parse_errors :: u64
  reconnects :: u64
  dropped_messages :: u64
  writer_queue_depth :: u64
  writer_queue_high_watermark :: u64
  last_message_unix_ms :: u64

definition default_metrics :: metrics where
  "default_metrics = \<lparr>received_messages = 0, parsed_records = 0, written_records = 0,
     parse_errors = 0, reconnects = 0, dropped_messages = 0, writer_queue_depth = 0,
     writer_queue_high_watermark = 0, last_message_unix_ms = 0\<rparr>"

text \<open>The snapshot, as the JSON object that its \<open>Serialize\<close> instance writes.\<close>

definition snapshot_json :: "metrics \<Rightarrow> json" where
  "snapshot_json m = JObject
     (map (\<lambda>(name, v). (name, JInt (uint v)))
       [(''received_messages'', received_messages m), (''parsed_records'', parsed_records m),
        (''written_records'', written_records m), (''parse_errors'', parse_errors m),
        (''reconnects'', reconnects m), (''dropped_messages'', dropped_messages m),
        (''writer_queue_depth'', writer_queue_depth m),
        (''writer_queue_high_watermark'', writer_queue_high_watermark m),
        (''last_message_unix_ms'', last_message_unix_ms m)])"

definition observe_writer_queue :: "u64 \<Rightarrow> metrics \<Rightarrow> metrics" where
  "observe_writer_queue depth m =
     m\<lparr>writer_queue_depth := depth,
       writer_queue_high_watermark := max (writer_queue_high_watermark m) depth\<rparr>"

lemma observe_writer_queue_simps [simp]:
  "writer_queue_depth (observe_writer_queue d m) = d"
  "writer_queue_high_watermark (observe_writer_queue d m) = max (writer_queue_high_watermark m) d"
  "written_records (observe_writer_queue d m) = written_records m"
  by (simp_all add: observe_writer_queue_def)

end
