(* ===== verification/Collector.thy ===== *)
theory Collector
  imports Futures_Parser Runtime
begin

section \<open>The collector\<close>

text \<open>
  \<open>src/collector.rs\<close>: the receive loop of a websocket connection, its reconnects, and the
  processor that parses the payloads of a market in batches and routes the records to the
  writers. The clock readings, the events of the socket and the answers of the channels are
  arguments. Times are nanoseconds.
\<close>

subsection \<open>Received messages\<close>

definition metrics_flush_messages :: u64 where
  "metrics_flush_messages = 256"

definition metrics_flush_interval :: int where
  "metrics_flush_interval = 1000000000"

record received_metrics =
  rm_pending :: u64
  rm_latest :: u64
  rm_last_flush :: int

definition rm_new :: "int \<Rightarrow> received_metrics" where
  "rm_new now = \<lparr>rm_pending = 0, rm_latest = 0, rm_last_flush = now\<rparr>"

definition rm_flush :: "int \<Rightarrow> metrics \<times> received_metrics \<Rightarrow> metrics \<times> received_metrics" where
  "rm_flush now mr =
     (case mr of (m, rm) \<Rightarrow>
        if rm_pending rm = 0 then (m, rm)
        else (m\<lparr>received_messages := received_messages m + rm_pending rm,
                last_message_unix_ms := max (last_message_unix_ms m) (rm_latest rm)\<rparr>,
              \<lparr>rm_pending = 0, rm_latest = 0, rm_last_flush = now\<rparr>))"

definition unix_millis :: "datetime \<Rightarrow> u64" where
  "unix_millis received = of_int (max (received div 1000000) 0)"

definition rm_record :: "int \<Rightarrow> datetime \<Rightarrow> metrics \<times> received_metrics \<Rightarrow> metrics \<times> received_metrics" where
  "rm_record now received mr =
     (case mr of (m, rm) \<Rightarrow>
        (let rm = rm\<lparr>rm_pending := rm_pending rm + 1,
                     rm_latest := max (rm_latest rm) (unix_millis received)\<rparr> in
         if rm_pending rm \<ge> metrics_flush_messages
            \<or> now - rm_last_flush rm \<ge> metrics_flush_interval
         then rm_flush now (m, rm) else (m, rm)))"

subsection \<open>One connection\<close>

record payload =
  pl_bytes :: string
  pl_received :: datetime
  pl_shard :: nat

datatype ws_message = TextMessage string | BinaryMessage string | PingMessage string | CloseMessage | OtherMessage

text \<open>What \<open>select!\<close> yields: the rotation timer, or the next item of the stream.\<close>

datatype socket_event = Rotation | StreamEnded | ReadError error | Incoming ws_message

text \<open>
  The receive loop over the events of one connection. \<open>clock i\<close> is the pair of clock readings
  at the \<open>i\<close>-th event; \<open>pong\<close> and \<open>push\<close> say whether the reply and the hand-over succeed. The
  result lists the payloads handed over and is \<open>None\<close> where the events end while the loop
  still waits.
\<close>

fun collect_loop ::
  "nat \<Rightarrow> (nat \<Rightarrow> int \<times> datetime) \<Rightarrow> (nat \<Rightarrow> bool) \<Rightarrow> (nat \<Rightarrow> bool) \<Rightarrow> nat \<Rightarrow> socket_event list \<Rightarrow>
   metrics \<times> received_metrics \<Rightarrow> (metrics \<times> received_metrics) \<times> payload list \<times> unit result option" where
  "collect_loop sid clock pong push i [] mr = (mr, [], None)"
| "collect_loop sid clock pong push i (ev # evs) mr =
     (let hand_over = (\<lambda>bytes.
        (let mr = rm_record (fst (clock i)) (snd (clock i)) mr in
         if push i
         then (case collect_loop sid clock pong push (Suc i) evs mr of
                 (mr', ps, out) \<Rightarrow>
                   (mr', \<lparr>pl_bytes = bytes, pl_received = snd (clock i), pl_shard = sid\<rparr> # ps, out))
         else (mr, [], Some (Inl ''websocket processing pipeline stopped''))))
      in case ev of
        Rotation \<Rightarrow> (mr, [], Some (Inl ''scheduled websocket rotation''))
      | StreamEnded \<Rightarrow> (mr, [], Some (Inl ''websocket stream ended''))
      | ReadError e \<Rightarrow> (mr, [], Some (Inl e))
      | Incoming (TextMessage s) \<Rightarrow> hand_over s
      | Incoming (BinaryMessage s) \<Rightarrow> hand_over s
      | Incoming (PingMessage s) \<Rightarrow>
          if pong i then collect_loop sid clock pong push (Suc i) evs mr
          else (mr, [], Some (Inl ''reply websocket pong''))
      | Incoming CloseMessage \<Rightarrow> (mr, [], Some (Inr ()))
      | Incoming OtherMessage \<Rightarrow> collect_loop sid clock pong push (Suc i) evs mr)"

text \<open>The whole connection; dropping the received metrics at its end flushes them.\<close>

definition collect ::
  "nat \<Rightarrow> bool \<Rightarrow> bool \<Rightarrow> (nat \<Rightarrow> int \<times> datetime) \<Rightarrow> (nat \<Rightarrow> bool) \<Rightarrow> (nat \<Rightarrow> bool) \<Rightarrow> int \<Rightarrow> int \<Rightarrow>
   socket_event list \<Rightarrow> metrics \<Rightarrow> metrics \<times> payload list \<times> unit result option" where
  "collect sid connected subscribed clock pong push opened dropped evs m =
     (if \<not> connected then (m, [], Some (Inl ''connect Binance websocket''))
      else if \<not> subscribed then (m, [], Some (Inl ''subscribe Binance streams''))
      else
        (case collect_loop sid clock pong push 0 evs (m, rm_new opened) of
           (mr, ps, None) \<Rightarrow> (fst mr, ps, None)
         | (mr, ps, Some out) \<Rightarrow> (fst (rm_flush dropped mr), ps, Some out)))"

text \<open>
  One round of \<open>run_shard\<close>: \<open>elapsed\<close> is how long the connection lasted, in seconds. The result
  is the pause before the next round and the state of that round.
\<close>

record shard_state =
  sh_delay :: nat
  sh_connected_once :: bool

definition shard_start :: shard_state where
  "shard_start = \<lparr>sh_delay = 1, sh_connected_once = False\<rparr>"

definition shard_round :: "nat \<Rightarrow> shard_state \<times> metrics \<Rightarrow> nat \<times> shard_state \<times> metrics" where
  "shard_round elapsed sm =
     (case sm of (sh, m) \<Rightarrow>
        (let m = (if sh_connected_once sh then m\<lparr>reconnects := reconnects m + 1\<rparr> else m);
             delay = (if elapsed \<ge> 5 * 60 then 1 else sh_delay sh)
         in (delay, \<lparr>sh_delay = min (delay * 2) 30, sh_connected_once = True\<rparr>, m)))"

subsection \<open>Parsing a batch\<close>

definition source_name :: "market \<Rightarrow> string" where
  "source_name m =
     (case m of Spot \<Rightarrow> ''binance_spot_websocket'' | Usdm \<Rightarrow> ''binance_usdm_websocket''
      | Coinm \<Rightarrow> ''binance_coinm_websocket'')"

definition parse_payload ::
  "codec \<Rightarrow> market \<Rightarrow> payload \<Rightarrow> data_record list \<Rightarrow> data_record list \<times> unit result" where
  "parse_payload cd m p records =
     (if m = Spot
      then spot_parse_into cd (pl_bytes p) (pl_received p) (source_name m) records
      else futures_parse_into cd (pl_bytes p) (pl_received p) (source_name m) records)"

text \<open>
  The loop over the payloads of a batch: the batch of records, the number parsed and the number
  of failed payloads, whose records are cut off again.
\<close>

fun parse_batch ::
  "codec \<Rightarrow> market \<Rightarrow> payload list \<Rightarrow> data_record list \<times> u64 \<times> u64 \<Rightarrow> data_record list \<times> u64 \<times> u64" where
  "parse_batch cd m [] acc = acc"
| "parse_batch cd m (p # ps) (records, parsed, errors) =
     (let initial_len = length records in
      case parse_payload cd m p records of
        (records', Inr _) \<Rightarrow>
          if length records' > initial_len
          then parse_batch cd m ps (records', parsed + of_nat (length records' - initial_len), errors)
          else parse_batch cd m ps (records', parsed, errors)
      | (records', Inl e) \<Rightarrow>
          parse_batch cd m ps (take initial_len records', parsed, errors + 1))"

subsection \<open>Routing\<close>

definition target_of :: "market \<Rightarrow> data_record \<Rightarrow> market" where
  "target_of fallback r = (case rec_target r of None \<Rightarrow> fallback | Some t \<Rightarrow> t)"

text \<open>\<open>send\<close> is \<open>Writer::records\<close>. The result lists the batches sent, the failed one included.\<close>

fun send_batches ::
  "(market \<Rightarrow> data_record list \<Rightarrow> unit result) \<Rightarrow> (market \<times> data_record list) list \<Rightarrow>
   (market \<times> data_record list) list \<times> unit result" where
  "send_batches send [] = ([], Inr ())"
| "send_batches send ((m, rs) # bs) =
     (if rs = [] then send_batches send bs
      else (case send m rs of
              Inl e \<Rightarrow> ([(m, rs)], Inl e)
            | Inr _ \<Rightarrow> (case send_batches send bs of (sent, out) \<Rightarrow> ((m, rs) # sent, out))))"

definition write_records ::
  "(market \<Rightarrow> data_record list \<Rightarrow> unit result) \<Rightarrow> market \<Rightarrow> data_record list \<Rightarrow>
   (market \<times> data_record list) list \<times> unit result" where
  "write_records send fallback records =
     (if \<not> list_ex (\<lambda>r. case rec_target r of None \<Rightarrow> False | Some t \<Rightarrow> t \<noteq> fallback) records
      then ([(fallback, records)], send fallback records)
      else send_batches send
        [(m, filter (\<lambda>r. target_of fallback r = m) records). m \<leftarrow> [Spot, Usdm, Coinm]])"

subsection \<open>The processor\<close>

definition payload_batch_size :: nat where
  "payload_batch_size = 512"

definition process_batch ::
  "codec \<Rightarrow> (market \<Rightarrow> data_record list \<Rightarrow> unit result) \<Rightarrow> market \<Rightarrow> payload list \<Rightarrow> metrics \<Rightarrow>
   metrics \<times> (market \<times> data_record list) list \<times> unit result" where
  "process_batch cd send m ps ms =
     (case parse_batch cd m ps ([], 0, 0) of
        (records, parsed, errors) \<Rightarrow>
          (let ms = ms\<lparr>parse_errors := parse_errors ms + errors,
                       parsed_records := parsed_records ms + parsed\<rparr> in
           if records = [] then (ms, [], Inr ())
           else (case write_records send m records of (sent, out) \<Rightarrow> (ms, sent, out))))"

text \<open>
  The processor over the payloads that arrive until the channel is closed. \<open>waiting\<close> gives for
  each round how many payloads are there after the coalescing pause; the first is always taken
  and at most a full batch.
\<close>

fun process_payloads ::
  "codec \<Rightarrow> (nat \<Rightarrow> market \<Rightarrow> data_record list \<Rightarrow> unit result) \<Rightarrow> market \<Rightarrow> nat \<Rightarrow> nat list \<Rightarrow>
   payload list \<Rightarrow> metrics \<Rightarrow> metrics \<times> (market \<times> data_record list) list \<times> unit result" where
  "process_payloads cd send m i [] queue ms = (ms, [], Inr ())"
| "process_payloads cd send m i (n # waiting) queue ms =
     (if queue = [] then (ms, [], Inr ())
      else
        (let k = clamp 1 payload_batch_size n in
         case process_batch cd (send i) m (take k queue) ms of
           (ms', sent, Inl e) \<Rightarrow> (ms', sent, Inl e)
         | (ms', sent, Inr _) \<Rightarrow>
             (case process_payloads cd send m (Suc i) waiting (drop k queue) ms' of
                (ms'', sent', out) \<Rightarrow> (ms'', sent @ sent', out))))"

subsection \<open>A batch parses its payloads in isolation\<close>

definition payload_records :: "codec \<Rightarrow> market \<Rightarrow> payload \<Rightarrow> data_record list" where
  "payload_records cd m p =
     (case parse_payload cd m p [] of (rs, Inr _) \<Rightarrow> rs | (_, Inl _) \<Rightarrow> [])"

definition payload_fails :: "codec \<Rightarrow> market \<Rightarrow> payload \<Rightarrow> bool" where
  "payload_fails cd m p \<longleftrightarrow> \<not> is_ok (snd (parse_payload cd m p []))"

lemma push_events_append:
  "push_events f ds records = (records @ fst (push_events f ds []), snd (push_events f ds []))"
proof (induction ds arbitrary: records)
  case (Cons d ds)
  show ?case
  proof (cases "f d")
    case (Inr r)
    show ?thesis
    proof (cases r)
      case (Some x)
      have "push_events f (d # ds) records = push_events f ds (records @ [x])" for records
        by (simp add: Inr Some)
      then show ?thesis using Cons [of "records @ [x]"] Cons [of "[x]"] by simp
    next
      case None
      then show ?thesis using Inr Cons [of records] by simp
    qed
  qed simp
qed simp

lemma spot_parse_into_append:
  "spot_parse_into cd b t src records =
     (records @ fst (spot_parse_into cd b t src []), snd (spot_parse_into cd b t src []))"
proof (cases "decode cd b")
  case (Inr v)
  then show ?thesis
    using push_events_append [of "\<lambda>d. spot_parse_event cd (fst v) d t src" "events_collect (snd v)" records]
    by (simp add: spot_parse_into_def split_def)
qed (simp add: spot_parse_into_def)

lemma futures_parse_into_append:
  "futures_parse_into cd b t src records =
     (records @ fst (futures_parse_into cd b t src []), snd (futures_parse_into cd b t src []))"
proof (cases "decode cd b")
  case (Inr v)
  let ?f = "\<lambda>d. futures_parse_event cd d t src"
  obtain rs out where p: "push_events ?f (events_collect (snd v)) [] = (rs, out)" by fastforce
  then have q: "push_events ?f (events_collect (snd v)) records = (records @ rs, out)"
    using push_events_append [of ?f "events_collect (snd v)" records] by simp
  show ?thesis
    using Inr p q spot_parse_into_append [of cd b t src records]
    by (auto simp: futures_parse_into_def split_def Let_def split: sum.splits)
qed (simp add: futures_parse_into_def)

lemma parse_payload_append:
  "parse_payload cd m p records =
     (records @ fst (parse_payload cd m p []), snd (parse_payload cd m p []))"
proof (cases "m = Spot")
  case True
  then show ?thesis
    using spot_parse_into_append [of cd "pl_bytes p" "pl_received p" "source_name m" records]
    unfolding parse_payload_def by simp
next
  case False
  then show ?thesis
    using futures_parse_into_append [of cd "pl_bytes p" "pl_received p" "source_name m" records]
    unfolding parse_payload_def by simp
qed

lemma parse_batch_eq:
  "parse_batch cd m ps (records, parsed, errors) =
     (records @ concat (map (payload_records cd m) ps),
      parsed + of_nat (length (concat (map (payload_records cd m) ps))),
      errors + of_nat (length (filter (payload_fails cd m) ps)))"
proof (induction ps arbitrary: records parsed errors)
  case (Cons p ps)
  obtain rs out where p: "parse_payload cd m p [] = (rs, out)" by fastforce
  then have q: "parse_payload cd m p records = (records @ rs, out)" for records
    using parse_payload_append [of cd m p records] by simp
  show ?case
  proof (cases out)
    case (Inl e)
    then show ?thesis
      using p q Cons by (simp add: payload_records_def payload_fails_def ac_simps)
  next
    case (Inr u)
    then show ?thesis
      using p q Cons by (simp add: payload_records_def payload_fails_def ac_simps)
  qed
qed simp

subsection \<open>What reaches the writers\<close>

definition delivered :: "market \<Rightarrow> (market \<times> data_record list) list \<Rightarrow> data_record list" where
  "delivered m sent = concat (map snd (filter (\<lambda>(k, _). k = m) sent))"

lemma delivered_simps [simp]:
  "delivered m [] = []"
  "delivered m ((k, rs) # sent) = (if k = m then rs @ delivered m sent else delivered m sent)"
  "delivered m (sent @ sent') = delivered m sent @ delivered m sent'"
  by (simp_all add: delivered_def)

lemma write_records_delivers:
  assumes "\<forall>m rs. send m rs = Inr ()"
  shows "\<exists>sent. write_records send fallback records = (sent, Inr ())
    \<and> (\<forall>m. delivered m sent = filter (\<lambda>r. target_of fallback r = m) records)"
proof (cases "list_ex (\<lambda>r. case rec_target r of None \<Rightarrow> False | Some t \<Rightarrow> t \<noteq> fallback) records")
  case False
  then have "target_of fallback r = fallback" if "r \<in> set records" for r
    using that by (auto simp: list_ex_iff target_of_def split: option.splits)
  then have "filter (\<lambda>r. target_of fallback r = m) records = (if m = fallback then records else [])" for m
    by (auto simp: filter_empty_conv)
  then show ?thesis using False assms by (simp add: write_records_def)
next
  case True
  let ?f = "\<lambda>m. filter (\<lambda>r. target_of fallback r = m) records"
  let ?bs = "[(m, ?f m). m \<leftarrow> [Spot, Usdm, Coinm]]"
  have ok: "send_batches send bs = (filter (\<lambda>(_, rs). rs \<noteq> []) bs, Inr ())" for bs
    by (induction bs) (auto simp: assms)
  have "delivered m (filter (\<lambda>(_, rs). rs \<noteq> []) ?bs) = ?f m" for m
    by (cases m) simp_all
  moreover have "write_records send fallback records = (filter (\<lambda>(_, rs). rs \<noteq> []) ?bs, Inr ())"
    unfolding write_records_def ok using True by simp
  ultimately show ?thesis by blast
qed

lemma process_batch_delivers:
  assumes "\<forall>m rs. send m rs = Inr ()"
  shows "\<exists>ms' sent. process_batch cd send m ps ms = (ms', sent, Inr ())
    \<and> (\<forall>k. delivered k sent =
         filter (\<lambda>r. target_of m r = k) (concat (map (payload_records cd m) ps)))
    \<and> parsed_records ms' = parsed_records ms + of_nat (length (concat (map (payload_records cd m) ps)))
    \<and> parse_errors ms' = parse_errors ms + of_nat (length (filter (payload_fails cd m) ps))"
proof -
  let ?rs = "concat (map (payload_records cd m) ps)"
  obtain sent where "write_records send m ?rs = (sent, Inr ())"
      "\<forall>k. delivered k sent = filter (\<lambda>r. target_of m r = k) ?rs"
    using write_records_delivers [OF assms] by blast
  then show ?thesis
    by (cases "?rs = []") (simp_all add: process_batch_def parse_batch_eq Let_def)
qed

lemma process_payloads_delivers:
  assumes "\<forall>i k rs. send i k rs = Inr ()" and "length queue \<le> length waiting"
  shows "\<exists>ms' sent. process_payloads cd send m i waiting queue ms = (ms', sent, Inr ())
    \<and> (\<forall>k. delivered k sent =
         filter (\<lambda>r. target_of m r = k) (concat (map (payload_records cd m) queue)))
    \<and> parsed_records ms' = parsed_records ms + of_nat (length (concat (map (payload_records cd m) queue)))
    \<and> parse_errors ms' = parse_errors ms + of_nat (length (filter (payload_fails cd m) queue))"
  using assms
proof (induction waiting arbitrary: i queue ms)
  case (Cons n waiting)
  show ?case
  proof (cases "queue = []")
    case False
    define k where "k = clamp 1 payload_batch_size n"
    have k: "0 < k" using clamp_bounds [of 1 payload_batch_size n] by (simp add: k_def payload_batch_size_def)
    obtain ms1 sent1 where one: "process_batch cd (send i) m (take k queue) ms = (ms1, sent1, Inr ())"
        "\<forall>j. delivered j sent1 = filter (\<lambda>r. target_of m r = j)
           (concat (map (payload_records cd m) (take k queue)))"
        "parsed_records ms1 = parsed_records ms +
           of_nat (length (concat (map (payload_records cd m) (take k queue))))"
        "parse_errors ms1 = parse_errors ms + of_nat (length (filter (payload_fails cd m) (take k queue)))"
      using process_batch_delivers [of "send i" cd m "take k queue" ms] Cons.prems(1) by blast
    have "length (drop k queue) \<le> length waiting" using Cons.prems(2) k by simp
    from Cons.IH [OF Cons.prems(1) this, of "Suc i" ms1] obtain ms2 sent2 where
      two: "process_payloads cd send m (Suc i) waiting (drop k queue) ms1 = (ms2, sent2, Inr ())"
        "\<forall>j. delivered j sent2 = filter (\<lambda>r. target_of m r = j)
           (concat (map (payload_records cd m) (drop k queue)))"
        "parsed_records ms2 = parsed_records ms1 +
           of_nat (length (concat (map (payload_records cd m) (drop k queue))))"
        "parse_errors ms2 = parse_errors ms1 + of_nat (length (filter (payload_fails cd m) (drop k queue)))"
      by blast
    have all: "concat (map (payload_records cd m) queue) =
        concat (map (payload_records cd m) (take k queue)) @ concat (map (payload_records cd m) (drop k queue))"
      by (metis append_take_drop_id concat_append map_append)
    have failed: "filter (payload_fails cd m) queue =
        filter (payload_fails cd m) (take k queue) @ filter (payload_fails cd m) (drop k queue)"
      by (metis append_take_drop_id filter_append)
    have "process_payloads cd send m i (n # waiting) queue ms = (ms2, sent1 @ sent2, Inr ())"
      using False one(1) two(1) by (simp add: k_def)
    then show ?thesis
      using one(2-4) two(2-4) unfolding all failed
      by (intro exI [of _ ms2] exI [of _ "sent1 @ sent2"]) (simp add: ac_simps)
  qed simp
qed simp

text \<open>What the writers would be handed if every send succeeded.\<close>

definition routed :: "market \<Rightarrow> data_record list \<Rightarrow> (market \<times> data_record list) list" where
  "routed m records = fst (write_records (\<lambda>_ _. Inr ()) m records)"

lemma send_batches_prefix:
  "send_batches send bs = (sent, out) \<Longrightarrow>
   prefix sent (fst (send_batches (\<lambda>_ _. Inr ()) bs))
   \<and> (out = Inr () \<longrightarrow> sent = fst (send_batches (\<lambda>_ _. Inr ()) bs))"
proof (induction bs arbitrary: sent out)
  case (Cons b bs)
  obtain m rs where b: "b = (m, rs)" by fastforce
  obtain sent1 out1 where rest: "send_batches send bs = (sent1, out1)" by fastforce
  obtain sent2 out2 where all: "send_batches (\<lambda>_ _. Inr ()) bs = (sent2, out2)" by fastforce
  show ?case
    using Cons.prems Cons.IH [OF rest]
    by (cases "rs = []"; cases "send m rs") (auto simp: b rest all)
qed simp

lemma write_records_prefix:
  assumes "write_records send m records = (sent, out)"
  shows "prefix sent (routed m records)" and "out = Inr () \<Longrightarrow> sent = routed m records"
  using assms send_batches_prefix [of send _ sent out]
  by (auto simp: write_records_def routed_def simp del: send_batches.simps split: if_splits)

lemma process_batch_prefix:
  assumes "process_batch cd send m ps ms = (ms', sent, out)"
    and "process_batch cd (\<lambda>_ _. Inr ()) m ps ms = (ms1, sent1, out1)"
  shows "prefix sent sent1 \<and> ms' = ms1 \<and> (out = Inr () \<longrightarrow> sent = sent1)"
proof -
  obtain records parsed errors where p: "parse_batch cd m ps ([], 0, 0) = (records, parsed, errors)"
    using prod_cases3 by blast
  obtain s o' where w: "write_records send m records = (s, o')" by fastforce
  obtain s1 o1 where w1: "write_records (\<lambda>_ _. Inr ()) m records = (s1, o1)" by fastforce
  have "routed m records = s1" by (simp add: routed_def w1)
  then show ?thesis
    using assms write_records_prefix [OF w] by (cases "records = []") (auto simp: process_batch_def p w w1 Let_def)
qed

lemma process_payloads_prefix:
  assumes "process_payloads cd send m i waiting queue ms = (ms', sent, out)"
    and "process_payloads cd (\<lambda>_ _ _. Inr ()) m i waiting queue ms = (ms1, sent1, out1)"
  shows "prefix sent sent1 \<and> (out = Inr () \<longrightarrow> sent = sent1 \<and> ms' = ms1)"
  using assms
proof (induction waiting arbitrary: i queue ms sent sent1)
  case (Cons n waiting)
  show ?case
  proof (cases "queue = []")
    case True
    with Cons.prems show ?thesis by auto
  next
    case False
    let ?k = "clamp 1 payload_batch_size n"
    obtain msa senta outa where a: "process_batch cd (send i) m (take ?k queue) ms = (msa, senta, outa)"
      using prod_cases3 by blast
    obtain msb sentb where b: "process_batch cd (\<lambda>_ _. Inr ()) m (take ?k queue) ms = (msb, sentb, Inr ())"
      using process_batch_delivers [of "\<lambda>_ _. Inr ()" cd m "take ?k queue" ms] by blast
    note ab = process_batch_prefix [OF a b]
    obtain msd sentd outd where d: "process_payloads cd (\<lambda>_ _ _. Inr ()) m (Suc i) waiting (drop ?k queue) msb = (msd, sentd, outd)"
      using prod_cases3 by blast
    have all: "sent1 = sentb @ sentd" "ms1 = msd" "out1 = outd" using Cons.prems(2) False b d by simp_all
    show ?thesis
    proof (cases outa)
      case (Inl e)
      with Cons.prems(1) False a have "sent = senta" "out = Inl e" by simp_all
      with ab all show ?thesis by (auto intro: prefix_prefix)
    next
      case (Inr u)
      obtain msc sentc outc where c: "process_payloads cd send m (Suc i) waiting (drop ?k queue) msa = (msc, sentc, outc)"
        using prod_cases3 by blast
      have one: "sent = senta @ sentc" "ms' = msc" "out = outc" using Cons.prems(1) False a c Inr by simp_all
      have "senta = sentb" "msa = msb" using ab Inr by simp_all
      with Cons.IH [of "Suc i" "drop ?k queue" msa sentc sentd] c d all one show ?thesis by simp
    qed
  qed
qed simp

lemma delivered_prefix: "prefix sent sent' \<Longrightarrow> prefix (delivered k sent) (delivered k sent')"
  by (auto simp: prefix_def)

text \<open>
  C14. How payloads are batched is invisible. Whatever is waiting in each round and whatever the
  sends come to, what a market's writer is handed is, in order, the beginning of the records that
  parsing each payload on its own yields for that market; a payload that fails half way
  contributes nothing. If the processor is not ended by a failed send, which cannot happen when
  all sends succeed, it is all of these records, and the counters say how many records were
  parsed and how many payloads failed.
\<close>

theorem batching_is_invisible:
  assumes "process_payloads cd send m i waiting queue ms = (ms', sent, out)"
    and "length queue \<le> length waiting"
  shows "(\<forall>k. prefix (delivered k sent)
        (filter (\<lambda>r. target_of m r = k) (concat (map (payload_records cd m) queue))))
    \<and> (out = Inr () \<longrightarrow>
        (\<forall>k. delivered k sent =
          filter (\<lambda>r. target_of m r = k) (concat (map (payload_records cd m) queue)))
        \<and> parsed_records ms' = parsed_records ms + of_nat (length (concat (map (payload_records cd m) queue)))
        \<and> parse_errors ms' = parse_errors ms + of_nat (length (filter (payload_fails cd m) queue)))
    \<and> ((\<forall>i k rs. send i k rs = Inr ()) \<longrightarrow> out = Inr ())"
proof -
  obtain ms1 sent1 where all: "process_payloads cd (\<lambda>_ _ _. Inr ()) m i waiting queue ms = (ms1, sent1, Inr ())"
      "\<forall>k. delivered k sent1 = filter (\<lambda>r. target_of m r = k) (concat (map (payload_records cd m) queue))"
      "parsed_records ms1 = parsed_records ms + of_nat (length (concat (map (payload_records cd m) queue)))"
      "parse_errors ms1 = parse_errors ms + of_nat (length (filter (payload_fails cd m) queue))"
    using process_payloads_delivers [OF _ assms(2), of "\<lambda>_ _ _. Inr ()" cd m i ms] by auto
  note p = process_payloads_prefix [OF assms(1) all(1)]
  have "prefix (delivered k sent)
      (filter (\<lambda>r. target_of m r = k) (concat (map (payload_records cd m) queue)))" for k
    using delivered_prefix [of sent sent1 k] p all(2) by simp
  moreover have "out = Inr ()" if "\<forall>i k rs. send i k rs = Inr ()"
    using process_payloads_delivers [OF that assms(2), of cd m i ms] assms(1) by auto
  ultimately show ?thesis using p all(2-4) by auto
qed

text \<open>A spot connection that received one trade; the exchange's JSON is read by a codec that knows it.\<close>

definition trade_codec :: codec where
  "trade_codec =
     \<lparr>from_envelope = (\<lambda>_. None), from_event = (\<lambda>_. Some (empty_event\<lparr>ev_e := Some [CHR 0x22, CHR ''t'',
        CHR ''r'', CHR ''a'', CHR ''d'', CHR ''e'', CHR 0x22]\<rparr>)),
      from_event_list = (\<lambda>_. None), timestamp_millis_opt = (\<lambda>_. None)\<rparr>"

definition trade_payload :: payload where
  "trade_payload = \<lparr>pl_bytes = combined_message ''s'' ''{}'', pl_received = 1000, pl_shard = 0\<rparr>"

definition trade_record :: data_record where
  "trade_record = mk_record ''trades''
     [TimestampMicros 1, TimestampMicros 1, Text [], U64 0, spot_decimal None, spot_decimal None,
      TimestampMicros 1, Boolean False, Boolean True, StaticText ''binance_spot_websocket'']"

lemma trade_records: "payload_records trade_codec Spot trade_payload = [trade_record]"
  by code_simp

theorem batching_is_invisible_witness:
  "\<exists>ms' sent. process_payloads trade_codec (\<lambda>_ _ _. Inr ()) Spot 0 [2, 0, 1]
      [trade_payload, trade_payload\<lparr>pl_bytes := ''x''\<rparr>, trade_payload] default_metrics = (ms', sent, Inr ())
    \<and> delivered Spot sent = [trade_record, trade_record] \<and> parsed_records ms' = 2 \<and> parse_errors ms' = 1"
proof -
  let ?q = "[trade_payload, trade_payload\<lparr>pl_bytes := ''x''\<rparr>, trade_payload]"
  have bad: "payload_records trade_codec Spot (trade_payload\<lparr>pl_bytes := ''x''\<rparr>) = []"
      "payload_fails trade_codec Spot (trade_payload\<lparr>pl_bytes := ''x''\<rparr>)"
      "\<not> payload_fails trade_codec Spot trade_payload"
    by code_simp+
  have target: "target_of Spot trade_record = Spot"
    by (simp add: target_of_def trade_record_def mk_record_def)
  obtain ms' sent out where run: "process_payloads trade_codec (\<lambda>_ _ _. Inr ()) Spot 0 [2, 0, 1] ?q default_metrics
      = (ms', sent, out)"
    using prod_cases3 by blast
  have len: "length ?q \<le> length [2 :: nat, 0, 1]" by simp
  note b = batching_is_invisible [OF run len]
  then have ok: "out = Inr ()" by simp
  have "parsed_records default_metrics = 0" "parse_errors default_metrics = 0" by (simp_all add: default_metrics_def)
  then have "delivered Spot sent = [trade_record, trade_record] \<and> parsed_records ms' = 2 \<and> parse_errors ms' = 1"
    using b ok by (simp add: trade_records bad target)
  with run ok show ?thesis by blast
qed

subsection \<open>The counters of a connection\<close>

text \<open>A connection's messages, each with the clock readings when it is recorded.\<close>

fun rm_records :: "(int \<times> datetime) list \<Rightarrow> metrics \<times> received_metrics \<Rightarrow> metrics \<times> received_metrics" where
  "rm_records [] mr = mr"
| "rm_records ((now, received) # rs) mr = rm_records rs (rm_record now received mr)"

definition counted_messages :: "metrics \<times> received_metrics \<Rightarrow> u64" where
  "counted_messages mr = received_messages (fst mr) + rm_pending (snd mr)"

definition latest_message :: "metrics \<times> received_metrics \<Rightarrow> u64" where
  "latest_message mr = max (last_message_unix_ms (fst mr)) (rm_latest (snd mr))"

definition rm_ok :: "received_metrics \<Rightarrow> bool" where
  "rm_ok rm \<longleftrightarrow> rm_pending rm < metrics_flush_messages \<and> (rm_pending rm = 0 \<longrightarrow> rm_latest rm = 0)"

lemma max_word_0 [simp]: "max x (0 :: u64) = x"
  by (simp add: max_def)

lemma rm_flush_keeps:
  "counted_messages (rm_flush now mr) = counted_messages mr"
  "rm_pending (snd mr) = 0 \<longrightarrow> rm_latest (snd mr) = 0 \<Longrightarrow> latest_message (rm_flush now mr) = latest_message mr"
  "rm_ok (snd mr) \<or> rm_pending (snd mr) \<noteq> 0 \<Longrightarrow> rm_ok (snd (rm_flush now mr))"
  "rm_pending (snd (rm_flush now mr)) = 0"
  by (auto simp: rm_flush_def counted_messages_def latest_message_def rm_ok_def
      metrics_flush_messages_def split: prod.splits)

lemma rm_pending_step: "n < 256 \<Longrightarrow> n + 1 \<noteq> (0 :: u64)"
proof
  assume "n < 256" and "n + 1 = 0"
  then have "n = - 1" by (simp add: eq_neg_iff_add_eq_0)
  with \<open>n < 256\<close> show False by simp
qed

lemma rm_record_keeps:
  assumes "rm_ok (snd mr)"
  shows "counted_messages (rm_record now received mr) = counted_messages mr + 1"
    and "latest_message (rm_record now received mr) = max (latest_message mr) (unix_millis received)"
    and "rm_ok (snd (rm_record now received mr))"
proof -
  obtain m rm where mr: "mr = (m, rm)" by fastforce
  let ?rm = "rm\<lparr>rm_pending := rm_pending rm + 1, rm_latest := max (rm_latest rm) (unix_millis received)\<rparr>"
  have some: "rm_pending ?rm \<noteq> 0"
    using assms rm_pending_step [of "rm_pending rm"] by (simp add: rm_ok_def mr metrics_flush_messages_def)
  have counts: "counted_messages (m, ?rm) = counted_messages mr + 1"
      "latest_message (m, ?rm) = max (latest_message mr) (unix_millis received)"
    by (simp_all add: counted_messages_def latest_message_def mr max.assoc)
  have ok: "rm_ok ?rm" if "\<not> rm_pending ?rm \<ge> metrics_flush_messages"
    using that some by (simp add: rm_ok_def)
  note f = rm_flush_keeps [where now = now and mr = "(m, ?rm)"]
  show "counted_messages (rm_record now received mr) = counted_messages mr + 1"
    using counts f(1) by (simp add: rm_record_def mr Let_def)
  show "latest_message (rm_record now received mr) = max (latest_message mr) (unix_millis received)"
    using counts f(2) some by (simp add: rm_record_def mr Let_def)
  show "rm_ok (snd (rm_record now received mr))"
    using f(3) some ok by (auto simp: rm_record_def mr Let_def)
qed

lemma rm_records_keep:
  assumes "rm_ok (snd mr)"
  shows "counted_messages (rm_records rs mr) = counted_messages mr + of_nat (length rs)
    \<and> latest_message (rm_records rs mr) = fold (\<lambda>(_, t) a. max a (unix_millis t)) rs (latest_message mr)
    \<and> rm_ok (snd (rm_records rs mr))"
  using assms
proof (induction rs arbitrary: mr)
  case (Cons p rs)
  obtain now t where p: "p = (now, t)" by fastforce
  note r = rm_record_keeps [OF Cons.prems, of now t]
  from Cons.IH [OF r(3)] show ?case by (simp add: p r ac_simps)
qed simp

text \<open>
  The metrics of a connection are exact once it ends: however the additions were delayed and
  grouped, the number of received messages has grown by the number of messages, and the time of
  the last message is the latest of the old value and the times of receipt; it never moves back.
\<close>

lemma received_metrics_exact:
  "received_messages (fst (rm_flush dropped (rm_records rs (m, rm_new opened)))) =
     received_messages m + of_nat (length rs)
   \<and> last_message_unix_ms (fst (rm_flush dropped (rm_records rs (m, rm_new opened)))) =
     fold (\<lambda>(_, t) a. max a (unix_millis t)) rs (last_message_unix_ms m)"
proof -
  have new: "rm_ok (snd (m, rm_new opened))"
    by (simp add: rm_ok_def rm_new_def metrics_flush_messages_def)
  let ?mr = "rm_records rs (m, rm_new opened)"
  note r = rm_records_keep [OF new, of rs]
  have zero: "rm_pending (snd (rm_flush dropped ?mr)) = 0" "rm_latest (snd (rm_flush dropped ?mr)) = 0"
    using rm_flush_keeps(3,4) [where now = dropped and mr = ?mr] r by (auto simp: rm_ok_def)
  have "counted_messages (rm_flush dropped ?mr) = counted_messages ?mr"
      "latest_message (rm_flush dropped ?mr) = latest_message ?mr"
    using rm_flush_keeps(1,2) [where now = dropped and mr = ?mr] r by (auto simp: rm_ok_def)
  then show ?thesis
    using r zero by (simp add: counted_messages_def latest_message_def rm_new_def)
qed

subsection \<open>Reconnecting\<close>

lemma shard_round_delay:
  assumes "1 \<le> sh_delay sh" and "sh_delay sh \<le> 30" and "shard_round elapsed (sh, m) = (d, sh', m')"
  shows "1 \<le> d \<and> d \<le> 30 \<and> 1 \<le> sh_delay sh' \<and> sh_delay sh' \<le> 30 \<and> sh_connected_once sh'"
  using assms by (auto simp: shard_round_def Let_def split: if_splits)

end
