(* ===== verification/Writer.thy ===== *)
theory Writer
  imports Data_Model "HOL-Library.AList"
begin

section \<open>The buffering worker of one market\<close>

text \<open>
  The sequential half of \<open>src/writer.rs\<close>: the state of a market's worker thread, the flush
  operations, and the handling of one command. The threads and channels around it are in
  Writer\_System. The hash map of tables is an association list with distinct keys, whose
  iteration order is an argument (\<open>order\<close>) of every operation that iterates. The clock
  readings of a command are arguments too. \<open>alive\<close> says whether the encoder still holds its
  end of the channel: \<open>send\<close> fails otherwise.
\<close>

subsection \<open>State\<close>

record buffered_table =
  bt_records :: "data_record list"
  bt_bytes :: nat
  bt_first_seen :: int

record worker_state =
  ws_market :: market
  ws_hour :: datetime
  ws_sequence :: u64
  ws_tables :: "(string \<times> buffered_table) list"
  ws_buffered :: nat

record encode_job =
  job_market :: market
  job_hour :: datetime
  job_sequence :: u64
  job_table :: string
  job_records :: "data_record list"
  job_bytes :: nat

record worker_options =
  opt_buffer_bytes :: nat
  opt_segment_bytes :: nat
  opt_flush_interval :: int

type_synonym table_order = "(string \<times> buffered_table) list \<Rightarrow> (string \<times> buffered_table) list"
type_synonym flush_result = "worker_state \<times> encode_job list \<times> unit result"

text \<open>chrono's setters, as \<open>floor_hour\<close> uses them.\<close>

record timelike =
  with_minute :: "datetime \<Rightarrow> nat \<Rightarrow> datetime option"
  with_second :: "datetime \<Rightarrow> nat \<Rightarrow> datetime option"
  with_nanosecond :: "datetime \<Rightarrow> nat \<Rightarrow> datetime option"

definition floor_hour :: "timelike \<Rightarrow> datetime \<Rightarrow> datetime result" where
  "floor_hour tm v =
     with_context
       (Option.bind (with_minute tm v 0)
          (\<lambda>v. Option.bind (with_second tm v 0) (\<lambda>v. with_nanosecond tm v 0)))
       ''invalid UTC hour''"

subsection \<open>Flushing\<close>

definition flush_table :: "bool \<Rightarrow> string \<Rightarrow> worker_state \<Rightarrow> flush_result" where
  "flush_table alive table st =
     (case map_of (ws_tables st) table of
        None \<Rightarrow> (st, [], Inr ())
      | Some buffer \<Rightarrow>
          (let st = st\<lparr>ws_tables := AList.delete table (ws_tables st)\<rparr> in
           if bt_records buffer = [] then (st, [], Inr ())
           else
             (let st = st\<lparr>ws_sequence := ws_sequence st + 1\<rparr> in
              if \<not> alive then (st, [], Inl ''Parquet encoder stopped'')
              else
                (st\<lparr>ws_buffered := saturating_sub (ws_buffered st) (bt_bytes buffer)\<rparr>,
                 [\<lparr>job_market = ws_market st, job_hour = ws_hour st,
                   job_sequence = ws_sequence st, job_table = table,
                   job_records = bt_records buffer, job_bytes = bt_bytes buffer\<rparr>],
                 Inr ()))))"

fun flush_tables :: "bool \<Rightarrow> string list \<Rightarrow> worker_state \<Rightarrow> flush_result" where
  "flush_tables alive [] st = (st, [], Inr ())"
| "flush_tables alive (t # ts) st =
     (case flush_table alive t st of
        (st', jobs, Inl e) \<Rightarrow> (st', jobs, Inl e)
      | (st', jobs, Inr _) \<Rightarrow>
          (case flush_tables alive ts st' of (st'', jobs', out) \<Rightarrow> (st'', jobs @ jobs', out)))"

definition flush_all :: "table_order \<Rightarrow> bool \<Rightarrow> worker_state \<Rightarrow> flush_result" where
  "flush_all order alive st = flush_tables alive (map fst (order (ws_tables st))) st"

text \<open>\<open>clock\<close> gives the reading of the monotonic clock when a table is examined.\<close>

definition flush_expired ::
  "table_order \<Rightarrow> bool \<Rightarrow> (string \<Rightarrow> int) \<Rightarrow> int \<Rightarrow> worker_state \<Rightarrow> flush_result" where
  "flush_expired order alive clock interval st =
     flush_tables alive
       (map fst (filter (\<lambda>(t, b). clock t - bt_first_seen b \<ge> interval) (order (ws_tables st)))) st"

text \<open>\<open>max_by_key\<close>: the last of the largest.\<close>

fun max_by_bytes :: "(string \<times> buffered_table) list \<Rightarrow> (string \<times> buffered_table) option" where
  "max_by_bytes [] = None"
| "max_by_bytes (p # ps) =
     (case max_by_bytes ps of
        None \<Rightarrow> Some p
      | Some q \<Rightarrow> if bt_bytes (snd p) \<le> bt_bytes (snd q) then Some q else Some p)"

definition flush_largest :: "table_order \<Rightarrow> bool \<Rightarrow> worker_state \<Rightarrow> flush_result" where
  "flush_largest order alive st =
     (case max_by_bytes (order (ws_tables st)) of
        Some (table, _) \<Rightarrow> flush_table alive table st
      | None \<Rightarrow> (st, [], Inr ()))"

definition flush_full :: "table_order \<Rightarrow> bool \<Rightarrow> nat \<Rightarrow> worker_state \<Rightarrow> flush_result" where
  "flush_full order alive segment_bytes st =
     flush_tables alive
       (map fst (filter (\<lambda>(t, b). bt_bytes b \<ge> segment_bytes) (order (ws_tables st)))) st"

text \<open>
  \<open>while state.buffered_bytes >= options.buffer_bytes\<close>: \<open>None\<close> means that the loop does not
  end. \<open>acc\<close> holds the jobs sent so far.
\<close>

partial_function (option) drain ::
  "table_order \<Rightarrow> bool \<Rightarrow> nat \<Rightarrow> worker_state \<Rightarrow> encode_job list \<Rightarrow> flush_result option" where
  "drain order alive buffer_bytes st acc =
     (if ws_buffered st \<ge> buffer_bytes
      then (case flush_largest order alive st of (st', jobs, out) \<Rightarrow>
              (case out of
                 Inl e \<Rightarrow> Some (st', acc @ jobs, Inl e)
               | Inr _ \<Rightarrow> drain order alive buffer_bytes st' (acc @ jobs)))
      else Some (st, acc, Inr ()))"

declare drain.simps [code]

subsection \<open>Buffering records\<close>

definition record_bytes :: "layout \<Rightarrow> data_record \<Rightarrow> nat" where
  "record_bytes l r = sum_list (map (estimated_bytes l) (rec_values r)) + size_of_record l"

definition buffer_record :: "layout \<Rightarrow> int \<Rightarrow> data_record \<Rightarrow> worker_state \<Rightarrow> worker_state" where
  "buffer_record l now r st =
     (let bytes = record_bytes l r;
          table = (case map_of (ws_tables st) (rec_table r) of
                     Some b \<Rightarrow> b
                   | None \<Rightarrow> \<lparr>bt_records = [], bt_bytes = 0, bt_first_seen = now\<rparr>)
      in st\<lparr>ws_buffered := saturating_add (ws_buffered st) bytes,
            ws_tables := AList.update (rec_table r)
              (table\<lparr>bt_bytes := saturating_add (bt_bytes table) bytes,
                     bt_records := bt_records table @ [r]\<rparr>) (ws_tables st)\<rparr>)"

text \<open>\<open>seen i\<close> is the clock when the \<open>i\<close>-th record of the command is buffered.\<close>

fun buffer_records ::
  "layout \<Rightarrow> (nat \<Rightarrow> int) \<Rightarrow> nat \<Rightarrow> data_record list \<Rightarrow> worker_state \<Rightarrow> worker_state" where
  "buffer_records l seen i [] st = st"
| "buffer_records l seen i (r # rs) st =
     buffer_records l seen (Suc i) rs (buffer_record l (seen i) r st)"

definition batch_bytes :: "layout \<Rightarrow> data_record list \<Rightarrow> nat" where
  "batch_bytes l rs = sum_list (map (record_bytes l) rs)"

text \<open>The \<open>Command::Records\<close> arm: buffer, flush the full tables, then drain.\<close>

definition handle_records ::
  "worker_options \<Rightarrow> layout \<Rightarrow> table_order \<Rightarrow> bool \<Rightarrow> (nat \<Rightarrow> int) \<Rightarrow> data_record list \<Rightarrow>
   worker_state \<Rightarrow> flush_result option" where
  "handle_records opts l order alive seen rs st =
     (case flush_full order alive (opt_segment_bytes opts) (buffer_records l seen 0 rs st) of
        (st', jobs, Inl e) \<Rightarrow> Some (st', jobs, Inl e)
      | (st', jobs, Inr _) \<Rightarrow> drain order alive (opt_buffer_bytes opts) st' jobs)"

text \<open>The start of every round of the loop: a new hour flushes everything.\<close>

definition roll_hour ::
  "timelike \<Rightarrow> table_order \<Rightarrow> bool \<Rightarrow> datetime \<Rightarrow> worker_state \<Rightarrow> flush_result" where
  "roll_hour tm order alive now st =
     (case floor_hour tm now of
        Inl e \<Rightarrow> (st, [], Inl e)
      | Inr current_hour \<Rightarrow>
          if current_hour > ws_hour st
          then (case flush_all order alive st of
                  (st', jobs, Inl e) \<Rightarrow> (st', jobs, Inl e)
                | (st', jobs, Inr _) \<Rightarrow> (st'\<lparr>ws_hour := current_hour\<rparr>, jobs, Inr ()))
          else (st, [], Inr ()))"

definition initial_worker ::
  "timelike \<Rightarrow> market \<Rightarrow> datetime \<Rightarrow> datetime \<Rightarrow> worker_state result" where
  "initial_worker tm market now now' =
     result_bind (floor_hour tm now) (\<lambda>h.
       Inr \<lparr>ws_market = market, ws_hour = h,
            ws_sequence = (if 0 \<le> timestamp_micros now' then of_int (timestamp_micros now') else 0),
            ws_tables = [], ws_buffered = 0\<rparr>)"

subsection \<open>What is in the buffers\<close>

definition buffered_records :: "(string \<times> buffered_table) list \<Rightarrow> data_record multiset" where
  "buffered_records al = mset (concat (map (\<lambda>(t, b). bt_records b) al))"

definition buffered_sum :: "(string \<times> buffered_table) list \<Rightarrow> nat" where
  "buffered_sum al = sum_list (map (\<lambda>(t, b). bt_bytes b) al)"

definition jobs_records :: "encode_job list \<Rightarrow> data_record multiset" where
  "jobs_records jobs = mset (concat (map job_records jobs))"

definition jobs_bytes :: "encode_job list \<Rightarrow> nat" where
  "jobs_bytes jobs = sum_list (map job_bytes jobs)"

definition table_ok :: "layout \<Rightarrow> string \<Rightarrow> buffered_table \<Rightarrow> bool" where
  "table_ok l t b \<longleftrightarrow> bt_records b \<noteq> [] \<and> bt_bytes b = batch_bytes l (bt_records b)
     \<and> list_all (\<lambda>r. rec_table r = t) (bt_records b)"

definition worker_ok :: "layout \<Rightarrow> worker_state \<Rightarrow> bool" where
  "worker_ok l st \<longleftrightarrow> distinct (map fst (ws_tables st))
     \<and> list_all (\<lambda>(t, b). table_ok l t b) (ws_tables st)
     \<and> ws_buffered st = buffered_sum (ws_tables st)"

lemma jobs_append [simp]:
  "jobs_records (xs @ ys) = jobs_records xs + jobs_records ys"
  "jobs_bytes (xs @ ys) = jobs_bytes xs + jobs_bytes ys"
  by (simp_all add: jobs_records_def jobs_bytes_def)

lemma jobs_Nil [simp]: "jobs_records [] = {#}" "jobs_bytes [] = 0"
  by (simp_all add: jobs_records_def jobs_bytes_def)

lemma delete_buffered:
  assumes "distinct (map fst al)" and "map_of al t = Some b"
  shows "buffered_records al = buffered_records (AList.delete t al) + mset (bt_records b)"
    and "buffered_sum al = buffered_sum (AList.delete t al) + bt_bytes b"
    and "length al = Suc (length (AList.delete t al))"
  using assms
proof (induction al)
  case (Cons p al)
  obtain s c where p: "p = (s, c)" by fastforce
  { case 1 show ?case
    proof (cases "s = t")
      case True
      with 1 p have "AList.delete t al = al" by (auto simp: delete_id)
      with True 1 p show ?thesis by (simp add: buffered_records_def)
    next
      case False
      with 1 Cons.IH p show ?thesis by (simp add: buffered_records_def)
    qed }
  { case 2 show ?case
    proof (cases "s = t")
      case True
      with 2 p have "AList.delete t al = al" by (auto simp: delete_id)
      with True 2 p show ?thesis by (simp add: buffered_sum_def)
    next
      case False
      with 2 Cons.IH p show ?thesis by (simp add: buffered_sum_def)
    qed }
  { case 3 show ?case
    proof (cases "s = t")
      case True
      with 3 p have "AList.delete t al = al" by (auto simp: delete_id)
      with True 3 p show ?thesis by simp
    next
      case False
      with 3 Cons.IH p show ?thesis by simp
    qed }
qed auto

subsection \<open>The contract of a flush\<close>

text \<open>
  What a flush that succeeds does, whatever it selects: the records that leave the buffers are
  exactly those in the jobs, the byte count drops by the jobs' bytes, the jobs carry the
  worker's market and hour and the next sequence numbers, and no buffer is touched otherwise.
\<close>

definition job_ok :: "layout \<Rightarrow> encode_job \<Rightarrow> bool" where
  "job_ok l j \<longleftrightarrow> job_records j \<noteq> [] \<and> job_bytes j = batch_bytes l (job_records j)
     \<and> list_all (\<lambda>r. rec_table r = job_table j) (job_records j)"

definition jobs_of :: "layout \<Rightarrow> worker_state \<Rightarrow> encode_job list \<Rightarrow> bool" where
  "jobs_of l st jobs \<longleftrightarrow>
     list_all (\<lambda>j. job_market j = ws_market st \<and> job_hour j = ws_hour st \<and> job_ok l j) jobs
     \<and> map job_sequence jobs = map (\<lambda>i. ws_sequence st + of_nat (Suc i)) [0..<length jobs]"

definition flushed :: "layout \<Rightarrow> worker_state \<Rightarrow> worker_state \<Rightarrow> encode_job list \<Rightarrow> bool" where
  "flushed l st st' jobs \<longleftrightarrow>
     ws_market st' = ws_market st \<and> ws_hour st' = ws_hour st
     \<and> ws_sequence st' = ws_sequence st + of_nat (length jobs)
     \<and> buffered_records (ws_tables st) = buffered_records (ws_tables st') + jobs_records jobs
     \<and> ws_buffered st = ws_buffered st' + jobs_bytes jobs
     \<and> jobs_of l st jobs
     \<and> set (ws_tables st') \<subseteq> set (ws_tables st)"

lemma flushed_refl: "flushed l st st []"
  by (simp add: flushed_def jobs_of_def)

lemma sequence_append:
  "map (\<lambda>i. s + of_nat (Suc i)) [0..<m + n] =
   map (\<lambda>i. s + of_nat (Suc i)) [0..<m] @
   map (\<lambda>i. (s + of_nat m) + of_nat (Suc i)) [0..<n]" for s :: u64
proof (induction n)
  case (Suc n)
  have "[0..<m + Suc n] = [0..<m + n] @ [m + n]" and "[0..<Suc n] = [0..<n] @ [n]" by simp_all
  moreover have "s + of_nat (Suc (m + n)) = (s + of_nat m) + of_nat (Suc n)" by simp
  ultimately show ?case using Suc by (simp only: map_append append_assoc list.map)
qed simp

lemma flushed_jobs_append:
  assumes "jobs_of l st jobs" and "jobs_of l st' jobs'"
    and "ws_market st' = ws_market st" and "ws_hour st' = ws_hour st"
    and "ws_sequence st' = ws_sequence st + of_nat (length jobs)"
  shows "jobs_of l st (jobs @ jobs')"
proof -
  have "map (\<lambda>i. ws_sequence st + of_nat (Suc i)) [0..<length (jobs @ jobs')] =
      map (\<lambda>i. ws_sequence st + of_nat (Suc i)) [0..<length jobs] @
      map (\<lambda>i. ws_sequence st' + of_nat (Suc i)) [0..<length jobs']"
    unfolding assms(5) length_append by (rule sequence_append)
  moreover have "map job_sequence jobs = map (\<lambda>i. ws_sequence st + of_nat (Suc i)) [0..<length jobs]"
      and "map job_sequence jobs' =
        map (\<lambda>i. ws_sequence st' + of_nat (Suc i)) [0..<length jobs']"
    using assms(1,2) unfolding jobs_of_def by blast+
  ultimately have "map job_sequence (jobs @ jobs') =
      map (\<lambda>i. ws_sequence st + of_nat (Suc i)) [0..<length (jobs @ jobs')]"
    by (simp only: map_append)
  moreover have "list_all (\<lambda>j. job_market j = ws_market st \<and> job_hour j = ws_hour st \<and> job_ok l j)
      (jobs @ jobs')"
    using assms by (simp add: jobs_of_def)
  ultimately show ?thesis unfolding jobs_of_def by blast
qed

lemma flushed_trans:
  assumes "flushed l st st' jobs" and "flushed l st' st'' jobs'"
  shows "flushed l st st'' (jobs @ jobs')"
proof -
  have "jobs_of l st (jobs @ jobs')"
    using assms flushed_jobs_append [of l st jobs st' jobs'] unfolding flushed_def by simp
  moreover have "buffered_records (ws_tables st) =
      buffered_records (ws_tables st'') + jobs_records (jobs @ jobs')"
    using assms by (simp add: flushed_def ac_simps)
  moreover have "set (ws_tables st'') \<subseteq> set (ws_tables st)"
    using assms by (simp add: flushed_def) blast
  ultimately show ?thesis using assms by (simp add: flushed_def)
qed

lemma flushed_length:
  "flushed l st st' jobs \<Longrightarrow> jobs_bytes jobs \<le> ws_buffered st"
  by (simp add: flushed_def)

locale flush_operation =
  fixes l :: layout and flush :: "worker_state \<Rightarrow> flush_result"
  assumes succeeds: "worker_ok l st \<Longrightarrow> \<exists>st' jobs. flush st = (st', jobs, Inr ())"
    and contract: "worker_ok l st \<Longrightarrow> flush st = (st', jobs, out) \<Longrightarrow>
      worker_ok l st' \<and> flushed l st st' jobs"
begin

lemma keeps_ok: "worker_ok l st \<Longrightarrow> flush st = (st', jobs, out) \<Longrightarrow> worker_ok l st'"
  using contract by blast

lemma never_fails: "worker_ok l st \<Longrightarrow> flush st = (st', jobs, out) \<Longrightarrow> out = Inr ()"
  using succeeds by fastforce

lemma no_record_lost:
  "worker_ok l st \<Longrightarrow> flush st = (st', jobs, out) \<Longrightarrow>
   buffered_records (ws_tables st) = buffered_records (ws_tables st') + jobs_records jobs"
  using contract [of st st' jobs out] unfolding flushed_def by simp

lemma numbers_jobs:
  "worker_ok l st \<Longrightarrow> flush st = (st', jobs, out) \<Longrightarrow>
   map job_sequence jobs = map (\<lambda>i. ws_sequence st + of_nat (Suc i)) [0..<length jobs]"
  using contract [of st st' jobs out] unfolding flushed_def jobs_of_def by simp

end

subsection \<open>Every flush of the writer satisfies it\<close>

lemma in_set_delete: "p \<in> set (AList.delete k al) \<Longrightarrow> p \<in> set al"
  by (simp add: AList.delete_eq)

lemma worker_ok_delete:
  assumes "worker_ok l st" and "map_of (ws_tables st) t = Some b"
  shows "worker_ok l (st\<lparr>ws_tables := AList.delete t (ws_tables st),
      ws_sequence := s, ws_buffered := ws_buffered st - bt_bytes b\<rparr>)"
  using assms delete_buffered(2) [of "ws_tables st" t b]
  by (auto simp: worker_ok_def distinct_delete list_all_iff dest: in_set_delete)

lemma worker_ok_table:
  "worker_ok l st \<Longrightarrow> map_of (ws_tables st) t = Some b \<Longrightarrow> table_ok l t b"
  by (auto simp: worker_ok_def list_all_iff dest: map_of_SomeD)

lemma flush_table_contract:
  assumes "worker_ok l st" and "flush_table True t st = (st', jobs, out)"
  shows "out = Inr () \<and> worker_ok l st' \<and> flushed l st st' jobs \<and> map_of (ws_tables st') t = None"
proof (cases "map_of (ws_tables st) t")
  case None
  with assms show ?thesis by (auto simp: flush_table_def flushed_refl)
next
  case (Some b)
  have tab: "table_ok l t b" using assms(1) Some by (rule worker_ok_table)
  then have ne: "bt_records b \<noteq> []" by (simp add: table_ok_def)
  have d: "distinct (map fst (ws_tables st))" using assms(1) by (simp add: worker_ok_def)
  note del = delete_buffered [OF d Some]
  let ?job = "\<lparr>job_market = ws_market st, job_hour = ws_hour st,
    job_sequence = ws_sequence st + 1, job_table = t, job_records = bt_records b,
    job_bytes = bt_bytes b\<rparr>"
  have st': "st' = st\<lparr>ws_tables := AList.delete t (ws_tables st),
      ws_sequence := ws_sequence st + 1, ws_buffered := ws_buffered st - bt_bytes b\<rparr>"
    and jobs: "jobs = [?job]" and out: "out = Inr ()"
    using assms(2) Some ne by (auto simp: flush_table_def saturating_sub_def)
  have "bt_bytes b \<le> ws_buffered st"
    using assms(1) del(2) by (simp add: worker_ok_def)
  moreover have "job_ok l ?job" using tab by (simp add: job_ok_def table_ok_def)
  ultimately have "flushed l st st' jobs"
    using del(1) by (auto simp: flushed_def st' jobs jobs_of_def jobs_records_def jobs_bytes_def
        AList.delete_eq)
  moreover have "worker_ok l st'"
    unfolding st' using assms(1) Some by (rule worker_ok_delete)
  ultimately show ?thesis by (simp add: out st' delete_conv')
qed

lemma flushed_none: "flushed l st st' jobs \<Longrightarrow> distinct (map fst (ws_tables st)) \<Longrightarrow>
    map_of (ws_tables st) t = None \<Longrightarrow> map_of (ws_tables st') t = None"
  by (auto simp: flushed_def map_of_eq_None_iff)

lemma flush_tables_contract:
  assumes "worker_ok l st" and "flush_tables True ts st = (st', jobs, out)"
  shows "out = Inr () \<and> worker_ok l st' \<and> flushed l st st' jobs
    \<and> (\<forall>t \<in> set ts. map_of (ws_tables st') t = None)"
  using assms
proof (induction ts arbitrary: st st' jobs out)
  case Nil
  then show ?case by (auto simp: flushed_refl)
next
  case (Cons t ts)
  obtain s1 j1 o1 where f1: "flush_table True t st = (s1, j1, o1)" by (cases "flush_table True t st")
  note c1 = flush_table_contract [OF Cons.prems(1) f1]
  obtain s2 j2 o2 where f2: "flush_tables True ts s1 = (s2, j2, o2)"
    by (cases "flush_tables True ts s1")
  have ok1: "worker_ok l s1" using c1 by simp
  note c2 = Cons.IH [OF ok1 f2]
  have eq: "st' = s2" "jobs = j1 @ j2" "out = o2"
    using Cons.prems(2) f1 f2 c1 by auto
  have "map_of (ws_tables s2) t = None"
    using flushed_none [of l s1 s2 j2 t] c1 c2 by (simp add: worker_ok_def)
  moreover have "flushed l st s2 (j1 @ j2)" using c1 c2 by (blast intro: flushed_trans)
  ultimately show ?case unfolding eq using c2 by simp
qed

lemma flush_largest_contract:
  assumes "worker_ok l st" and "flush_largest order True st = (st', jobs, out)"
  shows "out = Inr () \<and> worker_ok l st' \<and> flushed l st st' jobs"
  using assms flush_table_contract [OF assms(1)]
  by (auto simp: flush_largest_def flushed_refl split: option.splits prod.splits)

interpretation one_table: flush_operation l "flush_table True t" for l t
  by unfold_locales (metis flush_table_contract prod_cases3, metis flush_table_contract)

interpretation listed_tables: flush_operation l "flush_tables True ts" for l ts
  by unfold_locales (metis flush_tables_contract prod_cases3, metis flush_tables_contract)

interpretation all_tables: flush_operation l "flush_all order True" for l order
  unfolding flush_all_def
  by unfold_locales (metis flush_tables_contract prod_cases3, metis flush_tables_contract)

interpretation expired_tables: flush_operation l "flush_expired order True clock interval"
  for l order clock interval
  unfolding flush_expired_def
  by unfold_locales (metis flush_tables_contract prod_cases3, metis flush_tables_contract)

interpretation full_tables: flush_operation l "flush_full order True n" for l order n
  unfolding flush_full_def
  by unfold_locales (metis flush_tables_contract prod_cases3, metis flush_tables_contract)

interpretation largest_table: flush_operation l "flush_largest order True" for l order
  by unfold_locales (metis flush_largest_contract prod_cases3, metis flush_largest_contract)

subsection \<open>Buffering keeps the invariant\<close>

lemma update_buffered_new:
  assumes "map_of al t = None"
  shows "buffered_records (AList.update t b al) = buffered_records al + mset (bt_records b)"
    and "buffered_sum (AList.update t b al) = buffered_sum al + bt_bytes b"
  using assms by (induction al)
    (auto simp: buffered_records_def buffered_sum_def split: if_splits)

lemma update_buffered_old:
  assumes "map_of al t = Some a"
  shows "buffered_records (AList.update t b al) + mset (bt_records a) =
      buffered_records al + mset (bt_records b)"
    and "buffered_sum (AList.update t b al) + bt_bytes a = buffered_sum al + bt_bytes b"
  using assms by (induction al)
    (auto simp: buffered_records_def buffered_sum_def split: if_splits)

lemma update_tables_ok:
  assumes "list_all (\<lambda>(t, b). table_ok l t b) al" and "table_ok l t b"
  shows "list_all (\<lambda>(t, b). table_ok l t b) (AList.update t b al)"
  using assms by (induction al) auto

lemma buffered_sum_table: "map_of al t = Some b \<Longrightarrow> bt_bytes b \<le> buffered_sum al"
  by (induction al) (auto simp: buffered_sum_def split: if_splits)

lemma buffer_record_frame [simp]:
  "ws_market (buffer_record l now r st) = ws_market st"
  "ws_hour (buffer_record l now r st) = ws_hour st"
  "ws_sequence (buffer_record l now r st) = ws_sequence st"
  by (simp_all add: buffer_record_def Let_def)

lemma buffer_record_ok:
  assumes ok: "worker_ok l st" and fits: "ws_buffered st + record_bytes l r \<le> usize_max"
  shows "worker_ok l (buffer_record l now r st)"
    and "buffered_records (ws_tables (buffer_record l now r st)) =
      buffered_records (ws_tables st) + {#r#}"
    and "ws_buffered (buffer_record l now r st) = ws_buffered st + record_bytes l r"
proof -
  let ?n = "record_bytes l r" and ?t = "rec_table r" and ?st = "buffer_record l now r st"
  show sum: "ws_buffered ?st = ws_buffered st + ?n"
    using fits by (simp add: buffer_record_def Let_def saturating_add_def)
  have inv: "ws_buffered st = buffered_sum (ws_tables st)"
      "list_all (\<lambda>(t, b). table_ok l t b) (ws_tables st)" "distinct (map fst (ws_tables st))"
    using ok by (auto simp: worker_ok_def)
  have "worker_ok l ?st \<and> buffered_records (ws_tables ?st) = buffered_records (ws_tables st) + {#r#}"
  proof (cases "map_of (ws_tables st) ?t")
    case None
    let ?b = "\<lparr>bt_records = [r], bt_bytes = ?n, bt_first_seen = now\<rparr>"
    have st: "ws_tables ?st = AList.update ?t ?b (ws_tables st)"
      using None fits by (simp add: buffer_record_def Let_def saturating_add_def)
    have "table_ok l ?t ?b" by (simp add: table_ok_def batch_bytes_def)
    with inv None sum show ?thesis
      by (simp add: worker_ok_def st update_buffered_new distinct_update update_tables_ok)
  next
    case (Some a)
    have le: "bt_bytes a \<le> ws_buffered st" using Some inv by (simp add: buffered_sum_table)
    let ?b = "a\<lparr>bt_bytes := bt_bytes a + ?n, bt_records := bt_records a @ [r]\<rparr>"
    have st: "ws_tables ?st = AList.update ?t ?b (ws_tables st)"
      using Some fits le by (simp add: buffer_record_def Let_def saturating_add_def)
    have "table_ok l ?t a" using ok Some by (rule worker_ok_table)
    then have "table_ok l ?t ?b" by (simp add: table_ok_def batch_bytes_def)
    with inv Some sum update_buffered_old [OF Some, of ?b] show ?thesis
      by (simp add: worker_ok_def st distinct_update update_tables_ok)
  qed
  then show "worker_ok l ?st"
    and "buffered_records (ws_tables ?st) = buffered_records (ws_tables st) + {#r#}"
    by simp_all
qed

lemma buffer_records_ok:
  assumes "worker_ok l st" and "ws_buffered st + batch_bytes l rs \<le> usize_max"
  shows "worker_ok l (buffer_records l seen i rs st)
    \<and> buffered_records (ws_tables (buffer_records l seen i rs st)) =
      buffered_records (ws_tables st) + mset rs
    \<and> ws_buffered (buffer_records l seen i rs st) = ws_buffered st + batch_bytes l rs
    \<and> ws_market (buffer_records l seen i rs st) = ws_market st
    \<and> ws_hour (buffer_records l seen i rs st) = ws_hour st
    \<and> ws_sequence (buffer_records l seen i rs st) = ws_sequence st"
  using assms
proof (induction rs arbitrary: i st)
  case (Cons r rs)
  have fits: "ws_buffered st + record_bytes l r \<le> usize_max"
    using Cons.prems(2) by (simp add: batch_bytes_def)
  note one = buffer_record_ok [OF Cons.prems(1) fits, of "seen i"]
  show ?case
    using Cons.IH [OF one(1), of "Suc i"] Cons.prems(2) one(2,3)
    by (simp add: batch_bytes_def ac_simps)
qed (simp add: batch_bytes_def)

subsection \<open>The drain loop\<close>

text \<open>A \<open>HashMap\<close>'s iterator yields every entry once, in some order.\<close>

definition iteration_order :: "table_order \<Rightarrow> bool" where
  "iteration_order order \<longleftrightarrow> (\<forall>al. mset (order al) = mset al)"

lemma iteration_order_set: "iteration_order order \<Longrightarrow> set (order al) = set al"
  by (metis iteration_order_def mset_eq_setD)

lemma iteration_order_Nil: "iteration_order order \<Longrightarrow> order [] = []"
  by (metis iteration_order_def mset_zero_iff)

lemma max_by_bytes_None: "max_by_bytes ps = None \<longleftrightarrow> ps = []"
  by (cases ps) (auto split: option.splits)

lemma max_by_bytes_Some:
  "max_by_bytes ps = Some p \<Longrightarrow> p \<in> set ps \<and> (\<forall>q \<in> set ps. bt_bytes (snd q) \<le> bt_bytes (snd p))"
proof (induction ps arbitrary: p)
  case (Cons a ps)
  show ?case
  proof (cases "max_by_bytes ps")
    case None
    with Cons.prems show ?thesis by (simp add: max_by_bytes_None)
  next
    case (Some q)
    with Cons.IH [OF Some] Cons.prems show ?thesis by (auto split: if_splits)
  qed
qed simp

lemma flush_largest_progress:
  assumes ok: "worker_ok l st" and ord: "iteration_order order" and ne: "ws_tables st \<noteq> []"
    and flush: "flush_largest order True st = (st', jobs, out)"
  shows "length (ws_tables st) = Suc (length (ws_tables st'))"
proof -
  have "order (ws_tables st) \<noteq> []"
    using ne ord by (metis iteration_order_def mset_zero_iff)
  then obtain t b where m: "max_by_bytes (order (ws_tables st)) = Some (t, b)"
    by (metis max_by_bytes_None not_Some_eq surj_pair)
  have "(t, b) \<in> set (ws_tables st)"
    using max_by_bytes_Some [OF m] iteration_order_set [OF ord] by blast
  then have map: "map_of (ws_tables st) t = Some b" using ok by (simp add: worker_ok_def)
  then have "bt_records b \<noteq> []" using worker_ok_table [OF ok] by (simp add: table_ok_def)
  then have "ws_tables st' = AList.delete t (ws_tables st)"
    using flush m map by (auto simp: flush_largest_def flush_table_def)
  then show ?thesis
    using delete_buffered(3) [OF _ map] ok by (simp add: worker_ok_def)
qed

lemma drain_contract:
  assumes "worker_ok l st" and "iteration_order order" and "0 < n"
  shows "\<exists>st' jobs. drain order True n st acc = Some (st', acc @ jobs, Inr ())
    \<and> worker_ok l st' \<and> flushed l st st' jobs \<and> ws_buffered st' < n"
  using assms
proof (induction "length (ws_tables st)" arbitrary: st acc rule: less_induct)
  case less
  show ?case
  proof (cases "ws_buffered st \<ge> n")
    case False
    then show ?thesis using less.prems(1)
      by (subst drain.simps) (auto intro!: flushed_refl)
  next
    case True
    obtain s1 j1 o1 where f: "flush_largest order True st = (s1, j1, o1)"
      by (cases "flush_largest order True st")
    note c = flush_largest_contract [OF less.prems(1) f]
    have "ws_tables st \<noteq> []"
      using True less.prems by (auto simp: worker_ok_def buffered_sum_def)
    then have "length (ws_tables s1) < length (ws_tables st)"
      using flush_largest_progress [OF less.prems(1,2) _ f] by simp
    then obtain s2 j2 where d: "drain order True n s1 (acc @ j1) = Some (s2, (acc @ j1) @ j2, Inr ())"
        "worker_ok l s2" "flushed l s1 s2 j2" "ws_buffered s2 < n"
      using less.hyps [of s1 "acc @ j1"] c less.prems by blast
    have "drain order True n st acc = Some (s2, acc @ (j1 @ j2), Inr ())"
      using True f c d(1) by (subst drain.simps) simp
    moreover have "flushed l st s2 (j1 @ j2)" using c d(3) by (blast intro: flushed_trans)
    ultimately show ?thesis using d by blast
  qed
qed

lemma flush_selected_contract:
  assumes ok: "worker_ok l st" and ord: "iteration_order order"
    and flush: "flush_tables True (map fst (filter P (order (ws_tables st)))) st = (st', jobs, out)"
  shows "out = Inr () \<and> worker_ok l st' \<and> flushed l st st' jobs
    \<and> list_all (\<lambda>p. \<not> P p) (ws_tables st')"
proof -
  let ?ts = "map fst (filter P (order (ws_tables st)))"
  note c = flush_tables_contract [OF ok flush]
  have "\<not> P p" if p: "p \<in> set (ws_tables st')" for p
  proof
    assume "P p"
    moreover have "p \<in> set (order (ws_tables st))"
      using p c iteration_order_set [OF ord] by (auto simp: flushed_def)
    ultimately have "fst p \<in> set ?ts" by force
    then have "map_of (ws_tables st') (fst p) = None" using c by blast
    then show False using p by (auto simp: map_of_eq_None_iff image_iff)
  qed
  with c show ?thesis by (auto simp: list_all_iff)
qed

lemma flush_full_contract:
  assumes ok: "worker_ok l st" and ord: "iteration_order order"
    and flush: "flush_full order True n st = (st', jobs, out)"
  shows "out = Inr () \<and> worker_ok l st' \<and> flushed l st st' jobs
    \<and> list_all (\<lambda>(t, b). bt_bytes b < n) (ws_tables st')"
  using flush_selected_contract [OF ok ord, of "\<lambda>(t, b). n \<le> bt_bytes b" st' jobs out] flush
  unfolding flush_full_def by (auto simp: list_all_iff not_le)

lemma flush_all_contract:
  assumes ok: "worker_ok l st" and ord: "iteration_order order"
    and flush: "flush_all order True st = (st', jobs, out)"
  shows "out = Inr () \<and> worker_ok l st' \<and> flushed l st st' jobs \<and> ws_tables st' = []"
proof -
  have c: "out = Inr () \<and> worker_ok l st' \<and> flushed l st st' jobs
      \<and> (\<forall>t \<in> set (map fst (order (ws_tables st))). map_of (ws_tables st') t = None)"
    using flush_tables_contract [OF ok] flush unfolding flush_all_def by blast
  have "p \<notin> set (ws_tables st')" for p
  proof
    assume p: "p \<in> set (ws_tables st')"
    then have "fst p \<in> set (map fst (order (ws_tables st)))"
      using c iteration_order_set [OF ord] by (auto simp: flushed_def)
    then have "map_of (ws_tables st') (fst p) = None" using c by blast
    then show False using p by (auto simp: map_of_eq_None_iff)
  qed
  then have "ws_tables st' = []" by (metis last_in_set)
  with c show ?thesis by simp
qed

subsection \<open>Properties\<close>

lemma handle_records_cases:
  assumes ok: "worker_ok l st" and ord: "iteration_order order" and pos: "0 < opt_buffer_bytes opts"
    and fits: "ws_buffered st + batch_bytes l rs \<le> usize_max"
  shows "\<exists>st' jobs. handle_records opts l order True seen rs st = Some (st', jobs, Inr ())
    \<and> worker_ok l st'
    \<and> flushed l (buffer_records l seen 0 rs st) st' jobs
    \<and> ws_buffered st' < opt_buffer_bytes opts
    \<and> list_all (\<lambda>(t, b). bt_bytes b < opt_segment_bytes opts) (ws_tables st')"
proof -
  let ?st = "buffer_records l seen 0 rs st"
  note b = buffer_records_ok [OF ok fits, of seen 0]
  obtain s1 j1 o1 where f: "flush_full order True (opt_segment_bytes opts) ?st = (s1, j1, o1)"
    by (cases "flush_full order True (opt_segment_bytes opts) ?st")
  have c: "o1 = Inr () \<and> worker_ok l s1 \<and> flushed l ?st s1 j1
      \<and> list_all (\<lambda>(t, b). bt_bytes b < opt_segment_bytes opts) (ws_tables s1)"
    using flush_full_contract [OF _ ord f] b by blast
  obtain s2 j2 where d: "drain order True (opt_buffer_bytes opts) s1 j1 = Some (s2, j1 @ j2, Inr ())"
      "worker_ok l s2" "flushed l s1 s2 j2" "ws_buffered s2 < opt_buffer_bytes opts"
    using drain_contract [OF _ ord pos, of l s1 j1] c by blast
  have "list_all (\<lambda>(t, b). bt_bytes b < opt_segment_bytes opts) (ws_tables s2)"
    using c d(3) by (auto simp: flushed_def list_all_iff)
  moreover have "flushed l ?st s2 (j1 @ j2)" using c d(3) by (blast intro: flushed_trans)
  moreover have "handle_records opts l order True seen rs st = Some (s2, j1 @ j2, Inr ())"
    using f c d(1) by (simp add: handle_records_def)
  ultimately show ?thesis using d by blast
qed

definition sample_layout :: layout where
  "sample_layout = \<lparr>size_of_value = 24, size_of_record = 48, heap_capacity = (\<lambda>_. None)\<rparr>"

definition sample_record :: data_record where
  "sample_record = \<lparr>rec_table = ''trades'', rec_values = [], rec_target = None\<rparr>"

definition sample_worker :: worker_state where
  "sample_worker = \<lparr>ws_market = Spot, ws_hour = 0, ws_sequence = 7,
     ws_tables = [(''trades'', \<lparr>bt_records = [sample_record], bt_bytes = 48, bt_first_seen = 0\<rparr>)],
     ws_buffered = 48\<rparr>"

lemma sample_worker_ok: "worker_ok sample_layout sample_worker"
  by (simp add: sample_layout_def sample_record_def sample_worker_def worker_ok_def table_ok_def
      batch_bytes_def record_bytes_def buffered_sum_def)

lemma iteration_order_id: "iteration_order (\<lambda>al. al)"
  by (simp add: iteration_order_def)

text \<open>
  C5. Handling a batch of records always ends when the buffer limit is positive and the encoder
  is alive. It loses and invents no record, leaves less than the limit in the buffers and every
  table below the segment limit, and keeps the invariant of the worker.
\<close>

theorem handle_records_conserves:
  assumes "worker_ok l st" and "iteration_order order" and "0 < opt_buffer_bytes opts"
    and "ws_buffered st + batch_bytes l rs \<le> usize_max"
  shows "\<exists>st' jobs. handle_records opts l order True seen rs st = Some (st', jobs, Inr ())
    \<and> worker_ok l st'
    \<and> buffered_records (ws_tables st) + mset rs =
      buffered_records (ws_tables st') + jobs_records jobs
    \<and> ws_buffered st' < opt_buffer_bytes opts
    \<and> list_all (\<lambda>(t, b). bt_bytes b < opt_segment_bytes opts) (ws_tables st')"
  using handle_records_cases [OF assms] buffer_records_ok [OF assms(1,4), of seen 0]
  by (fastforce simp: flushed_def)

theorem handle_records_conserves_witness:
  "\<exists>st' jobs.
    handle_records \<lparr>opt_buffer_bytes = 90, opt_segment_bytes = 60, opt_flush_interval = 1\<rparr>
      sample_layout (\<lambda>al. al) True (\<lambda>_. 0) [sample_record] sample_worker = Some (st', jobs, Inr ())
    \<and> worker_ok sample_layout st'
    \<and> buffered_records (ws_tables sample_worker) + mset [sample_record] =
      buffered_records (ws_tables st') + jobs_records jobs
    \<and> ws_buffered st' < 90
    \<and> list_all (\<lambda>(t, b). bt_bytes b < 60) (ws_tables st')"
  using handle_records_conserves [of sample_layout sample_worker "\<lambda>al. al"
      "\<lparr>opt_buffer_bytes = 90, opt_segment_bytes = 60, opt_flush_interval = 1\<rparr>"
      "[sample_record]" "\<lambda>_. 0"]
  by (simp add: sample_worker_ok iteration_order_id)
    (simp add: sample_worker_def sample_layout_def sample_record_def batch_bytes_def
      record_bytes_def usize_max_def)

lemma drain_zero_spins:
  assumes "drain order alive n st acc = Some r"
  shows "\<not> (n = 0 \<and> alive \<and> worker_ok l st)"
proof (rule drain.raw_induct [OF _ assms])
  fix drain' :: "table_order \<Rightarrow> bool \<Rightarrow> nat \<Rightarrow> worker_state \<Rightarrow> encode_job list \<Rightarrow> flush_result option"
    and order alive n st acc r
  assume ih: "\<And>order alive n st acc r. drain' order alive n st acc = Some r \<Longrightarrow>
      \<not> (n = 0 \<and> alive \<and> worker_ok l st)"
    and body: "(if n \<le> ws_buffered st
      then case flush_largest order alive st of
          (st', jobs, Inl e) \<Rightarrow> Some (st', acc @ jobs, Inl e)
        | (st', jobs, Inr x) \<Rightarrow> drain' order alive n st' (acc @ jobs)
      else Some (st, acc, Inr ())) = Some r"
  show "\<not> (n = 0 \<and> alive \<and> worker_ok l st)"
  proof
    assume z: "n = 0 \<and> alive \<and> worker_ok l st"
    obtain s1 j1 o1 where f: "flush_largest order True st = (s1, j1, o1)"
      by (cases "flush_largest order True st")
    have c: "o1 = Inr () \<and> worker_ok l s1"
      using flush_largest_contract [OF _ f] z by blast
    have "drain' order True 0 s1 (acc @ j1) = Some r" using body z f c by simp
    from ih [OF this] show False using c by simp
  qed
qed

text \<open>
  With a buffer limit of zero the worker's drain loop never ends, whatever is buffered:
  once the tables are gone it spins.
\<close>

theorem zero_buffer_limit_diverges:
  assumes "worker_ok l st"
  shows "drain order True 0 st acc = None"
  using drain_zero_spins assms by (cases "drain order True 0 st acc") blast+

theorem zero_buffer_limit_diverges_witness:
  "drain (\<lambda>al. al) True 0 sample_worker [] = None"
  by (rule zero_buffer_limit_diverges [OF sample_worker_ok])

end
