(* ===== verification/Parquet_Schema.thy ===== *)
theory Parquet_Schema
  imports Data_Model
begin

section \<open>The table schemas\<close>

text \<open>
  The schema half of \<open>src/parquet_store.rs\<close>: the SQL text of \<open>src/schema.sql\<close>, its
  parser, the Arrow types, and the cached lookup \<open>schema_for\<close>. An Arrow schema is the list of
  its fields. The cache is the \<open>OnceLock\<close>: \<open>None\<close> until the first successful parse.
\<close>

subsection \<open>Types and fields\<close>

datatype data_type =
    Timestamp_Micros "string option"
  | Utf8
  | UInt64
  | Int64
  | Int32
  | Decimal128 nat nat
  | Bool_Type

record field =
  field_name :: string
  field_type :: data_type
  nullable :: bool

type_synonym schema = "field list"

definition new_field :: "string \<Rightarrow> data_type \<Rightarrow> bool \<Rightarrow> field" where
  "new_field name ty nu = \<lparr>field_name = name, field_type = ty, nullable = nu\<rparr>"

definition arrow_type :: "string \<Rightarrow> data_type result" where
  "arrow_type v =
     (if v = ''TIMESTAMPTZ'' then Inr (Timestamp_Micros (Some ''UTC''))
      else if v = ''VARCHAR'' \<or> v = ''JSON'' then Inr Utf8
      else if v = ''UBIGINT'' then Inr UInt64
      else if v = ''BIGINT'' then Inr Int64
      else if v = ''INTEGER'' then Inr Int32
      else if v = ''DECIMAL(38,18)'' then Inr (Decimal128 38 18)
      else if v = ''BOOLEAN'' then Inr Bool_Type
      else Inl (''unsupported schema type '' @ v))"

subsection \<open>The SQL parser\<close>

text \<open>\<open>piece\<close> is the text from \<open>start\<close> up to the current index, last byte first.\<close>

fun split_columns_loop :: "nat \<Rightarrow> string \<Rightarrow> string \<Rightarrow> string list" where
  "split_columns_loop depth piece [] = [rev piece]"
| "split_columns_loop depth piece (c # cs) =
     (if c = CHR ''('' then split_columns_loop (Suc depth) (c # piece) cs
      else if c = CHR '')'' then split_columns_loop (depth - 1) (c # piece) cs
      else if c = CHR '','' \<and> depth = 0 then rev piece # split_columns_loop depth [] cs
      else split_columns_loop depth (c # piece) cs)"

definition split_columns :: "string \<Rightarrow> string list" where
  "split_columns v = split_columns_loop 0 [] v"

definition parse_column :: "string \<Rightarrow> field result" where
  "parse_column column =
     (case split_once CHR '' '' (trim column) of
        None \<Rightarrow> Inl (''invalid schema column '' @ column)
      | Some (name, sql_type) \<Rightarrow>
          result_bind (arrow_type sql_type) (\<lambda>ty. Inr (new_field name ty True)))"

text \<open>One round of the loop over the statements; \<open>None\<close> is \<open>continue\<close>.\<close>

definition parse_statement :: "string \<Rightarrow> (string \<times> schema) option result" where
  "parse_statement statement =
     (case strip_prefix (trim statement) ''CREATE TABLE IF NOT EXISTS '' of
        None \<Rightarrow> Inr None
      | Some rest \<Rightarrow> (case split_once_str '' ('' rest of
            None \<Rightarrow> Inr None
          | Some (table, columns) \<Rightarrow>
              result_bind
                (result_map parse_column (split_columns (trim_end_matches CHR '')'' columns)))
                (\<lambda>cols. Inr (Some (table, cols)))))"

fun parse_statements :: "string list \<Rightarrow> (string \<rightharpoonup> schema) \<Rightarrow> (string \<rightharpoonup> schema) result" where
  "parse_statements [] schemas = Inr schemas"
| "parse_statements (s # ss) schemas =
     (case parse_statement s of
        Inl e \<Rightarrow> Inl e
      | Inr None \<Rightarrow> parse_statements ss schemas
      | Inr (Some (table, cols)) \<Rightarrow> parse_statements ss (schemas(table \<mapsto> cols)))"

subsection \<open>The text of schema.sql\<close>

definition sql_depth_updates :: string where
  "sql_depth_updates =
     ''CREATE TABLE IF NOT EXISTS depth_updates ('' @
     ''event_time TIMESTAMPTZ, received_at TIMESTAMPTZ, symbol VARCHAR, '' @
     ''first_update_id UBIGINT, final_update_id UBIGINT, source VARCHAR, bids JSON, '' @
     ''asks JSON)''"

definition alter_depth_updates_bids :: string where
  "alter_depth_updates_bids =
     ''ALTER TABLE depth_updates ADD COLUMN IF NOT EXISTS bids JSON''"

definition alter_depth_updates_asks :: string where
  "alter_depth_updates_asks =
     ''ALTER TABLE depth_updates ADD COLUMN IF NOT EXISTS asks JSON''"

definition sql_depth_levels :: string where
  "sql_depth_levels =
     ''CREATE TABLE IF NOT EXISTS depth_levels ('' @
     ''event_time TIMESTAMPTZ, received_at TIMESTAMPTZ, symbol VARCHAR, '' @
     ''first_update_id UBIGINT, final_update_id UBIGINT, side VARCHAR, level INTEGER, '' @
     ''price DECIMAL(38,18), quantity DECIMAL(38,18), source VARCHAR)''"

definition sql_aggregate_trades :: string where
  "sql_aggregate_trades =
     ''CREATE TABLE IF NOT EXISTS aggregate_trades ('' @
     ''event_time TIMESTAMPTZ, received_at TIMESTAMPTZ, symbol VARCHAR, '' @
     ''aggregate_trade_id UBIGINT, price DECIMAL(38,18), quantity DECIMAL(38,18), '' @
     ''first_trade_id UBIGINT, last_trade_id UBIGINT, trade_time TIMESTAMPTZ, '' @
     ''buyer_is_maker BOOLEAN, is_best_match BOOLEAN, source VARCHAR)''"

definition sql_trades :: string where
  "sql_trades =
     ''CREATE TABLE IF NOT EXISTS trades ('' @
     ''event_time TIMESTAMPTZ, received_at TIMESTAMPTZ, symbol VARCHAR, '' @
     ''trade_id UBIGINT, price DECIMAL(38,18), quantity DECIMAL(38,18), '' @
     ''trade_time TIMESTAMPTZ, buyer_is_maker BOOLEAN, is_best_match BOOLEAN, '' @
     ''source VARCHAR)''"

definition sql_book_tickers :: string where
  "sql_book_tickers =
     ''CREATE TABLE IF NOT EXISTS book_tickers ('' @
     ''received_at TIMESTAMPTZ, symbol VARCHAR, update_id UBIGINT, '' @
     ''bid_price DECIMAL(38,18), bid_quantity DECIMAL(38,18), '' @
     ''ask_price DECIMAL(38,18), ask_quantity DECIMAL(38,18), source VARCHAR)''"

definition sql_tickers :: string where
  "sql_tickers =
     ''CREATE TABLE IF NOT EXISTS tickers ('' @
     ''event_time TIMESTAMPTZ, received_at TIMESTAMPTZ, symbol VARCHAR, '' @
     ''price_change DECIMAL(38,18), price_change_percent DECIMAL(38,18), '' @
     ''weighted_average_price DECIMAL(38,18), previous_close_price DECIMAL(38,18), '' @
     ''last_price DECIMAL(38,18), last_quantity DECIMAL(38,18), '' @
     ''bid_price DECIMAL(38,18), bid_quantity DECIMAL(38,18), '' @
     ''ask_price DECIMAL(38,18), ask_quantity DECIMAL(38,18), '' @
     ''open_price DECIMAL(38,18), high_price DECIMAL(38,18), low_price DECIMAL(38,18), '' @
     ''base_volume DECIMAL(38,18), quote_volume DECIMAL(38,18), '' @
     ''statistics_open_time TIMESTAMPTZ, statistics_close_time TIMESTAMPTZ, '' @
     ''first_trade_id BIGINT, last_trade_id BIGINT, trade_count UBIGINT, '' @
     ''source VARCHAR)''"

definition sql_rolling_tickers :: string where
  "sql_rolling_tickers =
     ''CREATE TABLE IF NOT EXISTS rolling_tickers ('' @
     ''event_time TIMESTAMPTZ, received_at TIMESTAMPTZ, symbol VARCHAR, '' @
     ''window_size VARCHAR, price_change DECIMAL(38,18), '' @
     ''price_change_percent DECIMAL(38,18), open_price DECIMAL(38,18), '' @
     ''high_price DECIMAL(38,18), low_price DECIMAL(38,18), last_price DECIMAL(38,18), '' @
     ''weighted_average_price DECIMAL(38,18), base_volume DECIMAL(38,18), '' @
     ''quote_volume DECIMAL(38,18), statistics_open_time TIMESTAMPTZ, '' @
     ''statistics_close_time TIMESTAMPTZ, first_trade_id BIGINT, last_trade_id BIGINT, '' @
     ''trade_count UBIGINT, source VARCHAR)''"

definition sql_mini_tickers :: string where
  "sql_mini_tickers =
     ''CREATE TABLE IF NOT EXISTS mini_tickers ('' @
     ''event_time TIMESTAMPTZ, received_at TIMESTAMPTZ, symbol VARCHAR, '' @
     ''close_price DECIMAL(38,18), open_price DECIMAL(38,18), '' @
     ''high_price DECIMAL(38,18), low_price DECIMAL(38,18), '' @
     ''base_volume DECIMAL(38,18), quote_volume DECIMAL(38,18), source VARCHAR)''"

definition sql_klines :: string where
  "sql_klines =
     ''CREATE TABLE IF NOT EXISTS klines ('' @
     ''event_time TIMESTAMPTZ, received_at TIMESTAMPTZ, symbol VARCHAR, '' @
     ''kline_start_time TIMESTAMPTZ, kline_close_time TIMESTAMPTZ, '' @
     ''kline_symbol VARCHAR, interval VARCHAR, first_trade_id BIGINT, '' @
     ''last_trade_id BIGINT, open_price DECIMAL(38,18), close_price DECIMAL(38,18), '' @
     ''high_price DECIMAL(38,18), low_price DECIMAL(38,18), '' @
     ''base_volume DECIMAL(38,18), trade_count UBIGINT, is_closed BOOLEAN, '' @
     ''quote_volume DECIMAL(38,18), taker_buy_base_volume DECIMAL(38,18), '' @
     ''taker_buy_quote_volume DECIMAL(38,18), ignored DECIMAL(38,18), source VARCHAR)''"

definition sql_average_prices :: string where
  "sql_average_prices =
     ''CREATE TABLE IF NOT EXISTS average_prices ('' @
     ''event_time TIMESTAMPTZ, received_at TIMESTAMPTZ, symbol VARCHAR, '' @
     ''interval VARCHAR, average_price DECIMAL(38,18), last_trade_time TIMESTAMPTZ, '' @
     ''source VARCHAR)''"

definition sql_futures_depth_updates :: string where
  "sql_futures_depth_updates =
     ''CREATE TABLE IF NOT EXISTS futures_depth_updates ('' @
     ''event_time TIMESTAMPTZ, transaction_time TIMESTAMPTZ, received_at TIMESTAMPTZ, '' @
     ''symbol VARCHAR, pair VARCHAR, first_update_id UBIGINT, final_update_id UBIGINT, '' @
     ''previous_final_update_id UBIGINT, bids JSON, asks JSON, symbol_type INTEGER, '' @
     ''source VARCHAR)''"

definition alter_futures_depth_updates_bids :: string where
  "alter_futures_depth_updates_bids =
     ''ALTER TABLE futures_depth_updates ADD COLUMN IF NOT EXISTS bids JSON''"

definition alter_futures_depth_updates_asks :: string where
  "alter_futures_depth_updates_asks =
     ''ALTER TABLE futures_depth_updates ADD COLUMN IF NOT EXISTS asks JSON''"

definition sql_futures_depth_levels :: string where
  "sql_futures_depth_levels =
     ''CREATE TABLE IF NOT EXISTS futures_depth_levels ('' @
     ''event_time TIMESTAMPTZ, transaction_time TIMESTAMPTZ, received_at TIMESTAMPTZ, '' @
     ''symbol VARCHAR, pair VARCHAR, first_update_id UBIGINT, final_update_id UBIGINT, '' @
     ''previous_final_update_id UBIGINT, side VARCHAR, level INTEGER, '' @
     ''price DECIMAL(38,18), quantity DECIMAL(38,18), source VARCHAR)''"

definition sql_futures_aggregate_trades :: string where
  "sql_futures_aggregate_trades =
     ''CREATE TABLE IF NOT EXISTS futures_aggregate_trades ('' @
     ''event_time TIMESTAMPTZ, received_at TIMESTAMPTZ, symbol VARCHAR, pair VARCHAR, '' @
     ''aggregate_trade_id UBIGINT, price DECIMAL(38,18), quantity DECIMAL(38,18), '' @
     ''normal_quantity DECIMAL(38,18), first_trade_id UBIGINT, last_trade_id UBIGINT, '' @
     ''trade_time TIMESTAMPTZ, buyer_is_maker BOOLEAN, symbol_type INTEGER, '' @
     ''source VARCHAR)''"

definition sql_futures_book_tickers :: string where
  "sql_futures_book_tickers =
     ''CREATE TABLE IF NOT EXISTS futures_book_tickers ('' @
     ''event_time TIMESTAMPTZ, transaction_time TIMESTAMPTZ, received_at TIMESTAMPTZ, '' @
     ''symbol VARCHAR, update_id UBIGINT, bid_price DECIMAL(38,18), '' @
     ''bid_quantity DECIMAL(38,18), ask_price DECIMAL(38,18), '' @
     ''ask_quantity DECIMAL(38,18), pair VARCHAR, symbol_type INTEGER, source VARCHAR)''"

definition sql_futures_mark_prices :: string where
  "sql_futures_mark_prices =
     ''CREATE TABLE IF NOT EXISTS futures_mark_prices ('' @
     ''event_time TIMESTAMPTZ, received_at TIMESTAMPTZ, symbol VARCHAR, pair VARCHAR, '' @
     ''mark_price DECIMAL(38,18), index_price DECIMAL(38,18), '' @
     ''estimated_settle_price DECIMAL(38,18), funding_rate DECIMAL(38,18), '' @
     ''next_funding_time TIMESTAMPTZ, symbol_type INTEGER, source VARCHAR)''"

definition sql_futures_liquidations :: string where
  "sql_futures_liquidations =
     ''CREATE TABLE IF NOT EXISTS futures_liquidations ('' @
     ''event_time TIMESTAMPTZ, received_at TIMESTAMPTZ, symbol VARCHAR, side VARCHAR, '' @
     ''order_type VARCHAR, time_in_force VARCHAR, original_quantity DECIMAL(38,18), '' @
     ''price DECIMAL(38,18), average_price DECIMAL(38,18), order_status VARCHAR, '' @
     ''last_filled_quantity DECIMAL(38,18), '' @
     ''accumulated_filled_quantity DECIMAL(38,18), trade_time TIMESTAMPTZ, '' @
     ''pair VARCHAR, symbol_type INTEGER, source VARCHAR)''"

definition sql_futures_open_interest :: string where
  "sql_futures_open_interest =
     ''CREATE TABLE IF NOT EXISTS futures_open_interest ('' @
     ''observed_at TIMESTAMPTZ, received_at TIMESTAMPTZ, symbol VARCHAR, pair VARCHAR, '' @
     ''contract_type VARCHAR, open_interest DECIMAL(38,18), source VARCHAR)''"

definition sql_futures_mini_tickers :: string where
  "sql_futures_mini_tickers =
     ''CREATE TABLE IF NOT EXISTS futures_mini_tickers ('' @
     ''event_time TIMESTAMPTZ, received_at TIMESTAMPTZ, symbol VARCHAR, pair VARCHAR, '' @
     ''close_price DECIMAL(38,18), open_price DECIMAL(38,18), '' @
     ''high_price DECIMAL(38,18), low_price DECIMAL(38,18), '' @
     ''base_volume DECIMAL(38,18), quote_volume DECIMAL(38,18), symbol_type INTEGER, '' @
     ''source VARCHAR)''"

definition sql_futures_tickers :: string where
  "sql_futures_tickers =
     ''CREATE TABLE IF NOT EXISTS futures_tickers ('' @
     ''event_time TIMESTAMPTZ, received_at TIMESTAMPTZ, symbol VARCHAR, pair VARCHAR, '' @
     ''price_change DECIMAL(38,18), price_change_percent DECIMAL(38,18), '' @
     ''weighted_average_price DECIMAL(38,18), last_price DECIMAL(38,18), '' @
     ''last_quantity DECIMAL(38,18), open_price DECIMAL(38,18), '' @
     ''high_price DECIMAL(38,18), low_price DECIMAL(38,18), '' @
     ''base_volume DECIMAL(38,18), quote_volume DECIMAL(38,18), '' @
     ''statistics_open_time TIMESTAMPTZ, statistics_close_time TIMESTAMPTZ, '' @
     ''first_trade_id BIGINT, last_trade_id BIGINT, trade_count UBIGINT, '' @
     ''symbol_type INTEGER, source VARCHAR)''"

definition sql_futures_klines :: string where
  "sql_futures_klines =
     ''CREATE TABLE IF NOT EXISTS futures_klines ('' @
     ''event_time TIMESTAMPTZ, received_at TIMESTAMPTZ, symbol VARCHAR, pair VARCHAR, '' @
     ''kline_start_time TIMESTAMPTZ, kline_close_time TIMESTAMPTZ, interval VARCHAR, '' @
     ''first_trade_id BIGINT, last_trade_id BIGINT, open_price DECIMAL(38,18), '' @
     ''close_price DECIMAL(38,18), high_price DECIMAL(38,18), '' @
     ''low_price DECIMAL(38,18), base_volume DECIMAL(38,18), trade_count UBIGINT, '' @
     ''is_closed BOOLEAN, quote_volume DECIMAL(38,18), '' @
     ''taker_buy_base_volume DECIMAL(38,18), taker_buy_quote_volume DECIMAL(38,18), '' @
     ''ignored DECIMAL(38,18), symbol_type INTEGER, source VARCHAR)''"

definition schema_statements :: "string list" where
  "schema_statements =
     [sql_depth_updates,
      alter_depth_updates_bids,
      alter_depth_updates_asks,
      sql_depth_levels,
      sql_aggregate_trades,
      sql_trades,
      sql_book_tickers,
      sql_tickers,
      sql_rolling_tickers,
      sql_mini_tickers,
      sql_klines,
      sql_average_prices,
      sql_futures_depth_updates,
      alter_futures_depth_updates_bids,
      alter_futures_depth_updates_asks,
      sql_futures_depth_levels,
      sql_futures_aggregate_trades,
      sql_futures_book_tickers,
      sql_futures_mark_prices,
      sql_futures_liquidations,
      sql_futures_open_interest,
      sql_futures_mini_tickers,
      sql_futures_tickers,
      sql_futures_klines]"

definition schema_sql :: string where
  "schema_sql = concat (map (\<lambda>s. s @ [CHR '';'', CHR 0x0A]) schema_statements)"

definition parse_schemas :: "(string \<rightharpoonup> schema) result" where
  "parse_schemas = parse_statements (split_on CHR '';'' schema_sql) Map.empty"

subsection \<open>The cached lookup\<close>

text \<open>
  The first component of the result is the cache afterwards. A cache that lacks the table is
  parsed again, and \<open>set\<close> keeps the cache that is there.
\<close>

definition schema_for ::
  "(string \<rightharpoonup> schema) option \<Rightarrow> string \<Rightarrow> (string \<rightharpoonup> schema) option \<times> schema result" where
  "schema_for cache table =
     (case Option.bind cache (\<lambda>schemas. schemas table) of
        Some schema \<Rightarrow> (cache, Inr schema)
      | None \<Rightarrow> (case parse_schemas of
            Inl e \<Rightarrow> (cache, Inl e)
          | Inr schemas \<Rightarrow>
              (option_or cache (Some schemas),
               with_context (schemas table) (''unknown table schema '' @ table))))"

end
