(* ===== verification/Parquet_Store.thy ===== *)
theory Parquet_Store
  imports Parquet_Schema
begin

section \<open>Building and publishing segments\<close>

text \<open>
  The rest of \<open>src/parquet_store.rs\<close>: the conversion of records to Arrow columns, the path
  of a segment, and \<open>write_segment\<close> with its file system calls. A path is the list of its
  components. A file system maps paths to contents. Arrow and Parquet are parameters (what they
  accept and what bytes they encode), as are chrono's calendar fields and the outcome of every
  system call of one \<open>write_segment\<close>.
\<close>

subsection \<open>Arrow arrays\<close>

datatype arrow_array =
    TimestampMicrosecondArray "int option list" string
  | StringArray "string option list"
  | UInt64Array "u64 option list"
  | Int64Array "int option list"
  | Int32Array "int option list"
  | Decimal128Array "int option list" nat nat
  | BooleanArray "bool option list"

record record_batch =
  batch_schema :: schema
  batch_columns :: "arrow_array list"

record arrow_lib =
  precision_and_scale_ok :: "nat \<Rightarrow> nat \<Rightarrow> bool"
  try_new_ok :: "schema \<Rightarrow> arrow_array list \<Rightarrow> bool"
  encode_parquet :: "record_batch \<Rightarrow> string"

fun timestamp_of :: "data_value \<Rightarrow> int option" where
  "timestamp_of (TimestampMicros v) = Some v"
| "timestamp_of Null = None"
| "timestamp_of _ = None"

fun string_of :: "data_value \<Rightarrow> string option" where
  "string_of (Text v) = Some v"
| "string_of (StaticText v) = Some v"
| "string_of Null = None"
| "string_of _ = None"

fun unsigned_of :: "data_value \<Rightarrow> u64 option" where
  "unsigned_of (U64 v) = Some v"
| "unsigned_of Null = None"
| "unsigned_of _ = None"

fun signed_of :: "data_value \<Rightarrow> int option" where
  "signed_of (I64 v) = Some v"
| "signed_of Null = None"
| "signed_of _ = None"

definition integer_of :: "data_value \<Rightarrow> int option" where
  "integer_of v = Option.bind (signed_of v) (\<lambda>n. if in_i32 n then Some n else None)"

fun decimal_of :: "data_value \<Rightarrow> int option" where
  "decimal_of (Decimal v) = Some v"
| "decimal_of Null = None"
| "decimal_of _ = None"

fun boolean_of :: "data_value \<Rightarrow> bool option" where
  "boolean_of (Boolean v) = Some v"
| "boolean_of Null = None"
| "boolean_of _ = None"

fun column_array :: "arrow_lib \<Rightarrow> data_record list \<Rightarrow> nat \<Rightarrow> data_type \<Rightarrow> arrow_array result" where
  "column_array lib rs i (Timestamp_Micros _) =
     Inr (TimestampMicrosecondArray (map (\<lambda>r. timestamp_of (rec_values r ! i)) rs) ''UTC'')"
| "column_array lib rs i Utf8 = Inr (StringArray (map (\<lambda>r. string_of (rec_values r ! i)) rs))"
| "column_array lib rs i UInt64 = Inr (UInt64Array (map (\<lambda>r. unsigned_of (rec_values r ! i)) rs))"
| "column_array lib rs i Int64 = Inr (Int64Array (map (\<lambda>r. signed_of (rec_values r ! i)) rs))"
| "column_array lib rs i Int32 = Inr (Int32Array (map (\<lambda>r. integer_of (rec_values r ! i)) rs))"
| "column_array lib rs i (Decimal128 precision scale) =
     (if precision_and_scale_ok lib precision scale
      then Inr (Decimal128Array (map (\<lambda>r. decimal_of (rec_values r ! i)) rs) precision scale)
      else Inl ''with_precision_and_scale'')"
| "column_array lib rs i Bool_Type = Inr (BooleanArray (map (\<lambda>r. boolean_of (rec_values r ! i)) rs))"

fun check_field_counts :: "schema \<Rightarrow> data_record list \<Rightarrow> unit result" where
  "check_field_counts schema [] = Inr ()"
| "check_field_counts schema (r # rs) =
     (if length (rec_values r) \<noteq> length schema then Inl (rec_table r @ '' field count mismatch'')
      else check_field_counts schema rs)"

definition build_record_batch :: "arrow_lib \<Rightarrow> schema \<Rightarrow> data_record list \<Rightarrow> record_batch result" where
  "build_record_batch lib schema rs =
     result_bind (check_field_counts schema rs) (\<lambda>_.
       result_bind
         (result_map (\<lambda>(i, f). column_array lib rs i (field_type f)) (enumerate 0 schema))
         (\<lambda>arrays. if try_new_ok lib schema arrays
                   then Inr \<lparr>batch_schema = schema, batch_columns = arrays\<rparr>
                   else Inl ''build Arrow record batch''))"

subsection \<open>Paths\<close>

type_synonym path = "string list"

record calendar =
  cal_year :: "datetime \<Rightarrow> int"
  cal_month :: "datetime \<Rightarrow> nat"
  cal_day :: "datetime \<Rightarrow> nat"
  cal_hour :: "datetime \<Rightarrow> nat"
  cal_parse_naive :: "string \<Rightarrow> datetime option"

text \<open>\<open>{:04}\<close> of a signed number counts the sign.\<close>

definition show_year :: "int \<Rightarrow> string" where
  "show_year y = (if y < 0 then CHR ''-'' # show_padded 3 (nat (- y)) else show_padded 4 (nat y))"

definition day_directory :: "calendar \<Rightarrow> datetime \<Rightarrow> string" where
  "day_directory cal h =
     show_year (cal_year cal h) @ ''-'' @ show_padded 2 (cal_month cal h) @ ''-'' @ show_padded 2 (cal_day cal h)"

definition hour_directory :: "calendar \<Rightarrow> datetime \<Rightarrow> string" where
  "hour_directory cal h = show_padded 2 (cal_hour cal h)"

definition segment_directory ::
  "calendar \<Rightarrow> path \<Rightarrow> string \<Rightarrow> market \<Rightarrow> datetime \<Rightarrow> string \<Rightarrow> path" where
  "segment_directory cal root exchange market h table =
     root @ [exchange, market_as_str market, table, day_directory cal h, hour_directory cal h]"

definition segment_name :: "u64 \<Rightarrow> string" where
  "segment_name sequence = ''segment-'' @ show_padded 10 (unat sequence) @ ''.parquet''"

text \<open>\<open>Path::extension\<close> and \<open>with_extension\<close> of a file name.\<close>

definition file_extension :: "string \<Rightarrow> string option" where
  "file_extension name =
     (case rsplit_once CHR ''.'' name of
        None \<Rightarrow> None
      | Some (stem, ext) \<Rightarrow> if stem = [] then None else Some ext)"

definition file_stem :: "string \<Rightarrow> string" where
  "file_stem name =
     (case rsplit_once CHR ''.'' name of
        None \<Rightarrow> name
      | Some (stem, ext) \<Rightarrow> if stem = [] then name else stem)"

definition with_extension :: "path \<Rightarrow> string \<Rightarrow> path" where
  "with_extension p ext = butlast p @ [file_stem (last p) @ ''.'' @ ext]"

subsection \<open>Writing a segment\<close>

type_synonym file_system = "path \<rightharpoonup> string"

record segment =
  seg_hour :: datetime
  seg_market :: market
  seg_table :: string
  seg_path :: path
  seg_rows :: nat
  seg_bytes :: nat

text \<open>
  What the calls of one \<open>write_segment\<close> report. A file whose writing failed holds
  \<open>partial_bytes\<close>.
\<close>

record segment_io =
  mkdir_ok :: bool
  zstd_ok :: bool
  create_ok :: bool
  writer_ok :: bool
  write_ok :: bool
  close_ok :: bool
  rename_ok :: bool
  metadata_ok :: bool
  partial_bytes :: string

definition write_segment ::
  "calendar \<Rightarrow> arrow_lib \<Rightarrow> segment_io \<Rightarrow> (string \<rightharpoonup> schema) option \<Rightarrow> file_system \<Rightarrow> path \<Rightarrow> string \<Rightarrow>
   market \<Rightarrow> datetime \<Rightarrow> u64 \<Rightarrow> string \<Rightarrow> data_record list \<Rightarrow>
   (string \<rightharpoonup> schema) option \<times> file_system \<times> segment result"
where
  "write_segment cal lib io cache fs root exchange market h sequence table rs =
     (case schema_for cache table of
        (cache', Inl e) \<Rightarrow> (cache', fs, Inl e)
      | (cache', Inr schema) \<Rightarrow>
     (case build_record_batch lib schema rs of
        Inl e \<Rightarrow> (cache', fs, Inl e)
      | Inr batch \<Rightarrow>
          (let directory = segment_directory cal root exchange market h table;
               path = directory @ [segment_name sequence];
               temporary = with_extension path ''parquet.tmp'' in
           if \<not> mkdir_ok io then (cache', fs, Inl ''create Parquet segment directory'')
           else if \<not> zstd_ok io then (cache', fs, Inl ''zstd level'')
           else if \<not> create_ok io then (cache', fs, Inl ''create temporary Parquet segment'')
           else
             (let partial = fs(temporary \<mapsto> partial_bytes io) in
              if \<not> writer_ok io then (cache', partial, Inl ''create Parquet writer'')
              else if \<not> write_ok io then (cache', partial, Inl ''write Parquet row group'')
              else if \<not> close_ok io then (cache', partial, Inl ''close Parquet segment'')
              else
                (let closed = fs(temporary \<mapsto> encode_parquet lib batch) in
                 if \<not> rename_ok io then (cache', closed, Inl ''publish Parquet segment'')
                 else
                   (let published = (closed(temporary := None))(path \<mapsto> encode_parquet lib batch) in
                    if \<not> metadata_ok io then (cache', published, Inl ''metadata'')
                    else (cache', published,
                          Inr \<lparr>seg_hour = h, seg_market = market, seg_table = table,
                               seg_path = path, seg_rows = length rs,
                               seg_bytes = length (encode_parquet lib batch)\<rparr>)))))))"

definition segment_path ::
  "calendar \<Rightarrow> path \<Rightarrow> string \<Rightarrow> market \<Rightarrow> datetime \<Rightarrow> u64 \<Rightarrow> string \<Rightarrow> path" where
  "segment_path cal root exchange market h sequence table =
     segment_directory cal root exchange market h table @ [segment_name sequence]"

subsection \<open>What a column keeps of the values\<close>

text \<open>The variants each column type reads; anything else would be stored as a null.\<close>

fun value_fits :: "data_type \<Rightarrow> data_value \<Rightarrow> bool" where
  "value_fits (Timestamp_Micros _) (TimestampMicros _) = True"
| "value_fits Utf8 (Text _) = True"
| "value_fits Utf8 (StaticText _) = True"
| "value_fits UInt64 (U64 _) = True"
| "value_fits Int64 (I64 _) = True"
| "value_fits Int32 (I64 _) = True"
| "value_fits (Decimal128 _ _) (Decimal _) = True"
| "value_fits Bool_Type (Boolean _) = True"
| "value_fits _ Null = True"
| "value_fits _ _ = False"

definition conforms :: "schema \<Rightarrow> data_record \<Rightarrow> bool" where
  "conforms schema r \<longleftrightarrow> list_all2 (\<lambda>f v. value_fits (field_type f) v) schema (rec_values r)"

definition cell :: "('a \<Rightarrow> data_value) \<Rightarrow> 'a option \<Rightarrow> data_value" where
  "cell f x = (case x of None \<Rightarrow> Null | Some v \<Rightarrow> f v)"

fun read_cell :: "arrow_array \<Rightarrow> nat \<Rightarrow> data_value" where
  "read_cell (TimestampMicrosecondArray xs _) j = cell TimestampMicros (xs ! j)"
| "read_cell (StringArray xs) j = cell Text (xs ! j)"
| "read_cell (UInt64Array xs) j = cell U64 (xs ! j)"
| "read_cell (Int64Array xs) j = cell I64 (xs ! j)"
| "read_cell (Int32Array xs) j = cell I64 (xs ! j)"
| "read_cell (Decimal128Array xs _ _) j = cell Decimal (xs ! j)"
| "read_cell (BooleanArray xs) j = cell Boolean (xs ! j)"

text \<open>
  Static text is text. An \<open>Int32\<close> column has no place for an integer that takes more than 32 bits.
\<close>

fun as_text :: "data_value \<Rightarrow> data_value" where
  "as_text (StaticText s) = Text s"
| "as_text v = v"

definition too_wide :: "data_type \<Rightarrow> data_value \<Rightarrow> bool" where
  "too_wide ty v \<longleftrightarrow> ty = Int32 \<and> (\<exists>n. v = I64 n \<and> (n < - (2 ^ 31) \<or> 2 ^ 31 \<le> n))"

lemma check_field_counts_iff:
  "check_field_counts schema rs = Inr () \<longleftrightarrow> (\<forall>r \<in> set rs. length (rec_values r) = length schema)"
  by (induction rs) auto

lemma conforms_length: "conforms schema r \<Longrightarrow> length (rec_values r) = length schema"
  by (auto simp: conforms_def dest: list_all2_lengthD)

lemma conforms_nth:
  "conforms schema r \<Longrightarrow> i < length schema \<Longrightarrow> value_fits (field_type (schema ! i)) (rec_values r ! i)"
  by (auto simp: conforms_def list_all2_conv_all_nth)

lemma column_array_read:
  assumes "column_array lib rs i ty = Inr a" and "j < length rs"
    and "value_fits ty (rec_values (rs ! j) ! i)"
  shows "read_cell a j =
    (if too_wide ty (rec_values (rs ! j) ! i) then Null else as_text (rec_values (rs ! j) ! i))"
  using assms
  by (cases ty; cases "rec_values (rs ! j) ! i")
    (auto simp: cell_def integer_of_def too_wide_def int_bounds split: if_splits)

lemma batch_column:
  assumes "build_record_batch lib schema rs = Inr batch" and "i < length schema"
  shows "column_array lib rs i (field_type (schema ! i)) = Inr (batch_columns batch ! i)"
proof -
  from assms(1) have "list_all2 (\<lambda>(i, f) a. column_array lib rs i (field_type f) = Inr a)
      (enumerate 0 schema) (batch_columns batch)"
    by (auto simp: build_record_batch_def result_bind_Inr result_map_Inr case_prod_unfold
        split: if_splits)
  with assms(2) show ?thesis
    by (auto simp: list_all2_conv_all_nth nth_enumerate_eq)
qed

text \<open>
  C17. A batch keeps every cell: where the records conform to the schema, reading column \<open>i\<close> of row
  \<open>j\<close> gives the value that record \<open>j\<close> had in field \<open>i\<close>, static text reading back as text. The one
  exception is an integer of more than 32 bits in an \<open>INTEGER\<close> column, which is stored as a null.
\<close>

theorem build_record_batch_readback:
  assumes "build_record_batch lib schema rs = Inr batch"
    and "\<forall>r \<in> set rs. conforms schema r"
    and "i < length schema" and "j < length rs"
  shows "read_cell (batch_columns batch ! i) j =
    (if too_wide (field_type (schema ! i)) (rec_values (rs ! j) ! i) then Null
     else as_text (rec_values (rs ! j) ! i))"
proof (rule column_array_read)
  show "column_array lib rs i (field_type (schema ! i)) = Inr (batch_columns batch ! i)"
    using assms(1,3) by (rule batch_column)
  show "j < length rs" by fact
  show "value_fits (field_type (schema ! i)) (rec_values (rs ! j) ! i)"
    using assms(2-4) by (simp add: conforms_nth)
qed

definition sample_arrow :: arrow_lib where
  "sample_arrow = \<lparr>precision_and_scale_ok = (\<lambda>p s. p \<le> 38 \<and> s \<le> p), try_new_ok = (\<lambda>_ _. True),
     encode_parquet = (\<lambda>b. replicate (length (batch_columns b)) CHR ''P'')\<rparr>"

theorem build_record_batch_readback_witness:
  "\<exists>batch. build_record_batch sample_arrow [new_field ''source'' Utf8 True, new_field ''n'' Int32 True]
       [\<lparr>rec_table = ''t'', rec_values = [StaticText ''x'', I64 7], rec_target = None\<rparr>] = Inr batch
     \<and> read_cell (batch_columns batch ! 0) 0 = Text ''x''
     \<and> read_cell (batch_columns batch ! 1) 0 = I64 7"
proof -
  let ?schema = "[new_field ''source'' Utf8 True, new_field ''n'' Int32 True]"
  let ?r = "\<lparr>rec_table = ''t'', rec_values = [StaticText ''x'', I64 7], rec_target = None\<rparr>"
  obtain batch where b: "build_record_batch sample_arrow ?schema [?r] = Inr batch"
    by (simp add: build_record_batch_def sample_arrow_def new_field_def)
  have c: "\<forall>r \<in> set [?r]. conforms ?schema r"
    by (simp add: conforms_def new_field_def)
  from build_record_batch_readback [OF b c, of 0 0] build_record_batch_readback [OF b c, of 1 0] b
  show ?thesis by (auto simp: new_field_def too_wide_def)
qed

text \<open>Conforming records are never refused by the code itself, only by Arrow.\<close>

lemma column_array_total:
  "(\<And>p s. ty = Decimal128 p s \<Longrightarrow> precision_and_scale_ok lib p s) \<Longrightarrow> \<exists>a. column_array lib rs i ty = Inr a"
  by (cases ty) auto

lemma build_record_batch_total:
  assumes "\<forall>r \<in> set rs. conforms schema r"
    and "\<And>f p s. f \<in> set schema \<Longrightarrow> field_type f = Decimal128 p s \<Longrightarrow> precision_and_scale_ok lib p s"
    and "\<And>arrays. try_new_ok lib schema arrays"
  shows "\<exists>batch. build_record_batch lib schema rs = Inr batch"
proof -
  have count: "check_field_counts schema rs = Inr ()"
    using assms(1) by (simp add: check_field_counts_iff conforms_length)
  have "\<exists>a. column_array lib rs i (field_type f) = Inr a" if "f \<in> set schema" for i f
    using assms(2) [OF that] by (intro column_array_total) blast
  then have col: "column_array lib rs i (field_type f) = Inr (projr (column_array lib rs i (field_type f)))"
    if "f \<in> set schema" for i f
    using that by (metis sum.sel(2))
  have "result_map (\<lambda>(i, f). column_array lib rs i (field_type f)) (enumerate 0 schema)
      = Inr (map (\<lambda>(i, f). projr (column_array lib rs i (field_type f))) (enumerate 0 schema))"
    by (rule result_map_total) (auto simp: in_set_enumerate_eq intro!: col)
  with count assms(3) show ?thesis by (simp add: build_record_batch_def)
qed

subsection \<open>The schema cache\<close>

definition cache_ok :: "(string \<rightharpoonup> schema) option \<Rightarrow> bool" where
  "cache_ok cache \<longleftrightarrow> (case cache of None \<Rightarrow> True | Some m \<Rightarrow> parse_schemas = Inr m)"

definition uncached_schema :: "string \<Rightarrow> schema result" where
  "uncached_schema table =
     result_bind parse_schemas (\<lambda>m. with_context (m table) (''unknown table schema '' @ table))"

lemma schema_for_cached:
  assumes "cache_ok cache"
  shows "snd (schema_for cache table) = uncached_schema table" and "cache_ok (fst (schema_for cache table))"
proof -
  have "snd (schema_for cache table) = uncached_schema table \<and> cache_ok (fst (schema_for cache table))"
  proof (cases cache)
    case None
    show ?thesis
    proof (cases parse_schemas)
      case (Inl e)
      show ?thesis unfolding schema_for_def uncached_schema_def cache_ok_def None Inl by simp
    next
      case (Inr m)
      show ?thesis unfolding schema_for_def uncached_schema_def cache_ok_def None Inr by simp
    qed
  next
    case (Some m)
    with assms have m: "parse_schemas = Inr m" by (simp add: cache_ok_def)
    show ?thesis
      unfolding schema_for_def uncached_schema_def cache_ok_def Some m
      by (cases "m table") simp_all
  qed
  then show "snd (schema_for cache table) = uncached_schema table"
    and "cache_ok (fst (schema_for cache table))" by simp_all
qed

subsection \<open>Segments appear whole or not at all\<close>

lemma segment_name_extension: "file_extension (segment_name sequence) = Some ''parquet''"
proof -
  have "rsplit_once CHR ''.'' ((''segment-'' @ show_padded 10 (unat sequence)) @ CHR ''.'' # ''parquet'')
      = Some (''segment-'' @ show_padded 10 (unat sequence), ''parquet'')"
    by (rule rsplit_once_append) simp
  then show ?thesis by (simp add: segment_name_def file_extension_def)
qed

lemma segment_name_stem:
  "file_stem (segment_name sequence) = ''segment-'' @ show_padded 10 (unat sequence)"
proof -
  have "rsplit_once CHR ''.'' ((''segment-'' @ show_padded 10 (unat sequence)) @ CHR ''.'' # ''parquet'')
      = Some (''segment-'' @ show_padded 10 (unat sequence), ''parquet'')"
    by (rule rsplit_once_append) simp
  then show ?thesis by (simp add: segment_name_def file_stem_def)
qed

definition temporary_path :: "path \<Rightarrow> path" where
  "temporary_path p = with_extension p ''parquet.tmp''"

lemma temporary_path_segment:
  "temporary_path (dir @ [segment_name sequence]) = dir @ [segment_name sequence @ ''.tmp'']"
  by (simp add: temporary_path_def with_extension_def segment_name_stem)
    (simp add: segment_name_def)

lemma temporary_path_ne: "temporary_path (dir @ [segment_name sequence]) \<noteq> dir @ [segment_name sequence]"
  by (simp add: temporary_path_segment)

lemma write_segment_frame:
  "case write_segment cal lib io cache fs root exchange market h sequence table rs of
     (cache', fs', out) \<Rightarrow>
       (let p = segment_path cal root exchange market h sequence table
        in fs' |` (- {p, temporary_path p}) = fs |` (- {p, temporary_path p})
           \<and> (fs' p = fs p
              \<or> (\<exists>schema batch. snd (schema_for cache table) = Inr schema
                   \<and> build_record_batch lib schema rs = Inr batch
                   \<and> fs' p = Some (encode_parquet lib batch))))"
proof -
  let ?p = "segment_path cal root exchange market h sequence table"
  have ne: "temporary_path ?p \<noteq> ?p"
    by (simp add: segment_path_def temporary_path_ne)
  have path: "segment_directory cal root exchange market h table @ [segment_name sequence] = ?p"
    and tmp: "with_extension ?p ''parquet.tmp'' = temporary_path ?p"
    by (simp_all add: segment_path_def temporary_path_def)
  obtain cache' r where sf: "schema_for cache table = (cache', r)" by fastforce
  show ?thesis
    unfolding write_segment_def sf Let_def path tmp
    using ne
    by (auto simp: restrict_map_def fun_eq_iff split: sum.split)
qed

text \<open>A segment that is reported is there, complete, and its temporary file is gone.\<close>

lemma write_segment_success:
  assumes "write_segment cal lib io cache fs root exchange market h sequence table rs
      = (cache', fs', Inr seg)"
  shows "\<exists>schema batch. snd (schema_for cache table) = Inr schema
      \<and> build_record_batch lib schema rs = Inr batch
      \<and> fs' (seg_path seg) = Some (encode_parquet lib batch)
      \<and> fs' (temporary_path (seg_path seg)) = None
      \<and> seg_path seg = segment_path cal root exchange market h sequence table
      \<and> seg_rows seg = length rs \<and> seg_bytes seg = length (encode_parquet lib batch)
      \<and> seg_hour seg = h \<and> seg_market seg = market \<and> seg_table seg = table"
  using assms temporary_path_ne [of "segment_directory cal root exchange market h table" sequence]
  by (auto simp: write_segment_def Let_def segment_path_def temporary_path_def
      split: prod.splits sum.splits if_splits)

text \<open>An error leaves the path alone, unless only the size of the published file cannot be read.\<close>

lemma write_segment_error:
  assumes "write_segment cal lib io cache fs root exchange market h sequence table rs
      = (cache', fs', Inl e)"
  shows "fs' (segment_path cal root exchange market h sequence table) =
      fs (segment_path cal root exchange market h sequence table)
    \<or> e = ''metadata'' \<and> rename_ok io \<and> metadata_ok io = False"
  using assms temporary_path_ne [of "segment_directory cal root exchange market h table" sequence]
  by (auto simp: write_segment_def Let_def segment_path_def temporary_path_def
      split: prod.splits sum.splits if_splits)

text \<open>
  C16. Whatever fails, and whenever, \<open>write_segment\<close> leaves the segment's own path as it was or
  holding the complete encoded batch, never a part of it, and it touches no other file than that
  path and its \<open>.tmp\<close> companion. When it reports an error the path is as it was, with one
  exception: if reading the size of the renamed file fails, the segment is published and an error
  is reported. When it reports a segment, the path holds the complete batch and the companion is
  gone.
\<close>

theorem write_segment_atomic:
  "case write_segment cal lib io cache fs root exchange market h sequence table rs of
     (cache', fs', out) \<Rightarrow>
       (let p = segment_path cal root exchange market h sequence table;
            complete = (\<exists>schema batch. snd (schema_for cache table) = Inr schema
                   \<and> build_record_batch lib schema rs = Inr batch
                   \<and> fs' p = Some (encode_parquet lib batch))
        in fs' |` (- {p, temporary_path p}) = fs |` (- {p, temporary_path p})
           \<and> (fs' p = fs p \<or> complete)
           \<and> (case out of
                Inl e \<Rightarrow> fs' p = fs p \<or> e = ''metadata'' \<and> rename_ok io \<and> metadata_ok io = False
              | Inr seg \<Rightarrow> complete \<and> seg_path seg = p \<and> seg_rows seg = length rs
                  \<and> fs' (temporary_path p) = None))"
proof -
  obtain cache' fs' out where w:
    "write_segment cal lib io cache fs root exchange market h sequence table rs = (cache', fs', out)"
    using prod_cases3 by blast
  note frame = write_segment_frame [where cal = cal and lib = lib and io = io and cache = cache and fs = fs
      and root = root and exchange = exchange and market = market and h = h and sequence = sequence
      and table = table and rs = rs, unfolded w prod.case Let_def]
  note untouched = frame [THEN conjunct1] and whole = frame [THEN conjunct2]
  show ?thesis
  proof (cases out)
    case (Inl e)
    note err = write_segment_error [OF w [unfolded Inl]]
    show ?thesis unfolding w Inl prod.case Let_def sum.case by (intro conjI untouched whole err)
  next
    case (Inr seg)
    obtain schema batch where b: "snd (schema_for cache table) = Inr schema"
        "build_record_batch lib schema rs = Inr batch" "fs' (seg_path seg) = Some (encode_parquet lib batch)"
        "fs' (temporary_path (seg_path seg)) = None" "seg_rows seg = length rs"
        and p: "seg_path seg = segment_path cal root exchange market h sequence table"
      using write_segment_success [OF w [unfolded Inr]] by blast
    have "\<exists>schema batch. snd (schema_for cache table) = Inr schema \<and> build_record_batch lib schema rs = Inr batch
        \<and> fs' (segment_path cal root exchange market h sequence table) = Some (encode_parquet lib batch)"
      using b(1-3) unfolding p by blast
    then show ?thesis
      unfolding w Inr prod.case Let_def sum.case
      by (intro conjI untouched whole p b(5) b(4) [unfolded p])
  qed
qed

end
