(* ===== verification/Writer_System.thy ===== *)
theory Writer_System
  imports Writer Parquet_Store Runtime
begin

section \<open>The writer: queues, workers and the encoder\<close>

text \<open>
  The concurrent half of \<open>src/writer.rs\<close>. Three markets have a bounded queue of commands and a
  worker thread each; the workers share one encoder thread behind a bounded queue. A step of the
  system is one handler of one thread, or the delivery of one message; the threads interleave in
  any order. What a worker sends while it handles a command waits in its outbox, and a send
  to a full encoder queue blocks, so the worker does nothing else until the outbox is empty.

  The history fields record what the clients handed over (\<open>sy_accepted\<close>), what the encoder did
  (\<open>sy_done\<close>) and what had been accepted when a flush was requested (\<open>sy_promise\<close>); no step
  depends on them. A oneshot channel of the source is a ticket.
\<close>

subsection \<open>Messages and state\<close>

datatype command = Records "data_record list" | Tick | Flush nat

datatype encode_command = WriteJob encode_job | Barrier nat

text \<open>
  What a worker is doing: waiting for a command, about to handle a command after the hour was
  checked, waiting for the answer of the encoder's barrier, finished after the queue was closed,
  or stopped by an error in the middle of a command.
\<close>

datatype worker_phase = Idle | Rolled command | Awaiting nat | Finished | Crashed command

record worker_thread =
  th_state :: worker_state
  th_outbox :: "encode_command list"
  th_phase :: worker_phase

record writer_params =
  wp_options :: worker_options
  wp_capacity :: nat
  wp_encoder_capacity :: nat
  wp_layout :: layout
  wp_timelike :: timelike
  wp_calendar :: calendar
  wp_arrow :: arrow_lib
  wp_directory :: path
  wp_exchange :: string

record writer_system =
  sy_queue :: "market \<Rightarrow> command list"
  sy_thread :: "market \<Rightarrow> worker_thread"
  sy_encoder :: "encode_command list"
  sy_pending :: "error option"
  sy_barrier :: "nat \<Rightarrow> unit result option"
  sy_reply :: "nat \<Rightarrow> unit result option"
  sy_buffered_bytes :: u64
  sy_parquet_segments :: u64
  sy_parquet_bytes :: u64
  sy_metrics :: metrics
  sy_cache :: "(string \<rightharpoonup> schema) option"
  sy_files :: file_system
  sy_segments :: "segment list"
  sy_closed :: bool
  sy_accepted :: "market \<Rightarrow> data_record multiset"
  sy_done :: "(encode_job \<times> segment result) list"
  sy_promise :: "nat \<Rightarrow> (market \<times> data_record multiset) option"

subsection \<open>Starting\<close>

definition start_worker :: "timelike \<Rightarrow> market \<Rightarrow> datetime \<times> datetime \<Rightarrow> worker_thread" where
  "start_worker tm m now =
     (case initial_worker tm m (fst now) (snd now) of
        Inr st \<Rightarrow> \<lparr>th_state = st, th_outbox = [], th_phase = Idle\<rparr>
      | Inl _ \<Rightarrow> \<lparr>th_state = \<lparr>ws_market = m, ws_hour = fst now, ws_sequence = 0, ws_tables = [],
                                ws_buffered = 0\<rparr>,
                  th_outbox = [], th_phase = Crashed Tick\<rparr>)"

text \<open>
  \<open>Writer::start\<close>. \<open>None\<close> is the panic of \<open>mpsc::channel(0)\<close>. \<open>mkdir\<close> says whether the directory
  could be made, \<open>spawned\<close> whether the encoder's thread and the workers' threads were started.
\<close>

definition writer_start ::
  "writer_params \<Rightarrow> bool \<Rightarrow> bool \<times> bool \<Rightarrow> (market \<Rightarrow> datetime \<times> datetime) \<Rightarrow> file_system \<Rightarrow> metrics \<Rightarrow>
   writer_system result option" where
  "writer_start p mkdir spawned now fs ms =
     (if \<not> mkdir then Some (Inl ''create Parquet data directory'')
      else if \<not> fst spawned then Some (Inl ''start Parquet encoder thread'')
      else if wp_capacity p = 0 then None
      else if \<not> snd spawned then Some (Inl ''start Parquet writer thread'')
      else Some (Inr
        \<lparr>sy_queue = (\<lambda>_. []), sy_thread = (\<lambda>m. start_worker (wp_timelike p) m (now m)),
         sy_encoder = [], sy_pending = None, sy_barrier = (\<lambda>_. None), sy_reply = (\<lambda>_. None),
         sy_buffered_bytes = 0, sy_parquet_segments = 0, sy_parquet_bytes = 0,
         sy_metrics = ms, sy_cache = None, sy_files = fs, sy_segments = [], sy_closed = False,
         sy_accepted = (\<lambda>_. {#}), sy_done = [], sy_promise = (\<lambda>_. None)\<rparr>))"

subsection \<open>The clients\<close>

definition receiving :: "worker_phase \<Rightarrow> bool" where
  "receiving ph \<longleftrightarrow> (case ph of Finished \<Rightarrow> False | Crashed _ \<Rightarrow> False | _ \<Rightarrow> True)"

text \<open>
  The delivery of one command into a market's queue; \<open>None\<close> means that it cannot happen now
  (the queue is full: the sender waits) or not at all (the receiver or every sender is gone).
  Batches whose size would overflow the address space do not exist. The timer of a worker panics
  before its first tick when the interval is zero.
\<close>

definition send_command ::
  "writer_params \<Rightarrow> market \<Rightarrow> command \<Rightarrow> writer_system \<Rightarrow> writer_system option" where
  "send_command p m cmd s =
     (if sy_closed s \<or> \<not> receiving (th_phase (sy_thread s m)) \<or> length (sy_queue s m) \<ge> wp_capacity p
      then None
      else
        (let s' = s\<lparr>sy_queue := (sy_queue s)(m := sy_queue s m @ [cmd])\<rparr> in
         case cmd of
           Records rs \<Rightarrow>
             if opt_buffer_bytes (wp_options p) + batch_bytes (wp_layout p) rs \<le> usize_max
             then Some (s'\<lparr>sy_accepted := (sy_accepted s)(m := sy_accepted s m + mset rs)\<rparr>)
             else None
         | Tick \<Rightarrow> if 0 < opt_flush_interval (wp_options p) then Some s' else None
         | Flush t \<Rightarrow>
             if sy_promise s t = None
             then Some (s'\<lparr>sy_promise := (sy_promise s)(t \<mapsto> (m, sy_accepted s m))\<rparr>)
             else None))"

text \<open>\<open>observe_queue\<close>: the permits of the three channels that are taken.\<close>

definition queue_depth :: "writer_system \<Rightarrow> nat" where
  "queue_depth s = sum_list (map (\<lambda>m. length (sy_queue s m)) [Spot, Usdm, Coinm])"

definition observe_queue :: "writer_system \<Rightarrow> writer_system" where
  "observe_queue s = s\<lparr>sy_metrics := observe_writer_queue (of_nat (queue_depth s)) (sy_metrics s)\<rparr>"

text \<open>
  \<open>Writer::flush\<close>: one market after the other, each with a ticket of its own. \<open>answer\<close> is what
  the market's flush came to: the channel closed, the response dropped, or the response.
\<close>

datatype flush_answer = SendFailed | ResponseDropped | Response "unit result"

fun flush_markets :: "(market \<Rightarrow> flush_answer) \<Rightarrow> market list \<Rightarrow> unit result" where
  "flush_markets answer [] = Inr ()"
| "flush_markets answer (m # ms) =
     (case answer m of
        SendFailed \<Rightarrow> Inl ''Parquet writer stopped''
      | ResponseDropped \<Rightarrow> Inl ''Parquet writer dropped flush response''
      | Response (Inl e) \<Rightarrow> Inl e
      | Response (Inr _) \<Rightarrow> flush_markets answer ms)"

definition writer_flush :: "(market \<Rightarrow> flush_answer) \<Rightarrow> unit result" where
  "writer_flush answer = flush_markets answer [Spot, Usdm, Coinm]"

definition writer_stats :: "writer_params \<Rightarrow> writer_system \<Rightarrow> json" where
  "writer_stats p s = JObject
     [(''format'', JString ''parquet_segments''),
      (''buffered_bytes'', JInt (uint (sy_buffered_bytes s))),
      (''segments'', JInt (uint (sy_parquet_segments s))),
      (''parquet_bytes'', JInt (uint (sy_parquet_bytes s))),
      (''directory'', JString (join_on CHR ''/'' (wp_directory p @ [wp_exchange p])))]"

subsection \<open>A worker\<close>

text \<open>
  The handling of one command after the hour was checked: the new state, what is sent to the
  encoder, what the worker does next, and by how much the shared byte counter grows. The encoder
  thread outlives the workers, so every send succeeds in the end.
\<close>

definition handle_command ::
  "writer_params \<Rightarrow> table_order \<Rightarrow> (nat \<Rightarrow> int) \<Rightarrow> (string \<Rightarrow> int) \<Rightarrow> command \<Rightarrow> worker_state \<Rightarrow>
   (worker_state \<times> encode_command list \<times> worker_phase \<times> nat) option" where
  "handle_command p order seen clock cmd st =
     (case cmd of
        Records rs \<Rightarrow>
          (case handle_records (wp_options p) (wp_layout p) order True seen rs st of
             None \<Rightarrow> None
           | Some (st', jobs, out) \<Rightarrow>
               Some (st', map WriteJob jobs, case out of Inr _ \<Rightarrow> Idle | Inl _ \<Rightarrow> Crashed cmd,
                     batch_bytes (wp_layout p) rs))
      | Tick \<Rightarrow>
          (case flush_expired order True clock (opt_flush_interval (wp_options p)) st of
             (st', jobs, out) \<Rightarrow>
               Some (st', map WriteJob jobs, case out of Inr _ \<Rightarrow> Idle | Inl _ \<Rightarrow> Crashed cmd, 0))
      | Flush t \<Rightarrow>
          (case flush_all order True st of
             (st', jobs, Inr _) \<Rightarrow> Some (st', map WriteJob jobs @ [Barrier t], Awaiting t, 0)
           | (st', jobs, Inl _) \<Rightarrow> Some (st', map WriteJob jobs, Crashed cmd, 0)))"

text \<open>
  \<open>sync_channel\<close>: a channel of capacity 0 has no queue, but hands one message to the encoder when
  it waits for one.
\<close>

definition encoder_slots :: "writer_params \<Rightarrow> nat" where
  "encoder_slots p = max 1 (wp_encoder_capacity p)"

text \<open>
  The next step of a worker: deliver what waits in the outbox, take a command and check the
  hour, handle it, pass on the answer of a barrier, or flush a last time once the queue is
  closed and empty.
\<close>

definition worker_step ::
  "writer_params \<Rightarrow> table_order \<Rightarrow> datetime \<Rightarrow> (nat \<Rightarrow> int) \<Rightarrow> (string \<Rightarrow> int) \<Rightarrow> market \<Rightarrow>
   writer_system \<Rightarrow> writer_system option" where
  "worker_step p order now seen clock m s =
     (let th = sy_thread s m;
          become = (\<lambda>th'. s\<lparr>sy_thread := (sy_thread s)(m := th')\<rparr>) in
      case th_outbox th of
        c # cs \<Rightarrow>
          if length (sy_encoder s) < encoder_slots p
          then Some ((become (th\<lparr>th_outbox := cs\<rparr>))\<lparr>sy_encoder := sy_encoder s @ [c]\<rparr>)
          else None
      | [] \<Rightarrow>
          (case th_phase th of
             Idle \<Rightarrow>
               (case sy_queue s m of
                  cmd # cmds \<Rightarrow>
                    (case roll_hour (wp_timelike p) order True now (th_state th) of
                       (st, jobs, out) \<Rightarrow>
                         Some ((become \<lparr>th_state = st, th_outbox = map WriteJob jobs,
                                  th_phase = (case out of Inr _ \<Rightarrow> Rolled cmd | Inl _ \<Rightarrow> Crashed cmd)\<rparr>)
                               \<lparr>sy_queue := (sy_queue s)(m := cmds)\<rparr>))
                | [] \<Rightarrow>
                    if sy_closed s
                    then (case flush_all order True (th_state th) of
                            (st, jobs, _) \<Rightarrow>
                              Some (become \<lparr>th_state = st, th_outbox = map WriteJob jobs,
                                            th_phase = Finished\<rparr>))
                    else None)
           | Rolled cmd \<Rightarrow>
               (case handle_command p order seen clock cmd (th_state th) of
                  None \<Rightarrow> None
                | Some (st, sent, ph, added) \<Rightarrow>
                    Some ((become \<lparr>th_state = st, th_outbox = sent, th_phase = ph\<rparr>)
                          \<lparr>sy_buffered_bytes := sy_buffered_bytes s + of_nat added\<rparr>))
           | Awaiting t \<Rightarrow>
               (case sy_barrier s t of
                  None \<Rightarrow> None
                | Some r \<Rightarrow>
                    Some ((become (th\<lparr>th_phase := Idle\<rparr>))\<lparr>sy_reply := (sy_reply s)(t \<mapsto> r)\<rparr>))
           | _ \<Rightarrow> None))"

subsection \<open>The encoder\<close>

definition encode_write :: "writer_params \<Rightarrow> segment_io \<Rightarrow> encode_job \<Rightarrow> writer_system \<Rightarrow> writer_system" where
  "encode_write p io j s =
     (case write_segment (wp_calendar p) (wp_arrow p) io (sy_cache s) (sy_files s) (wp_directory p)
             (wp_exchange p) (job_market j) (job_hour j) (job_sequence j) (job_table j) (job_records j) of
        (cache, fs, out) \<Rightarrow>
          (let s = s\<lparr>sy_cache := cache, sy_files := fs,
                     sy_buffered_bytes := sy_buffered_bytes s - of_nat (job_bytes j),
                     sy_done := sy_done s @ [(j, out)]\<rparr> in
           case out of
             Inr seg \<Rightarrow>
               s\<lparr>sy_metrics := (sy_metrics s)\<lparr>written_records :=
                     written_records (sy_metrics s) + of_nat (seg_rows seg)\<rparr>,
                 sy_parquet_segments := sy_parquet_segments s + 1,
                 sy_parquet_bytes := sy_parquet_bytes s + of_nat (seg_bytes seg),
                 sy_segments := sy_segments s @ [seg]\<rparr>
           | Inl e \<Rightarrow>
               s\<lparr>sy_pending := (case sy_pending s of None \<Rightarrow> Some e | Some e' \<Rightarrow> Some e')\<rparr>))"

definition encode_barrier :: "nat \<Rightarrow> writer_system \<Rightarrow> writer_system" where
  "encode_barrier t s =
     s\<lparr>sy_barrier := (sy_barrier s)(t \<mapsto> (case sy_pending s of None \<Rightarrow> Inr () | Some e \<Rightarrow> Inl e)),
       sy_pending := None\<rparr>"

definition encoder_step :: "writer_params \<Rightarrow> segment_io \<Rightarrow> writer_system \<Rightarrow> writer_system option" where
  "encoder_step p io s =
     (case sy_encoder s of
        [] \<Rightarrow> None
      | WriteJob j # rest \<Rightarrow> Some (encode_write p io j (s\<lparr>sy_encoder := rest\<rparr>))
      | Barrier t # rest \<Rightarrow> Some (encode_barrier t (s\<lparr>sy_encoder := rest\<rparr>)))"

subsection \<open>Runs\<close>

inductive writer_step :: "writer_params \<Rightarrow> writer_system \<Rightarrow> writer_system \<Rightarrow> bool" for p where
  client: "send_command p m cmd s = Some s' \<Longrightarrow> writer_step p s s'"
| observe: "writer_step p s (observe_queue s)"
| worker: "iteration_order order \<Longrightarrow> worker_step p order now seen clock m s = Some s' \<Longrightarrow>
    writer_step p s s'"
| encoder: "encoder_step p io s = Some s' \<Longrightarrow> writer_step p s s'"
| close: "writer_step p s (s\<lparr>sy_closed := True\<rparr>)"

inductive writer_reachable :: "writer_params \<Rightarrow> writer_system \<Rightarrow> bool" for p where
  start: "writer_start p mkdir spawned now fs ms = Some (Inr s) \<Longrightarrow> writer_reachable p s"
| step: "writer_reachable p s \<Longrightarrow> writer_step p s s' \<Longrightarrow> writer_reachable p s'"

inductive_cases writer_stepE: "writer_step p s s'"

end
