(* ===== verification/Writer_Safety.thy ===== *)
theory Writer_Safety
  imports Writer_System
begin

section \<open>No record is lost between a client and the encoder\<close>

text \<open>
  Invariants of the system of \<open>Writer_System\<close> over every interleaving. The abstraction is one
  pipeline per market: the data and flush marks on their way to the encoder, oldest first.
\<close>

subsection \<open>Pipelines\<close>

datatype item = Data "data_record multiset" | Mark nat

fun weight :: "item list \<Rightarrow> data_record multiset" where
  "weight [] = {#}"
| "weight (Data d # xs) = d + weight xs"
| "weight (Mark t # xs) = weight xs"

text \<open>
  Behind every mark of the ticket \<open>t\<close> lies exactly what the pipeline took in after \<open>P\<close> had been
  accepted; \<open>A\<close> is everything accepted.
\<close>

fun settled :: "nat \<Rightarrow> data_record multiset \<Rightarrow> data_record multiset \<Rightarrow> item list \<Rightarrow> bool" where
  "settled t P A [] = True"
| "settled t P A (Data d # xs) = settled t P A xs"
| "settled t P A (Mark u # xs) = ((u = t \<longrightarrow> P + weight xs = A) \<and> settled t P A xs)"

fun marks :: "item list \<Rightarrow> nat set" where
  "marks [] = {}"
| "marks (Data d # xs) = marks xs"
| "marks (Mark t # xs) = insert t (marks xs)"

lemma weight_append [simp]: "weight (xs @ ys) = weight xs + weight ys"
  by (induction xs rule: weight.induct) (simp_all add: ac_simps)

lemma marks_append [simp]: "marks (xs @ ys) = marks xs \<union> marks ys"
  by (induction xs rule: marks.induct) simp_all

lemma settled_no_mark [simp]: "t \<notin> marks xs \<Longrightarrow> settled t P A xs"
  by (induction xs rule: marks.induct) auto

lemma settled_append:
  "settled t P A (xs @ ys) \<longleftrightarrow> settled t (P + weight ys) A xs \<and> settled t P A ys"
  by (induction xs rule: marks.induct) (auto simp: ac_simps)

lemma settled_accept: "settled t (P + d) (A + d) xs \<longleftrightarrow> settled t P A xs"
proof (induction xs rule: marks.induct)
  case (3 u xs)
  have "P + d + weight xs = A + d \<longleftrightarrow> P + weight xs = A"
    by (metis add.assoc add.commute add_right_cancel)
  with 3 show ?case by simp
qed simp_all

subsection \<open>The pipeline of a market\<close>

fun command_items :: "command \<Rightarrow> item list" where
  "command_items (Records rs) = [Data (mset rs)]"
| "command_items Tick = []"
| "command_items (Flush t) = [Mark t]"

fun encode_items :: "market \<Rightarrow> encode_command \<Rightarrow> item list" where
  "encode_items m (WriteJob j) = (if job_market j = m then [Data (mset (job_records j))] else [])"
| "encode_items m (Barrier t) = [Mark t]"

fun phase_items :: "worker_phase \<Rightarrow> item list" where
  "phase_items (Rolled cmd) = command_items cmd"
| "phase_items (Crashed cmd) = command_items cmd"
| "phase_items _ = []"

definition items :: "market \<Rightarrow> encode_command list \<Rightarrow> item list" where
  "items m cs = concat (map (encode_items m) cs)"

definition thread_items :: "market \<Rightarrow> worker_thread \<Rightarrow> item list" where
  "thread_items m th = items m (th_outbox th) @
     Data (buffered_records (ws_tables (th_state th))) # phase_items (th_phase th)"

definition local_items :: "market \<Rightarrow> worker_thread \<Rightarrow> command list \<Rightarrow> item list" where
  "local_items m th q = thread_items m th @ concat (map command_items q)"

definition pipeline :: "market \<Rightarrow> writer_system \<Rightarrow> item list" where
  "pipeline m s = items m (sy_encoder s) @ local_items m (sy_thread s m) (sy_queue s m)"

definition done_records :: "market \<Rightarrow> writer_system \<Rightarrow> data_record multiset" where
  "done_records m s = jobs_records (filter (\<lambda>j. job_market j = m) (map fst (sy_done s)))"

lemma items_simps [simp]:
  "items m [] = []" "items m (c # cs) = encode_items m c @ items m cs"
  "items m (cs @ ds) = items m cs @ items m ds"
  by (simp_all add: items_def)

lemma items_jobs:
  assumes "list_all (\<lambda>j. job_market j = m) jobs"
  shows "weight (items m (map WriteJob jobs)) = jobs_records jobs"
    and "marks (items m (map WriteJob jobs)) = {}"
  using assms by (induction jobs) (simp_all add: jobs_records_def)

subsection \<open>The invariant\<close>

fun command_fits :: "writer_params \<Rightarrow> command \<Rightarrow> bool" where
  "command_fits p (Records rs) =
     (opt_buffer_bytes (wp_options p) + batch_bytes (wp_layout p) rs \<le> usize_max)"
| "command_fits p _ = True"

fun phase_fits :: "writer_params \<Rightarrow> worker_phase \<Rightarrow> bool" where
  "phase_fits p (Rolled cmd) = command_fits p cmd"
| "phase_fits p _ = True"

fun encode_ok :: "layout \<Rightarrow> market \<Rightarrow> encode_command \<Rightarrow> bool" where
  "encode_ok l m (WriteJob j) = (job_market j = m \<and> job_ok l j)"
| "encode_ok l m (Barrier t) = True"

definition thread_ok :: "writer_params \<Rightarrow> market \<Rightarrow> worker_thread \<Rightarrow> bool" where
  "thread_ok p m th \<longleftrightarrow>
     worker_ok (wp_layout p) (th_state th) \<and> ws_market (th_state th) = m
     \<and> ws_buffered (th_state th) \<le> opt_buffer_bytes (wp_options p)
     \<and> phase_fits p (th_phase th) \<and> list_all (encode_ok (wp_layout p) m) (th_outbox th)"

definition promised :: "writer_system \<Rightarrow> market \<Rightarrow> nat \<Rightarrow> bool" where
  "promised s m t \<longleftrightarrow> (\<exists>P. sy_promise s t = Some (m, P))"

definition market_inv :: "writer_params \<Rightarrow> writer_system \<Rightarrow> market \<Rightarrow> bool" where
  "market_inv p s m \<longleftrightarrow>
     thread_ok p m (sy_thread s m) \<and> list_all (command_fits p) (sy_queue s m)
     \<and> done_records m s + weight (pipeline m s) = sy_accepted s m
     \<and> (\<forall>t\<in>marks (local_items m (sy_thread s m) (sy_queue s m)). promised s m t)
     \<and> (\<forall>t P. sy_promise s t = Some (m, P) \<longrightarrow>
          settled t P (sy_accepted s m) (pipeline m s)
          \<and> (sy_barrier s t \<noteq> None \<or> sy_reply s t \<noteq> None \<longrightarrow> P \<subseteq># done_records m s))"

definition ticket_inv :: "writer_system \<Rightarrow> bool" where
  "ticket_inv s \<longleftrightarrow>
     (\<forall>t. Barrier t \<in> set (sy_encoder s) \<or> sy_barrier s t \<noteq> None \<or> sy_reply s t \<noteq> None \<longrightarrow>
        sy_promise s t \<noteq> None)"

definition writer_inv :: "writer_params \<Rightarrow> writer_system \<Rightarrow> bool" where
  "writer_inv p s \<longleftrightarrow> (\<forall>m. market_inv p s m) \<and> ticket_inv s"

lemma items_marks: "t \<in> marks (items m cs) \<longleftrightarrow> Barrier t \<in> set cs"
proof (induction cs)
  case (Cons c cs)
  then show ?case by (cases c) auto
qed simp

subsection \<open>Steps of one worker\<close>

text \<open>
  A step that changes one worker and its queue keeps the invariant if the items of that worker
  weigh the same, gain no mark and leave every mark settled.
\<close>

lemma local_step:
  assumes inv: "writer_inv p s"
    and frame: "sy_encoder s' = sy_encoder s" "sy_done s' = sy_done s" "sy_accepted s' = sy_accepted s"
      "sy_promise s' = sy_promise s" "sy_barrier s' = sy_barrier s"
    and thread: "sy_thread s' = (sy_thread s)(m := th)" and queue: "sy_queue s' = (sy_queue s)(m := q)"
    and reply: "\<And>t. sy_reply s' t \<noteq> None \<Longrightarrow> sy_reply s t \<noteq> None \<or> sy_barrier s t \<noteq> None"
    and ok: "thread_ok p m th" "list_all (command_fits p) q"
    and weight: "weight (local_items m th q) = weight (local_items m (sy_thread s m) (sy_queue s m))"
    and marks: "marks (local_items m th q) \<subseteq> marks (local_items m (sy_thread s m) (sy_queue s m))"
    and settled: "\<And>t P A. settled t P A (local_items m (sy_thread s m) (sy_queue s m)) \<Longrightarrow>
      settled t P A (local_items m th q)"
  shows "writer_inv p s'"
proof -
  have "market_inv p s' k" for k
  proof -
    have m: "market_inv p s k" using inv by (simp add: writer_inv_def)
    have recs: "done_records k s' = done_records k s" by (simp add: done_records_def frame)
    have pipe: "weight (pipeline k s') = weight (pipeline k s)"
      using weight by (cases "k = m") (simp_all add: pipeline_def frame thread queue)
    have settled': "settled t P A (pipeline k s')" if "settled t P A (pipeline k s)" for t P A
    proof (cases "k = m")
      case True
      then show ?thesis
        using that settled [of t P A] weight
        by (simp add: pipeline_def frame thread queue settled_append)
    next
      case False
      then show ?thesis using that by (simp add: pipeline_def frame thread queue)
    qed
    have tickets: "settled t P (sy_accepted s k) (pipeline k s')
        \<and> (sy_barrier s t \<noteq> None \<or> sy_reply s' t \<noteq> None \<longrightarrow> P \<subseteq># done_records k s)"
      if "sy_promise s t = Some (k, P)" for t P
      using m that settled' [of t P "sy_accepted s k"] reply [of t]
      unfolding market_inv_def by blast
    have local: "thread_ok p k (sy_thread s' k) \<and> list_all (command_fits p) (sy_queue s' k)
        \<and> (\<forall>t\<in>marks (local_items k (sy_thread s' k) (sy_queue s' k)). promised s k t)"
      using m ok marks by (cases "k = m") (auto simp: market_inv_def thread queue)
    have same: "promised s' k = promised s k" by (simp add: fun_eq_iff promised_def frame)
    show ?thesis
      using m local tickets unfolding market_inv_def recs pipe frame same by blast
  qed
  moreover have "ticket_inv s'"
    using inv reply by (fastforce simp: writer_inv_def ticket_inv_def frame)
  ultimately show ?thesis by (simp add: writer_inv_def)
qed

lemma jobs_of_ok:
  assumes "jobs_of l st jobs" and "ws_market st = m"
  shows "list_all (encode_ok l m) (map WriteJob jobs)" and "list_all (\<lambda>j. job_market j = m) jobs"
  using assms by (auto simp: jobs_of_def list_all_iff)

text \<open>What a flush of a worker that is ready does to the items.\<close>

lemma flush_items:
  assumes "flushed l st st' jobs" and "ws_market st = m"
  shows "weight (items m (map WriteJob jobs) @ [Data (buffered_records (ws_tables st'))]) =
      buffered_records (ws_tables st)"
    and "marks (items m (map WriteJob jobs)) = {}"
    and "list_all (encode_ok l m) (map WriteJob jobs)"
  using assms jobs_of_ok [of l st jobs m] items_jobs [of m jobs]
  by (simp_all add: flushed_def ac_simps)

lemma settled_prefix:
  "marks xs = {} \<Longrightarrow> settled t P A (xs @ ys) \<longleftrightarrow> settled t P A ys"
  by (simp add: settled_append)

lemma market_invD:
  assumes "writer_inv p s"
  shows "thread_ok p m (sy_thread s m)" and "list_all (command_fits p) (sy_queue s m)"
  using assms by (simp_all add: writer_inv_def market_inv_def)

lemma roll_hour_contract:
  assumes "worker_ok l st" and "iteration_order order"
    and "roll_hour tm order True now st = (st', jobs, out)"
  shows "\<exists>mid. worker_ok l st' \<and> flushed l st mid jobs \<and> ws_tables st' = ws_tables mid
    \<and> ws_buffered st' = ws_buffered mid \<and> ws_market st' = ws_market st
    \<and> ws_sequence st' = ws_sequence mid"
proof (cases "floor_hour tm now")
  case (Inl e)
  with assms show ?thesis by (auto simp: roll_hour_def intro!: exI [of _ st] flushed_refl)
next
  case (Inr h)
  show ?thesis
  proof (cases "h > ws_hour st")
    case False
    with assms Inr show ?thesis by (auto simp: roll_hour_def intro!: exI [of _ st] flushed_refl)
  next
    case True
    obtain mid js o1 where f: "flush_all order True st = (mid, js, o1)"
      by (cases "flush_all order True st")
    note c = flush_all_contract [OF assms(1,2) f]
    have "st' = mid\<lparr>ws_hour := h\<rparr>" and "jobs = js"
      using assms(3) Inr True f c by (auto simp: roll_hour_def)
    with c show ?thesis by (intro exI [of _ mid]) (auto simp: worker_ok_def flushed_def)
  qed
qed

text \<open>Taking a command, or the last flush: the buffer gives up jobs, the rest stays.\<close>

lemma local_flush:
  assumes ok: "thread_ok p m th" and out: "th_outbox th = []"
    and flush: "flushed (wp_layout p) (th_state th) mid jobs"
    and st: "worker_ok (wp_layout p) st" "ws_tables st = ws_tables mid" "ws_buffered st = ws_buffered mid"
      "ws_market st = ws_market (th_state th)"
    and ph: "phase_items ph @ concat (map command_items q') =
        phase_items (th_phase th) @ concat (map command_items q)"
    and th': "th' = \<lparr>th_state = st, th_outbox = map WriteJob jobs, th_phase = ph\<rparr>"
    and fits: "phase_fits p ph"
  shows "thread_ok p m th'"
    and "weight (local_items m th' q') = weight (local_items m th q)"
    and "marks (local_items m th' q') = marks (local_items m th q)"
    and "settled t P A (local_items m th' q') \<longleftrightarrow> settled t P A (local_items m th q)"
proof -
  have m: "ws_market (th_state th) = m" using ok by (simp add: thread_ok_def)
  note f = flush_items [OF flush m]
  have le: "ws_buffered mid \<le> ws_buffered (th_state th)" using flush by (simp add: flushed_def)
  with ok st fits f(3) m show "thread_ok p m th'" by (auto simp: thread_ok_def th')
  have new: "local_items m th' q' =
      (items m (map WriteJob jobs) @ [Data (buffered_records (ws_tables mid))]) @
      (phase_items (th_phase th) @ concat (map command_items q))"
    using ph by (simp add: local_items_def thread_items_def th' st)
  have old: "local_items m th q = [Data (buffered_records (ws_tables (th_state th)))] @
      (phase_items (th_phase th) @ concat (map command_items q))"
    by (simp add: local_items_def thread_items_def out)
  show "weight (local_items m th' q') = weight (local_items m th q)"
    unfolding new old weight_append [of "_ @ [Data _]"] f(1) by simp
  show "marks (local_items m th' q') = marks (local_items m th q)"
    unfolding new old by (simp add: f(2))
  show "settled t P A (local_items m th' q') \<longleftrightarrow> settled t P A (local_items m th q)"
    unfolding new old by (simp add: settled_prefix f(2))
qed

lemma take_inv:
  assumes inv: "writer_inv p s" and ord: "iteration_order order"
    and out: "th_outbox (sy_thread s m) = []" and ph: "th_phase (sy_thread s m) = Idle"
    and q: "sy_queue s m = cmd # cmds"
    and roll: "roll_hour tm order True now (th_state (sy_thread s m)) = (st, jobs, r)"
  shows "writer_inv p (s\<lparr>sy_thread := (sy_thread s)(m :=
      \<lparr>th_state = st, th_outbox = map WriteJob jobs,
       th_phase = (case r of Inr _ \<Rightarrow> Rolled cmd | Inl _ \<Rightarrow> Crashed cmd)\<rparr>),
      sy_queue := (sy_queue s)(m := cmds)\<rparr>)"
proof -
  let ?ph = "case r of Inr _ \<Rightarrow> Rolled cmd | Inl _ \<Rightarrow> Crashed cmd"
  note I = market_invD [OF inv, of m]
  obtain mid where mid: "worker_ok (wp_layout p) st" "flushed (wp_layout p) (th_state (sy_thread s m)) mid jobs"
      "ws_tables st = ws_tables mid" "ws_buffered st = ws_buffered mid"
      "ws_market st = ws_market (th_state (sy_thread s m))"
    using roll_hour_contract [OF _ ord roll, of "wp_layout p"] I(1) by (auto simp: thread_ok_def)
  have fits: "phase_fits p ?ph" using I(2) q by (auto split: sum.splits)
  have items: "phase_items ?ph @ concat (map command_items cmds) =
      phase_items (th_phase (sy_thread s m)) @ concat (map command_items (sy_queue s m))"
    by (simp add: ph q split: sum.splits)
  note L = local_flush [OF I(1) out mid(2,1,3,4,5) items refl fits]
  show ?thesis
    by (rule local_step [OF inv, where m = m and q = cmds and
          th = "\<lparr>th_state = st, th_outbox = map WriteJob jobs, th_phase = ?ph\<rparr>"])
      (use L I(2) q in simp_all)
qed

lemma finish_inv:
  assumes inv: "writer_inv p s" and ord: "iteration_order order"
    and out: "th_outbox (sy_thread s m) = []" and ph: "th_phase (sy_thread s m) = Idle"
    and flush: "flush_all order True (th_state (sy_thread s m)) = (st, jobs, r)"
  shows "writer_inv p (s\<lparr>sy_thread := (sy_thread s)(m :=
      \<lparr>th_state = st, th_outbox = map WriteJob jobs, th_phase = Finished\<rparr>)\<rparr>)"
proof -
  note I = market_invD [OF inv, of m]
  have c: "worker_ok (wp_layout p) st" "flushed (wp_layout p) (th_state (sy_thread s m)) st jobs"
    using flush_all_contract [OF _ ord flush, of "wp_layout p"] I(1) by (auto simp: thread_ok_def)
  then have market: "ws_market st = ws_market (th_state (sy_thread s m))" by (simp add: flushed_def)
  have items: "phase_items Finished @ concat (map command_items (sy_queue s m)) =
      phase_items (th_phase (sy_thread s m)) @ concat (map command_items (sy_queue s m))"
    by (simp add: ph)
  note L = local_flush [OF I(1) out c(2,1) refl refl market items refl]
  show ?thesis
    by (rule local_step [OF inv, where m = m and q = "sy_queue s m" and
          th = "\<lparr>th_state = st, th_outbox = map WriteJob jobs, th_phase = Finished\<rparr>"])
      (use L I(2) in simp_all)
qed

text \<open>
  Handling a command: new jobs in front of what stays buffered, then the queue. The marks keep
  what lies behind them.
\<close>

definition items_kept :: "item list \<Rightarrow> item list \<Rightarrow> bool" where
  "items_kept old new \<longleftrightarrow> weight new = weight old \<and> marks new = marks old
     \<and> (\<forall>t P A. settled t P A old \<longrightarrow> settled t P A new)"

lemma items_keptI:
  assumes "weight xs + weight xs' = weight ys + weight ys'" and "marks xs = {}" and "marks ys = {}"
    and "marks xs' = {}" and "marks ys' = {}" and "marks k = {} \<or> weight xs' = {#} \<and> weight ys' = {#}"
  shows "items_kept (ys @ k @ ys' @ q) (xs @ k @ xs' @ q)"
  using assms by (auto simp: items_kept_def settled_append ac_simps)

lemma items_kept_prefix: "items_kept old new \<Longrightarrow> items_kept (old @ q) (new @ q)"
  by (auto simp: items_kept_def settled_append)

text \<open>The jobs among what is sent, and how they follow from the worker's counters.\<close>

fun jobs_in :: "encode_command list \<Rightarrow> encode_job list" where
  "jobs_in [] = []"
| "jobs_in (WriteJob j # cs) = j # jobs_in cs"
| "jobs_in (Barrier t # cs) = jobs_in cs"

lemma jobs_in_append [simp]: "jobs_in (cs @ ds) = jobs_in cs @ jobs_in ds"
  by (induction cs rule: jobs_in.induct) simp_all

lemma jobs_in_map [simp]: "jobs_in (map WriteJob jobs) = jobs"
  by (induction jobs) simp_all

definition counted :: "worker_state \<Rightarrow> nat \<Rightarrow> worker_state \<Rightarrow> encode_job list \<Rightarrow> bool" where
  "counted st added st' jobs \<longleftrightarrow>
     ws_buffered st' + jobs_bytes jobs = ws_buffered st + added
     \<and> ws_sequence st' = ws_sequence st + of_nat (length jobs)
     \<and> map job_sequence jobs = map (\<lambda>i. ws_sequence st + of_nat (Suc i)) [0..<length jobs]"

lemma flushed_counted: "flushed l st st' jobs \<Longrightarrow> counted st 0 st' jobs"
  by (simp add: flushed_def counted_def jobs_of_def)

definition handled ::
  "writer_params \<Rightarrow> market \<Rightarrow> worker_thread \<Rightarrow> worker_thread \<Rightarrow> nat \<Rightarrow> bool" where
  "handled p m th th' added \<longleftrightarrow>
     thread_ok p m th' \<and> items_kept (thread_items m th) (thread_items m th')
     \<and> counted (th_state th) added (th_state th') (jobs_in (th_outbox th'))"

lemma handle_records_handled:
  assumes ok: "thread_ok p m th" and out: "th_outbox th = []" and ph: "th_phase th = Rolled (Records rs)"
    and ord: "iteration_order order" and pos: "0 < opt_buffer_bytes (wp_options p)"
    and handle: "handle_command p order seen clock (Records rs) (th_state th) = Some (st, sent, ph', added)"
  shows "handled p m th \<lparr>th_state = st, th_outbox = sent, th_phase = ph'\<rparr> added"
proof -
  let ?l = "wp_layout p"
  have wok: "worker_ok ?l (th_state th)" and m: "ws_market (th_state th) = m"
    and fits: "ws_buffered (th_state th) + batch_bytes ?l rs \<le> usize_max"
    using ok ph by (auto simp: thread_ok_def)
  obtain jobs where h: "handle_records (wp_options p) ?l order True seen rs (th_state th) = Some (st, jobs, Inr ())"
      "worker_ok ?l st" "flushed ?l (buffer_records ?l seen 0 rs (th_state th)) st jobs"
      "ws_buffered st < opt_buffer_bytes (wp_options p)"
    and sent: "sent = map WriteJob jobs" "ph' = Idle" "added = batch_bytes ?l rs"
    using handle handle_records_cases [OF wok ord pos fits, of seen]
    by (auto simp: handle_command_def)
  note b = buffer_records_ok [OF wok fits, of seen 0]
  have m': "ws_market (buffer_records ?l seen 0 rs (th_state th)) = m" using b m by simp
  note f = flush_items [OF h(3) m']
  have "thread_ok p m \<lparr>th_state = st, th_outbox = sent, th_phase = ph'\<rparr>"
    using h m' f(3) by (simp add: thread_ok_def sent flushed_def)
  moreover have "items_kept ([Data (buffered_records (ws_tables (th_state th))), Data (mset rs)] @ [] @ [] @ [])
      ((items m (map WriteJob jobs) @ [Data (buffered_records (ws_tables st))]) @ [] @ [] @ [])"
    by (rule items_keptI) (use f(1,2) b in simp_all)
  moreover have "counted (th_state th) added st jobs"
    using flushed_counted [OF h(3)] b by (simp add: counted_def sent)
  ultimately show ?thesis
    by (simp add: handled_def thread_items_def out ph sent)
qed

lemma handle_tick_handled:
  assumes ok: "thread_ok p m th" and out: "th_outbox th = []" and ph: "th_phase th = Rolled Tick"
    and handle: "handle_command p order seen clock Tick (th_state th) = Some (st, sent, ph', added)"
  shows "handled p m th \<lparr>th_state = st, th_outbox = sent, th_phase = ph'\<rparr> added"
proof -
  let ?l = "wp_layout p"
  have wok: "worker_ok ?l (th_state th)" and m: "ws_market (th_state th) = m"
    using ok by (auto simp: thread_ok_def)
  obtain jobs r where f: "flush_expired order True clock (opt_flush_interval (wp_options p)) (th_state th) = (st, jobs, r)"
    and sent: "sent = map WriteJob jobs" "ph' = (case r of Inr _ \<Rightarrow> Idle | Inl _ \<Rightarrow> Crashed Tick)" "added = 0"
    using handle by (auto simp: handle_command_def split: prod.splits)
  have "r = Inr ()" using expired_tables.never_fails [OF wok f] .
  then have "ph' = Idle" by (simp add: sent)
  have c: "worker_ok ?l st" "flushed ?l (th_state th) st jobs"
    using expired_tables.contract [OF wok f] by simp_all
  note i = flush_items [OF c(2) m]
  have "thread_ok p m \<lparr>th_state = st, th_outbox = sent, th_phase = ph'\<rparr>"
    using c ok i(3) by (auto simp: thread_ok_def sent flushed_def \<open>ph' = Idle\<close> [unfolded sent])
  moreover have "items_kept ([Data (buffered_records (ws_tables (th_state th)))] @ [] @ [] @ [])
      ((items m (map WriteJob jobs) @ [Data (buffered_records (ws_tables st))]) @ [] @ [] @ [])"
    by (rule items_keptI) (use i in simp_all)
  ultimately show ?thesis
    using flushed_counted [OF c(2)] \<open>ph' = Idle\<close>
    by (simp add: handled_def thread_items_def out ph sent(1,3))
qed

lemma handle_flush_handled:
  assumes ok: "thread_ok p m th" and out: "th_outbox th = []" and ph: "th_phase th = Rolled (Flush t)"
    and ord: "iteration_order order"
    and handle: "handle_command p order seen clock (Flush t) (th_state th) = Some (st, sent, ph', added)"
  shows "handled p m th \<lparr>th_state = st, th_outbox = sent, th_phase = ph'\<rparr> added"
proof -
  let ?l = "wp_layout p"
  have wok: "worker_ok ?l (th_state th)" and m: "ws_market (th_state th) = m"
    using ok by (auto simp: thread_ok_def)
  obtain st' jobs r where f: "flush_all order True (th_state th) = (st', jobs, r)"
    by (cases "flush_all order True (th_state th)")
  have c: "r = Inr ()" "worker_ok ?l st'" "flushed ?l (th_state th) st' jobs" "ws_tables st' = []"
    using flush_all_contract [OF wok ord f] by simp_all
  have sent: "st' = st" "sent = map WriteJob jobs @ [Barrier t]" "ph' = Awaiting t" "added = 0"
    using handle by (auto simp: handle_command_def f c(1))
  note i = flush_items [OF c(3) m]
  have "thread_ok p m \<lparr>th_state = st, th_outbox = sent, th_phase = ph'\<rparr>"
    using c ok i(3) by (auto simp: thread_ok_def sent flushed_def)
  moreover have "items_kept ([Data (buffered_records (ws_tables (th_state th)))] @ [Mark t] @ [] @ [])
      (items m (map WriteJob jobs) @ [Mark t] @ [Data (buffered_records (ws_tables st))] @ [])"
    by (rule items_keptI) (use i c(4) in \<open>simp_all add: sent buffered_records_def\<close>)
  ultimately show ?thesis
    using flushed_counted [OF c(3)]
    by (simp add: handled_def thread_items_def out ph sent)
qed

lemma handle_command_handled:
  assumes "thread_ok p m th" and "th_outbox th = []" and "th_phase th = Rolled cmd"
    and "iteration_order order" and "0 < opt_buffer_bytes (wp_options p)"
    and "handle_command p order seen clock cmd (th_state th) = Some (st, sent, ph', added)"
  shows "handled p m th \<lparr>th_state = st, th_outbox = sent, th_phase = ph'\<rparr> added"
  using assms
  by (cases cmd) (simp_all add: handle_records_handled handle_tick_handled handle_flush_handled)

lemma handle_inv:
  assumes inv: "writer_inv p s" and h: "handled p m (sy_thread s m) th added"
  shows "writer_inv p (s\<lparr>sy_thread := (sy_thread s)(m := th),
    sy_buffered_bytes := sy_buffered_bytes s + of_nat added\<rparr>)"
proof -
  have k: "items_kept (local_items m (sy_thread s m) (sy_queue s m)) (local_items m th (sy_queue s m))"
    unfolding local_items_def using h by (intro items_kept_prefix) (simp add: handled_def)
  show ?thesis
    by (rule local_step [OF inv, where m = m and th = th and q = "sy_queue s m"])
      (use h k market_invD [OF inv, of m] in \<open>simp_all add: handled_def items_kept_def\<close>)
qed

lemma answer_inv:
  assumes inv: "writer_inv p s" and ph: "th_phase (sy_thread s m) = Awaiting t"
    and r: "sy_barrier s t = Some r"
  shows "writer_inv p (s\<lparr>sy_thread := (sy_thread s)(m := (sy_thread s m)\<lparr>th_phase := Idle\<rparr>),
    sy_reply := (sy_reply s)(t \<mapsto> r)\<rparr>)"
proof -
  have same: "local_items m ((sy_thread s m)\<lparr>th_phase := Idle\<rparr>) q = local_items m (sy_thread s m) q" for q
    by (simp add: local_items_def thread_items_def ph)
  show ?thesis
    by (rule local_step [OF inv, where m = m and q = "sy_queue s m" and
          th = "(sy_thread s m)\<lparr>th_phase := Idle\<rparr>"])
      (use market_invD [OF inv, of m] r in \<open>auto simp: same thread_ok_def split: if_splits\<close>)
qed

subsection \<open>Steps that move something between the threads\<close>

lemma deliver_inv:
  assumes inv: "writer_inv p s" and out: "th_outbox (sy_thread s m) = c # cs"
  shows "writer_inv p (s\<lparr>sy_thread := (sy_thread s)(m := (sy_thread s m)\<lparr>th_outbox := cs\<rparr>),
    sy_encoder := sy_encoder s @ [c]\<rparr>)" (is "writer_inv p ?s")
proof -
  let ?th = "(sy_thread s m)\<lparr>th_outbox := cs\<rparr>"
  have old: "local_items m (sy_thread s m) q = encode_items m c @ local_items m ?th q" for q
    by (simp add: local_items_def thread_items_def out)
  have ok: "encode_ok (wp_layout p) m c" "thread_ok p m ?th"
    using market_invD(1) [OF inv, of m] by (auto simp: thread_ok_def out)
  have promise: "promised s m t" if "c = Barrier t" for t
    using inv that old [of "sy_queue s m"] by (auto simp: writer_inv_def market_inv_def)
  have "market_inv p ?s k" for k
  proof (cases "k = m")
    case True
    have "pipeline m ?s = pipeline m s"
      using old by (simp add: pipeline_def)
    with True inv ok show ?thesis
      using old [of "sy_queue s m"]
      by (auto simp: writer_inv_def market_inv_def done_records_def promised_def)
  next
    case False
    have I: "market_inv p s k" using inv by (simp add: writer_inv_def)
    have add: "pipeline k ?s = items k (sy_encoder s) @ encode_items k c @
        local_items k (sy_thread s k) (sy_queue s k)"
      using False by (simp add: pipeline_def)
    have w: "weight (encode_items k c) = {#}" using False ok(1) by (cases c) auto
    have free: "t \<notin> marks (encode_items k c)" if "sy_promise s t = Some (k, P)" for t P
      using that False promise by (cases c) (auto simp: promised_def)
    have "settled t P A (pipeline k ?s)" if "sy_promise s t = Some (k, P)" "settled t P A (pipeline k s)" for t P A
      using that(2) free [OF that(1)] unfolding add
      by (simp add: pipeline_def settled_append w)
    with I False show ?thesis
      by (auto simp: market_inv_def done_records_def promised_def add w pipeline_def)
  qed
  moreover have "ticket_inv ?s"
    using inv promise by (auto simp: writer_inv_def ticket_inv_def promised_def)
  ultimately show ?thesis by (simp add: writer_inv_def)
qed

lemma encode_write_fields:
  "sy_queue (encode_write p io j s) = sy_queue s" "sy_thread (encode_write p io j s) = sy_thread s"
  "sy_encoder (encode_write p io j s) = sy_encoder s" "sy_barrier (encode_write p io j s) = sy_barrier s"
  "sy_reply (encode_write p io j s) = sy_reply s" "sy_accepted (encode_write p io j s) = sy_accepted s"
  "sy_promise (encode_write p io j s) = sy_promise s" "sy_closed (encode_write p io j s) = sy_closed s"
  "map fst (sy_done (encode_write p io j s)) = map fst (sy_done s) @ [j]"
  "sy_buffered_bytes (encode_write p io j s) = sy_buffered_bytes s - of_nat (job_bytes j)"
  by (auto simp: encode_write_def Let_def split: prod.splits sum.splits)

lemma encode_write_inv:
  assumes inv: "writer_inv p s" and enc: "sy_encoder s = WriteJob j # rest"
  shows "writer_inv p (encode_write p io j (s\<lparr>sy_encoder := rest\<rparr>))" (is "writer_inv p ?s")
proof -
  have recs: "done_records k ?s = done_records k s + (if job_market j = k then mset (job_records j) else {#})" for k
    by (simp add: done_records_def encode_write_fields jobs_records_def)
  have pipe: "pipeline k s = (if job_market j = k then [Data (mset (job_records j))] else []) @ pipeline k ?s" for k
    by (simp add: pipeline_def encode_write_fields enc)
  have "market_inv p ?s k" for k
  proof -
    have I: "market_inv p s k" using inv by (simp add: writer_inv_def)
    have "settled t P A (pipeline k ?s)" if "settled t P A (pipeline k s)" for t P A
      using that unfolding pipe [of k] by (simp split: if_splits)
    moreover have "done_records k ?s + weight (pipeline k ?s) = done_records k s + weight (pipeline k s)"
      unfolding pipe [of k] recs by (simp add: ac_simps)
    moreover have "P \<subseteq># done_records k ?s" if "P \<subseteq># done_records k s" for P
      using that by (rule subset_mset.order_trans) (simp add: recs)
    ultimately show ?thesis
      using I unfolding market_inv_def
      by (auto simp: encode_write_fields promised_def)
  qed
  moreover have "ticket_inv ?s"
    using inv by (auto simp: writer_inv_def ticket_inv_def encode_write_fields enc)
  ultimately show ?thesis by (simp add: writer_inv_def)
qed

lemma encode_barrier_inv:
  assumes inv: "writer_inv p s" and enc: "sy_encoder s = Barrier u # rest"
  shows "writer_inv p (encode_barrier u (s\<lparr>sy_encoder := rest\<rparr>))" (is "writer_inv p ?s")
proof -
  have pipe: "pipeline k s = Mark u # pipeline k ?s" for k
    by (simp add: pipeline_def encode_barrier_def enc)
  have recs: "done_records k ?s = done_records k s" for k
    by (simp add: done_records_def encode_barrier_def)
  have "market_inv p ?s k" for k
  proof -
    have I: "market_inv p s k" using inv by (simp add: writer_inv_def)
    have "P \<subseteq># done_records k s" if "sy_promise s u = Some (k, P)" for P
    proof -
      have "P + weight (pipeline k ?s) = sy_accepted s k"
        using I that unfolding market_inv_def pipe [of k] by auto
      moreover have "done_records k s + weight (pipeline k ?s) = sy_accepted s k"
        using I unfolding market_inv_def pipe [of k] by simp
      ultimately have "P = done_records k s" by (metis add_right_cancel)
      then show ?thesis by simp
    qed
    with I show ?thesis
      unfolding market_inv_def recs pipe [of k]
      by (auto simp: encode_barrier_def promised_def)
  qed
  moreover have "ticket_inv ?s"
    using inv by (auto simp: writer_inv_def ticket_inv_def encode_barrier_def enc)
  ultimately show ?thesis by (simp add: writer_inv_def)
qed

lemma send_fields:
  assumes "send_command p m cmd s = Some s'"
  shows "sy_queue s' = (sy_queue s)(m := sy_queue s m @ [cmd])" "sy_thread s' = sy_thread s"
    "sy_encoder s' = sy_encoder s" "sy_barrier s' = sy_barrier s" "sy_reply s' = sy_reply s"
    "sy_done s' = sy_done s" "sy_buffered_bytes s' = sy_buffered_bytes s" "sy_metrics s' = sy_metrics s"
    "sy_pending s' = sy_pending s"
    "command_fits p cmd" "length (sy_queue s m) < wp_capacity p"
  using assms by (auto simp: send_command_def Let_def split: if_splits command.splits)

lemma send_history:
  assumes "send_command p m cmd s = Some s'"
  shows "sy_accepted s' = (case cmd of
      Records rs \<Rightarrow> (sy_accepted s)(m := sy_accepted s m + mset rs) | _ \<Rightarrow> sy_accepted s)"
    and "sy_promise s' = (case cmd of
      Flush t \<Rightarrow> (sy_promise s)(t \<mapsto> (m, sy_accepted s m)) | _ \<Rightarrow> sy_promise s)"
    and "\<And>t. cmd = Flush t \<Longrightarrow> sy_promise s t = None"
  using assms by (auto simp: send_command_def Let_def split: if_splits command.splits)

lemma pipeline_send:
  assumes "send_command p m cmd s = Some s'"
  shows "pipeline k s' = (if k = m then pipeline k s @ command_items cmd else pipeline k s)"
    and "local_items k (sy_thread s' k) (sy_queue s' k) =
      local_items k (sy_thread s k) (sy_queue s k) @ (if k = m then command_items cmd else [])"
  using send_fields [OF assms] by (simp_all add: pipeline_def local_items_def)

lemma unpromised_marks:
  assumes "writer_inv p s" and "sy_promise s t = None"
  shows "t \<notin> marks (pipeline k s)"
proof -
  have "\<not> promised s k t" using assms(2) by (simp add: promised_def)
  then have "t \<notin> marks (local_items k (sy_thread s k) (sy_queue s k))"
    using assms(1) unfolding writer_inv_def market_inv_def by blast
  moreover have "Barrier t \<notin> set (sy_encoder s)"
    using assms unfolding writer_inv_def ticket_inv_def by blast
  ultimately show ?thesis by (simp add: pipeline_def items_marks)
qed

lemma command_marks: "t \<in> marks (command_items cmd) \<longleftrightarrow> cmd = Flush t"
  by (cases cmd) auto

lemma send_inv:
  assumes inv: "writer_inv p s" and send: "send_command p m cmd s = Some s'"
  shows "writer_inv p s'"
proof -
  note f = send_fields [OF send] and h = send_history [OF send] and pipe = pipeline_send [OF send]
  have recs: "done_records k s' = done_records k s" for k by (simp add: done_records_def f)
  have accepted: "sy_accepted s' k = sy_accepted s k + (if k = m then weight (command_items cmd) else {#})" for k
    by (cases cmd) (simp_all add: h)
  have old: "sy_promise s' u = sy_promise s u" if "cmd \<noteq> Flush u" for u
    using that by (cases cmd) (simp_all add: h)
  have new: "sy_promise s' t = Some (m, sy_accepted s m)" "sy_promise s t = None"
      "sy_barrier s t = None" "sy_reply s t = None" if "cmd = Flush t" for t
    using inv h(2,3) that by (auto simp: writer_inv_def ticket_inv_def)
  have "market_inv p s' k" for k
  proof -
    have I: "market_inv p s k" using inv by (simp add: writer_inv_def)
    have "done_records k s + weight (pipeline k s') = sy_accepted s' k"
      using I by (auto simp: market_inv_def pipe(1) accepted simp flip: add.assoc)
    moreover have "promised s' k t"
      if "t \<in> marks (local_items k (sy_thread s' k) (sy_queue s' k))" for t
    proof (cases "cmd = Flush t")
      case True
      then have "\<not> promised s k t" using new by (simp add: promised_def)
      then have "k = m" using that I by (auto simp: pipe(2) market_inv_def split: if_splits)
      then show ?thesis using new(1) [OF True] by (simp add: promised_def)
    next
      case False
      then have "promised s k t"
        using that I by (auto simp: pipe(2) market_inv_def command_marks split: if_splits)
      then show ?thesis using old [OF False] by (simp add: promised_def)
    qed
    moreover have "settled t P (sy_accepted s' k) (pipeline k s')
        \<and> (sy_barrier s t \<noteq> None \<or> sy_reply s t \<noteq> None \<longrightarrow> P \<subseteq># done_records k s)"
      if "sy_promise s' t = Some (k, P)" for t P
    proof (cases "cmd = Flush t")
      case True
      then have P: "k = m" "P = sy_accepted s m" using that new(1) by auto
      have "settled t P (sy_accepted s' k) (pipeline k s')"
        using unpromised_marks [OF inv new(2) [OF True], of k]
        by (simp add: P True pipe(1) accepted settled_append)
      then show ?thesis using new [OF True] by simp
    next
      case False
      then have "settled t P (sy_accepted s k) (pipeline k s)
          \<and> (sy_barrier s t \<noteq> None \<or> sy_reply s t \<noteq> None \<longrightarrow> P \<subseteq># done_records k s)"
        using that I old [OF False] unfolding market_inv_def by simp
      moreover have "t \<notin> marks (command_items cmd)" using False by (simp add: command_marks)
      ultimately show ?thesis
        by (auto simp: pipe(1) accepted settled_append settled_accept)
    qed
    moreover have "thread_ok p k (sy_thread s' k) \<and> list_all (command_fits p) (sy_queue s' k)"
      using I f(10) by (cases "k = m") (simp_all add: market_inv_def f(1,2))
    ultimately show ?thesis unfolding market_inv_def recs f(4,5) by blast
  qed
  moreover have "ticket_inv s'"
  proof -
    have "sy_promise s' t \<noteq> None" if "sy_promise s t \<noteq> None" for t
      using that old [of t] new [of t] by (cases "cmd = Flush t") simp_all
    then show ?thesis using inv unfolding writer_inv_def ticket_inv_def f by blast
  qed
  ultimately show ?thesis by (simp add: writer_inv_def)
qed

lemma observe_inv: "writer_inv p s \<Longrightarrow> writer_inv p (observe_queue s)"
  by (simp add: writer_inv_def market_inv_def ticket_inv_def observe_queue_def done_records_def
      pipeline_def promised_def)

lemma close_inv: "writer_inv p s \<Longrightarrow> writer_inv p (s\<lparr>sy_closed := True\<rparr>)"
  by (simp add: writer_inv_def market_inv_def ticket_inv_def done_records_def pipeline_def promised_def)

lemma start_inv:
  assumes "writer_start p mkdir spawned now fs ms = Some (Inr s)"
  shows "writer_inv p s"
proof -
  have ok: "thread_ok p m (start_worker (wp_timelike p) m (now m))
      \<and> local_items m (start_worker (wp_timelike p) m (now m)) [] = [Data {#}]" for m
    by (auto simp: start_worker_def initial_worker_def thread_ok_def worker_ok_def buffered_sum_def
        local_items_def thread_items_def buffered_records_def result_bind_def split: sum.splits)
  have s: "sy_queue s = (\<lambda>_. [])" "sy_thread s = (\<lambda>m. start_worker (wp_timelike p) m (now m))"
    "sy_encoder s = []" "sy_barrier s = (\<lambda>_. None)" "sy_reply s = (\<lambda>_. None)"
    "sy_accepted s = (\<lambda>_. {#})" "sy_done s = []" "sy_promise s = (\<lambda>_. None)"
    using assms by (auto simp: writer_start_def split: if_splits)
  then show ?thesis
    using ok by (simp add: writer_inv_def market_inv_def ticket_inv_def pipeline_def done_records_def)
qed

text \<open>The cases of a worker's step.\<close>

lemma worker_step_cases:
  assumes "worker_step p order now seen clock m s = Some s'"
  obtains (deliver) c cs where "th_outbox (sy_thread s m) = c # cs"
      "length (sy_encoder s) < encoder_slots p"
      "s' = s\<lparr>sy_thread := (sy_thread s)(m := (sy_thread s m)\<lparr>th_outbox := cs\<rparr>),
              sy_encoder := sy_encoder s @ [c]\<rparr>"
    | (take) cmd cmds st jobs r where "th_outbox (sy_thread s m) = []" "th_phase (sy_thread s m) = Idle"
      "sy_queue s m = cmd # cmds"
      "roll_hour (wp_timelike p) order True now (th_state (sy_thread s m)) = (st, jobs, r)"
      "s' = s\<lparr>sy_thread := (sy_thread s)(m := \<lparr>th_state = st, th_outbox = map WriteJob jobs,
                 th_phase = (case r of Inr _ \<Rightarrow> Rolled cmd | Inl _ \<Rightarrow> Crashed cmd)\<rparr>),
              sy_queue := (sy_queue s)(m := cmds)\<rparr>"
    | (finish) st jobs r where "th_outbox (sy_thread s m) = []" "th_phase (sy_thread s m) = Idle"
      "sy_queue s m = []" "sy_closed s" "flush_all order True (th_state (sy_thread s m)) = (st, jobs, r)"
      "s' = s\<lparr>sy_thread := (sy_thread s)(m := \<lparr>th_state = st, th_outbox = map WriteJob jobs,
                 th_phase = Finished\<rparr>)\<rparr>"
    | (handle) cmd st sent ph added where "th_outbox (sy_thread s m) = []"
      "th_phase (sy_thread s m) = Rolled cmd"
      "handle_command p order seen clock cmd (th_state (sy_thread s m)) = Some (st, sent, ph, added)"
      "s' = s\<lparr>sy_thread := (sy_thread s)(m := \<lparr>th_state = st, th_outbox = sent, th_phase = ph\<rparr>),
              sy_buffered_bytes := sy_buffered_bytes s + of_nat added\<rparr>"
    | (answer) t r where "th_outbox (sy_thread s m) = []" "th_phase (sy_thread s m) = Awaiting t"
      "sy_barrier s t = Some r"
      "s' = s\<lparr>sy_thread := (sy_thread s)(m := (sy_thread s m)\<lparr>th_phase := Idle\<rparr>),
              sy_reply := (sy_reply s)(t \<mapsto> r)\<rparr>"
  using assms
  by (auto simp: worker_step_def Let_def
      split: list.splits worker_phase.splits prod.splits option.splits if_splits)

lemma writer_step_inv:
  assumes "writer_step p s s'" and inv: "writer_inv p s"
    and pos: "0 < opt_buffer_bytes (wp_options p)"
  shows "writer_inv p s'"
  using assms(1)
proof (cases rule: writer_step.cases)
  case (worker order now seen clock m)
  from worker(2) show ?thesis
  proof (cases rule: worker_step_cases)
    case (handle cmd st sent ph added)
    then have "handled p m (sy_thread s m) \<lparr>th_state = st, th_outbox = sent, th_phase = ph\<rparr> added"
      using handle_command_handled market_invD(1) [OF inv] worker(1) pos by blast
    then show ?thesis unfolding handle(4) by (rule handle_inv [OF inv])
  next
    case take
    show ?thesis unfolding take(5) by (rule take_inv [OF inv worker(1) take(1-4)])
  next
    case finish
    show ?thesis unfolding finish(6) by (rule finish_inv [OF inv worker(1) finish(1,2,5)])
  qed (auto intro: deliver_inv answer_inv simp: inv)
next
  case (encoder io)
  then show ?thesis
    using encode_write_inv [OF inv] encode_barrier_inv [OF inv]
    by (auto simp: encoder_step_def split: list.splits encode_command.splits)
qed (auto intro: send_inv [OF inv] observe_inv close_inv simp: inv)

lemma reachable_inv:
  assumes "writer_reachable p s" and "0 < opt_buffer_bytes (wp_options p)"
  shows "writer_inv p s"
  using assms by (induction rule: writer_reachable.induct) (auto intro: start_inv writer_step_inv)

subsection \<open>A run\<close>

text \<open>
  A record is accepted on the spot market and buffered; then a flush is requested, the worker
  hands the buffer and a barrier to the encoder, and passes on the answer.
\<close>

definition sample_params :: writer_params where
  "sample_params = \<lparr>wp_options = \<lparr>opt_buffer_bytes = 1000, opt_segment_bytes = 1000, opt_flush_interval = 1\<rparr>,
     wp_capacity = 2, wp_encoder_capacity = 1, wp_layout = sample_layout,
     wp_timelike = \<lparr>with_minute = (\<lambda>v _. Some v), with_second = (\<lambda>v _. Some v), with_nanosecond = (\<lambda>v _. Some v)\<rparr>,
     wp_calendar = undefined, wp_arrow = undefined, wp_directory = [''data''], wp_exchange = ''binance''\<rparr>"

definition idle_thread :: "market \<Rightarrow> worker_thread" where
  "idle_thread m = \<lparr>th_state = \<lparr>ws_market = m, ws_hour = 0, ws_sequence = 0, ws_tables = [], ws_buffered = 0\<rparr>,
     th_outbox = [], th_phase = Idle\<rparr>"

definition sample_start :: writer_system where
  "sample_start = \<lparr>sy_queue = (\<lambda>_. []), sy_thread = idle_thread,
     sy_encoder = [], sy_pending = None, sy_barrier = (\<lambda>_. None), sy_reply = (\<lambda>_. None),
     sy_buffered_bytes = 0, sy_parquet_segments = 0, sy_parquet_bytes = 0,
     sy_metrics = default_metrics, sy_cache = None, sy_files = (\<lambda>_. None), sy_segments = [], sy_closed = False,
     sy_accepted = (\<lambda>_. {#}), sy_done = [], sy_promise = (\<lambda>_. None)\<rparr>"

lemma sample_params_simps:
  "opt_buffer_bytes (wp_options sample_params) = 1000" "opt_segment_bytes (wp_options sample_params) = 1000"
  "wp_capacity sample_params = 2" "encoder_slots sample_params = 1"
  "wp_layout sample_params = sample_layout" "floor_hour (wp_timelike sample_params) v = Inr v"
  by (simp_all add: sample_params_def encoder_slots_def floor_hour_def)

lemma sample_start_started:
  "writer_start sample_params True (True, True) (\<lambda>_. (0, 0)) (\<lambda>_. None) default_metrics = Some (Inr sample_start)"
  by (simp add: writer_start_def sample_params_simps start_worker_def initial_worker_def
      sample_start_def idle_thread_def fun_eq_iff timestamp_micros_def)

lemma sample_started: "writer_reachable sample_params sample_start"
  using sample_start_started by (rule writer_reachable.start)

lemma sample_bytes: "record_bytes sample_layout sample_record = 48"
  by (simp add: record_bytes_def sample_layout_def sample_record_def)

lemma sample_table: "rec_table sample_record = ''trades''"
  by (simp add: sample_record_def)

definition sample_state :: worker_state where
  "sample_state = \<lparr>ws_market = Spot, ws_hour = 0, ws_sequence = 0,
     ws_tables = [(''trades'', \<lparr>bt_records = [sample_record], bt_bytes = 48, bt_first_seen = 0\<rparr>)],
     ws_buffered = 48\<rparr>"

definition sample_job :: encode_job where
  "sample_job = \<lparr>job_market = Spot, job_hour = 0, job_sequence = 1, job_table = ''trades'',
     job_records = [sample_record], job_bytes = 48\<rparr>"

lemma sample_buffer:
  "buffer_records sample_layout (\<lambda>_. 0) 0 [sample_record] (th_state (idle_thread Spot)) = sample_state"
  by (simp add: idle_thread_def buffer_record_def sample_bytes sample_table sample_state_def
      saturating_add_def usize_max_def Let_def)

lemma sample_handle:
  "handle_command sample_params (\<lambda>al. al) (\<lambda>_. 0) (\<lambda>_. 0) (Records [sample_record]) (th_state (idle_thread Spot)) =
   Some (sample_state, [], Idle, 48)"
proof -
  have "flush_full (\<lambda>al. al) True 1000 sample_state = (sample_state, [], Inr ())"
    by (simp add: flush_full_def sample_state_def)
  moreover have "drain (\<lambda>al. al) True 1000 sample_state [] = Some (sample_state, [], Inr ())"
    by (subst drain.simps) (simp add: sample_state_def)
  ultimately show ?thesis
    by (simp add: handle_command_def handle_records_def sample_params_simps sample_buffer
        batch_bytes_def sample_bytes del: buffer_records.simps)
qed

lemma sample_roll:
  "roll_hour (wp_timelike sample_params) (\<lambda>al. al) True 0 (th_state (idle_thread Spot)) =
     (th_state (idle_thread Spot), [], Inr ())"
  "roll_hour (wp_timelike sample_params) (\<lambda>al. al) True 0 sample_state = (sample_state, [], Inr ())"
  by (simp_all add: roll_hour_def sample_params_simps idle_thread_def sample_state_def)

lemma sample_flush:
  "handle_command sample_params (\<lambda>al. al) (\<lambda>_. 0) (\<lambda>_. 0) (Flush 0) sample_state =
     Some (sample_state\<lparr>ws_sequence := 1, ws_tables := [], ws_buffered := 0\<rparr>, [WriteJob sample_job, Barrier 0], Awaiting 0, 0)"
  by (simp add: handle_command_def flush_all_def flush_table_def sample_state_def sample_job_def
      saturating_sub_def)

text \<open>The run, step by step; of each state only what the next step looks at.\<close>

definition run_at :: "writer_system \<Rightarrow> worker_thread \<Rightarrow> command list \<Rightarrow> encode_command list \<Rightarrow> encode_job list \<Rightarrow> bool" where
  "run_at s th q enc done_jobs \<longleftrightarrow> writer_reachable sample_params s \<and> sy_thread s Spot = th \<and> sy_queue s Spot = q
     \<and> sy_encoder s = enc \<and> map fst (sy_done s) = done_jobs \<and> \<not> sy_closed s"

lemma at_worker:
  assumes "run_at s th q enc done_jobs"
    and "worker_step sample_params (\<lambda>al. al) 0 (\<lambda>_. 0) (\<lambda>_. 0) Spot s = Some s'"
    and "sy_thread s' Spot = th'" "sy_queue s' Spot = q'" "sy_encoder s' = enc'"
      "sy_done s' = sy_done s" "sy_closed s' = sy_closed s"
  shows "run_at s' th' q' enc' done_jobs"
  using assms writer_reachable.step [OF _ writer_step.worker [OF iteration_order_id assms(2)]]
  by (simp add: run_at_def)

lemma at_send:
  assumes "run_at s th q enc done_jobs" and "send_command sample_params Spot cmd s = Some s'"
  shows "run_at s' th (q @ [cmd]) enc done_jobs"
  using assms send_fields [OF assms(2)] writer_reachable.step [OF _ writer_step.client [OF assms(2)]]
  by (auto simp: run_at_def send_command_def Let_def split: command.splits if_splits)

lemma at_take:
  assumes "run_at s \<lparr>th_state = st, th_outbox = [], th_phase = Idle\<rparr> (cmd # q) enc done_jobs"
    and "roll_hour (wp_timelike sample_params) (\<lambda>al. al) True 0 st = (st, [], Inr ())"
  obtains s' where "run_at s' \<lparr>th_state = st, th_outbox = [], th_phase = Rolled cmd\<rparr> q enc done_jobs"
    "sy_accepted s' = sy_accepted s" "sy_promise s' = sy_promise s"
proof (rule that)
  let ?s = "s\<lparr>sy_thread := (sy_thread s)(Spot := \<lparr>th_state = st, th_outbox = [], th_phase = Rolled cmd\<rparr>),
    sy_queue := (sy_queue s)(Spot := q)\<rparr>"
  show "run_at ?s \<lparr>th_state = st, th_outbox = [], th_phase = Rolled cmd\<rparr> q enc done_jobs"
    by (rule at_worker [OF assms(1)]) (use assms in \<open>simp_all add: worker_step_def run_at_def\<close>)
qed simp_all

lemma at_handle:
  assumes "run_at s \<lparr>th_state = st, th_outbox = [], th_phase = Rolled cmd\<rparr> q enc done_jobs"
    and "handle_command sample_params (\<lambda>al. al) (\<lambda>_. 0) (\<lambda>_. 0) cmd st = Some (st', sent, ph, added)"
  obtains s' where "run_at s' \<lparr>th_state = st', th_outbox = sent, th_phase = ph\<rparr> q enc done_jobs"
    "sy_accepted s' = sy_accepted s" "sy_promise s' = sy_promise s"
proof (rule that)
  let ?s = "s\<lparr>sy_thread := (sy_thread s)(Spot := \<lparr>th_state = st', th_outbox = sent, th_phase = ph\<rparr>),
    sy_buffered_bytes := sy_buffered_bytes s + of_nat added\<rparr>"
  show "run_at ?s \<lparr>th_state = st', th_outbox = sent, th_phase = ph\<rparr> q enc done_jobs"
    by (rule at_worker [OF assms(1)]) (use assms in \<open>simp_all add: worker_step_def run_at_def\<close>)
qed simp_all

lemma at_deliver:
  assumes "run_at s \<lparr>th_state = st, th_outbox = c # cs, th_phase = ph\<rparr> q [] done_jobs"
  obtains s' where "run_at s' \<lparr>th_state = st, th_outbox = cs, th_phase = ph\<rparr> q [c] done_jobs"
    "sy_accepted s' = sy_accepted s" "sy_promise s' = sy_promise s" "sy_barrier s' = sy_barrier s"
proof (rule that)
  let ?s = "s\<lparr>sy_thread := (sy_thread s)(Spot := (sy_thread s Spot)\<lparr>th_outbox := cs\<rparr>),
    sy_encoder := sy_encoder s @ [c]\<rparr>"
  show "run_at ?s \<lparr>th_state = st, th_outbox = cs, th_phase = ph\<rparr> q [c] done_jobs"
    by (rule at_worker [OF assms(1)])
      (use assms in \<open>simp_all add: worker_step_def run_at_def sample_params_simps\<close>)
qed simp_all

lemma at_encode:
  assumes "run_at s th q (WriteJob j # enc) done_jobs"
  obtains s' where "run_at s' th q enc (done_jobs @ [j])"
    "sy_accepted s' = sy_accepted s" "sy_promise s' = sy_promise s"
proof (rule that)
  let ?s = "encode_write sample_params undefined j (s\<lparr>sy_encoder := enc\<rparr>)"
  have "encoder_step sample_params undefined s = Some ?s"
    using assms by (simp add: encoder_step_def run_at_def)
  then have "writer_step sample_params s ?s" by (rule writer_step.encoder)
  then have "writer_reachable sample_params ?s"
    using assms writer_reachable.step unfolding run_at_def by blast
  then show "run_at ?s th q enc (done_jobs @ [j])" using assms by (simp add: run_at_def encode_write_fields)
qed (simp_all add: encode_write_fields)

lemma at_barrier:
  assumes "run_at s th q (Barrier t # enc) done_jobs"
  obtains s' r where "run_at s' th q enc done_jobs" "sy_barrier s' t = Some r"
    "sy_accepted s' = sy_accepted s" "sy_promise s' = sy_promise s"
proof (rule that)
  let ?s = "encode_barrier t (s\<lparr>sy_encoder := enc\<rparr>)"
  have "encoder_step sample_params undefined s = Some ?s"
    using assms by (simp add: encoder_step_def run_at_def)
  then have "writer_step sample_params s ?s" by (rule writer_step.encoder)
  then have "writer_reachable sample_params ?s"
    using assms writer_reachable.step unfolding run_at_def by blast
  then show "run_at ?s th q enc done_jobs" using assms by (simp add: run_at_def encode_barrier_def)
  show "sy_barrier ?s t = Some (case sy_pending s of None \<Rightarrow> Inr () | Some e \<Rightarrow> Inl e)"
    by (simp add: encode_barrier_def)
qed (simp_all add: encode_barrier_def)

lemma sample_run:
  "\<exists>s r. writer_reachable sample_params s \<and> sy_promise s 0 = Some (Spot, {#sample_record#})
     \<and> sy_reply s 0 = Some r \<and> map fst (sy_done s) = [sample_job]
     \<and> sy_accepted s Spot = {#sample_record#}"
proof -
  have start: "run_at sample_start \<lparr>th_state = th_state (idle_thread Spot), th_outbox = [], th_phase = Idle\<rparr> [] [] []"
    using sample_started by (simp add: run_at_def sample_start_def idle_thread_def)
  obtain s1 where s1: "send_command sample_params Spot (Records [sample_record]) sample_start = Some s1"
      "sy_accepted s1 Spot = {#sample_record#}" "sy_promise s1 = (\<lambda>_. None)"
    by (simp add: send_command_def sample_start_def sample_params_simps idle_thread_def
        receiving_def Let_def batch_bytes_def sample_bytes usize_max_def)
  note a1 = at_send [OF start s1(1), simplified]
  obtain s2 where s2: "run_at s2 \<lparr>th_state = th_state (idle_thread Spot), th_outbox = [],
        th_phase = Rolled (Records [sample_record])\<rparr> [] [] []"
      "sy_accepted s2 = sy_accepted s1" "sy_promise s2 = sy_promise s1"
    using at_take [OF a1 sample_roll(1)] .
  obtain s3 where s3: "run_at s3 \<lparr>th_state = sample_state, th_outbox = [], th_phase = Idle\<rparr> [] [] []"
      "sy_accepted s3 = sy_accepted s2" "sy_promise s3 = sy_promise s2"
    using at_handle [OF s2(1) sample_handle] .
  obtain s4 where s4: "send_command sample_params Spot (Flush 0) s3 = Some s4"
      "sy_accepted s4 = sy_accepted s3" "sy_promise s4 0 = Some (Spot, sy_accepted s3 Spot)"
    using s3(1) by (simp add: send_command_def run_at_def sample_params_simps receiving_def s3(3) s2(3) s1(3))
  note a4 = at_send [OF s3(1) s4(1), simplified]
  obtain s5 where s5: "run_at s5 \<lparr>th_state = sample_state, th_outbox = [], th_phase = Rolled (Flush 0)\<rparr> [] [] []"
      "sy_accepted s5 = sy_accepted s4" "sy_promise s5 = sy_promise s4"
    using at_take [OF a4 sample_roll(2)] .
  obtain s6 where s6: "run_at s6 \<lparr>th_state = sample_state\<lparr>ws_sequence := 1, ws_tables := [], ws_buffered := 0\<rparr>,
        th_outbox = [WriteJob sample_job, Barrier 0], th_phase = Awaiting 0\<rparr> [] [] []"
      "sy_accepted s6 = sy_accepted s5" "sy_promise s6 = sy_promise s5"
    using at_handle [OF s5(1) sample_flush] .
  obtain s7 where s7: "run_at s7 \<lparr>th_state = sample_state\<lparr>ws_sequence := 1, ws_tables := [], ws_buffered := 0\<rparr>,
        th_outbox = [Barrier 0], th_phase = Awaiting 0\<rparr> [] [WriteJob sample_job] []"
      "sy_accepted s7 = sy_accepted s6" "sy_promise s7 = sy_promise s6"
    using at_deliver [OF s6(1)] by blast
  obtain s8 where s8: "run_at s8 \<lparr>th_state = sample_state\<lparr>ws_sequence := 1, ws_tables := [], ws_buffered := 0\<rparr>,
        th_outbox = [Barrier 0], th_phase = Awaiting 0\<rparr> [] [] [sample_job]"
      "sy_accepted s8 = sy_accepted s7" "sy_promise s8 = sy_promise s7"
    using at_encode [OF s7(1)] by (metis append_Nil)
  obtain s9 where s9: "run_at s9 \<lparr>th_state = sample_state\<lparr>ws_sequence := 1, ws_tables := [], ws_buffered := 0\<rparr>,
        th_outbox = [], th_phase = Awaiting 0\<rparr> [] [Barrier 0] [sample_job]"
      "sy_accepted s9 = sy_accepted s8" "sy_promise s9 = sy_promise s8"
    using at_deliver [OF s8(1)] by blast
  obtain s10 r where s10: "run_at s10 \<lparr>th_state = sample_state\<lparr>ws_sequence := 1, ws_tables := [], ws_buffered := 0\<rparr>,
        th_outbox = [], th_phase = Awaiting 0\<rparr> [] [] [sample_job]"
      "sy_barrier s10 0 = Some r" "sy_accepted s10 = sy_accepted s9" "sy_promise s10 = sy_promise s9"
    using at_barrier [OF s9(1)] by blast
  let ?s = "s10\<lparr>sy_thread := (sy_thread s10)(Spot := (sy_thread s10 Spot)\<lparr>th_phase := Idle\<rparr>),
    sy_reply := (sy_reply s10)(0 \<mapsto> r)\<rparr>"
  have "worker_step sample_params (\<lambda>al. al) 0 (\<lambda>_. 0) (\<lambda>_. 0) Spot s10 = Some ?s"
    using s10(1,2) by (simp add: worker_step_def run_at_def)
  then have "writer_step sample_params s10 ?s" by (rule writer_step.worker [OF iteration_order_id])
  then have "writer_reachable sample_params ?s"
    using s10(1) writer_reachable.step unfolding run_at_def by blast
  moreover have "map fst (sy_done ?s) = [sample_job]" using s10(1) by (simp add: run_at_def)
  moreover have "sy_accepted ?s Spot = {#sample_record#}" "sy_promise ?s 0 = Some (Spot, {#sample_record#})"
    by (simp_all add: s10 s9 s8 s7 s6 s5 s4 s3 s2 s1)
  ultimately show ?thesis by (intro exI [of _ ?s] exI [of _ r]) simp
qed

subsection \<open>Properties\<close>

text \<open>
  C2. Whatever the threads interleave, the writer neither loses nor invents a record of a
  market: those it accepted are those the encoder is done with and those that are still in the
  market's pipeline (encoder queue, outbox, buffers, the command at hand, command queue).
\<close>

theorem writer_conserves:
  assumes "writer_reachable p s" and "0 < opt_buffer_bytes (wp_options p)"
  shows "done_records m s + weight (pipeline m s) = sy_accepted s m"
  using reachable_inv [OF assms] by (simp add: writer_inv_def market_inv_def)

text \<open>
  C13. An answered flush is a barrier: when a worker has passed on the answer to a flush, the
  encoder is done with every record that its market had accepted before the flush was requested.
\<close>

theorem answered_flush_is_barrier:
  assumes "writer_reachable p s" and "0 < opt_buffer_bytes (wp_options p)"
    and "sy_promise s t = Some (m, P)" and "sy_reply s t = Some r"
  shows "P \<subseteq># done_records m s"
  using reachable_inv [OF assms(1,2)] assms(3,4) by (auto simp: writer_inv_def market_inv_def)

theorem writer_conserves_witness:
  "\<exists>s. writer_reachable sample_params s \<and> map fst (sy_done s) = [sample_job]
     \<and> done_records Spot s + weight (pipeline Spot s) = {#sample_record#}"
proof -
  obtain s where s: "writer_reachable sample_params s" "map fst (sy_done s) = [sample_job]"
      "sy_accepted s Spot = {#sample_record#}"
    using sample_run by (elim exE conjE) (rule that)
  have "0 < opt_buffer_bytes (wp_options sample_params)" by (simp add: sample_params_simps)
  from writer_conserves [OF s(1) this, of Spot] s show ?thesis by metis
qed

theorem answered_flush_is_barrier_witness:
  "\<exists>s r. writer_reachable sample_params s \<and> sy_reply s 0 = Some r
     \<and> {#sample_record#} \<subseteq># done_records Spot s"
proof -
  obtain s r where s: "writer_reachable sample_params s" "sy_promise s 0 = Some (Spot, {#sample_record#})"
      "sy_reply s 0 = Some r"
    using sample_run by (elim exE conjE) (rule that)
  have "0 < opt_buffer_bytes (wp_options sample_params)" by (simp add: sample_params_simps)
  from answered_flush_is_barrier [OF s(1) this s(2,3)] s show ?thesis by blast
qed

end
