(* ===== verification/Ingest.thy ===== *)
theory Ingest
  imports Collector Writer_Safety
begin

section \<open>From the payloads to the encoder\<close>

text \<open>
  The processors of \<open>src/collector.rs\<close> composed with the writer of \<open>src/writer.rs\<close>. A processor
  knows the writer only as a sink of batches, which is the interface below; the writer of
  \<open>Writer_System\<close> provides it. The composition says where the records of the received payloads
  are, over every interleaving of processors, workers and encoder, with sends that fail.
\<close>

subsection \<open>Processors in front of a sink\<close>

text \<open>The batches that a processor makes of the payloads it took, in the order in which it sends them.\<close>

definition batches_of :: "codec \<Rightarrow> market \<Rightarrow> payload list \<Rightarrow> (market \<times> data_record list) list" where
  "batches_of cd m ps =
     (let records = fst (parse_batch cd m ps ([], 0, 0)) in if records = [] then [] else routed m records)"

lemma process_batch_sends:
  assumes "process_batch cd send m ps ms = (ms', sent, out)"
  shows "prefix sent (batches_of cd m ps)" and "out = Inr () \<Longrightarrow> sent = batches_of cd m ps"
proof -
  obtain ms1 sent1 where all: "process_batch cd (\<lambda>_ _. Inr ()) m ps ms = (ms1, sent1, Inr ())"
    using process_batch_delivers [of "\<lambda>_ _. Inr ()" cd m ps ms] by blast
  then have "sent1 = batches_of cd m ps"
    by (auto simp: process_batch_def batches_of_def routed_def Let_def split: prod.splits if_splits)
  with process_batch_prefix [OF assms all]
  show "prefix sent (batches_of cd m ps)" and "out = Inr () \<Longrightarrow> sent = batches_of cd m ps" by simp_all
qed

text \<open>
  The processors of all markets in front of one sink: what each connection received so far (a
  history), what waits in the channel of each processor, the batches a processor has made and not
  sent yet, and the processors that a failed send has ended.
\<close>

record 's ingest =
  in_sink :: 's
  in_received :: "market \<Rightarrow> payload list"
  in_queue :: "market \<Rightarrow> payload list"
  in_unsent :: "market \<Rightarrow> (market \<times> data_record list) list"
  in_stopped :: "market \<Rightarrow> bool"

text \<open>
  The steps: a payload arrives, a processor takes and parses a batch, the sink accepts the next
  batch of a processor, a send fails and ends its processor, or the sink does something of its own.
\<close>

inductive ingest_step ::
  "codec \<Rightarrow> (market \<Rightarrow> data_record list \<Rightarrow> 's \<Rightarrow> 's \<Rightarrow> bool) \<Rightarrow> (market \<Rightarrow> 's \<Rightarrow> bool) \<Rightarrow> ('s \<Rightarrow> 's \<Rightarrow> bool) \<Rightarrow>
   's ingest \<Rightarrow> 's ingest \<Rightarrow> bool"
  for cd deliver refuses other where
  receive: "\<not> in_stopped t m \<Longrightarrow>
    ingest_step cd deliver refuses other t
      (t\<lparr>in_received := (in_received t)(m := in_received t m @ [p]),
         in_queue := (in_queue t)(m := in_queue t m @ [p])\<rparr>)"
| parse: "\<not> in_stopped t m \<Longrightarrow> in_unsent t m = [] \<Longrightarrow> in_queue t m \<noteq> [] \<Longrightarrow>
    0 < n \<Longrightarrow> n \<le> payload_batch_size \<Longrightarrow>
    ingest_step cd deliver refuses other t
      (t\<lparr>in_queue := (in_queue t)(m := drop n (in_queue t m)),
         in_unsent := (in_unsent t)(m := batches_of cd m (take n (in_queue t m)))\<rparr>)"
| send: "\<not> in_stopped t m \<Longrightarrow> in_unsent t m = (k, rs) # bs \<Longrightarrow> deliver k rs (in_sink t) s \<Longrightarrow>
    ingest_step cd deliver refuses other t
      (t\<lparr>in_sink := s, in_unsent := (in_unsent t)(m := bs)\<rparr>)"
| fail: "\<not> in_stopped t m \<Longrightarrow> in_unsent t m = (k, rs) # bs \<Longrightarrow> refuses k (in_sink t) \<Longrightarrow>
    ingest_step cd deliver refuses other t (t\<lparr>in_stopped := (in_stopped t)(m := True)\<rparr>)"
| inner: "other (in_sink t) s \<Longrightarrow> ingest_step cd deliver refuses other t (t\<lparr>in_sink := s\<rparr>)"

subsection \<open>Where the records are\<close>

text \<open>The records for market \<open>k\<close> in payloads of market \<open>m\<close>, each payload parsed on its own.\<close>

definition parsed_for :: "codec \<Rightarrow> market \<Rightarrow> market \<Rightarrow> payload list \<Rightarrow> data_record multiset" where
  "parsed_for cd k m ps = mset (filter (\<lambda>r. target_of m r = k) (concat (map (payload_records cd m) ps)))"

definition received_records :: "codec \<Rightarrow> (market \<Rightarrow> payload list) \<Rightarrow> market \<Rightarrow> data_record multiset" where
  "received_records cd payloads k = (\<Sum>m\<in>UNIV. parsed_for cd k m (payloads m))"

text \<open>What the processors hold: payloads that are not parsed and batches that are not sent.\<close>

definition held_records :: "codec \<Rightarrow> 's ingest \<Rightarrow> market \<Rightarrow> data_record multiset" where
  "held_records cd t k =
     (\<Sum>m\<in>UNIV. parsed_for cd k m (in_queue t m) + mset (delivered k (in_unsent t m)))"

lemma parsed_for_append [simp]:
  "parsed_for cd k m (ps @ qs) = parsed_for cd k m ps + parsed_for cd k m qs"
  by (simp add: parsed_for_def)

lemma parsed_for_Nil [simp]: "parsed_for cd k m [] = {#}"
  by (simp add: parsed_for_def)

lemma batches_parsed: "mset (delivered k (batches_of cd m ps)) = parsed_for cd k m ps"
proof -
  obtain ms' sent where p: "process_batch cd (\<lambda>_ _. Inr ()) m ps default_metrics = (ms', sent, Inr ())"
      "\<forall>k. delivered k sent = filter (\<lambda>r. target_of m r = k) (concat (map (payload_records cd m) ps))"
    using process_batch_delivers [of "\<lambda>_ _. Inr ()" cd m ps default_metrics] by blast
  from process_batch_sends(2) [OF p(1)] p(2) show ?thesis by (simp add: parsed_for_def)
qed

lemma market_sum: "(\<Sum>m\<in>UNIV. f m) = f Spot + f Usdm + f Coinm" for f :: "market \<Rightarrow> 'a multiset"
  by (simp add: market_universe ac_simps)

locale record_sink =
  fixes deliver :: "market \<Rightarrow> data_record list \<Rightarrow> 's \<Rightarrow> 's \<Rightarrow> bool"
    and other :: "'s \<Rightarrow> 's \<Rightarrow> bool"
    and accepted :: "market \<Rightarrow> 's \<Rightarrow> data_record multiset"
  assumes accepts: "deliver m rs s s' \<Longrightarrow>
      accepted k s' = accepted k s + (if k = m then mset rs else {#})"
    and keeps: "other s s' \<Longrightarrow> accepted k s' = accepted k s"
begin

text \<open>No step of the processors or of the sink loses or invents a record.\<close>

lemma step_conserves:
  assumes "ingest_step cd deliver refuses other t t'"
    and "accepted k (in_sink t) + held_records cd t k = base + received_records cd (in_received t) k"
  shows "accepted k (in_sink t') + held_records cd t' k = base + received_records cd (in_received t') k"
  using assms(1)
proof (cases rule: ingest_step.cases)
  case (receive m p)
  have "held_records cd t' k = held_records cd t k + parsed_for cd k m [p]"
    by (cases m) (simp_all add: receive held_records_def market_sum ac_simps)
  moreover have "received_records cd (in_received t') k =
      received_records cd (in_received t) k + parsed_for cd k m [p]"
    by (cases m) (simp_all add: receive received_records_def market_sum ac_simps)
  ultimately show ?thesis using assms(2) receive by simp
next
  case (parse m n)
  let ?q = "in_queue t m"
  have "parsed_for cd k m ?q = parsed_for cd k m (take n ?q) + parsed_for cd k m (drop n ?q)"
    by (metis append_take_drop_id parsed_for_append)
  then have "held_records cd t' k = held_records cd t k"
    using parse(3) by (cases m) (simp_all add: parse(1) held_records_def market_sum batches_parsed ac_simps)
  then show ?thesis using assms(2) by (simp add: parse(1))
next
  case (send m j rs bs s)
  have "held_records cd t k = held_records cd t' k + (if k = j then mset rs else {#})"
    using send(3) by (cases m) (simp_all add: send(1) held_records_def market_sum ac_simps)
  then show ?thesis using assms(2) accepts [OF send(4), of k] by (simp add: send(1) ac_simps)
next
  case (fail m j rs bs)
  then show ?thesis using assms(2) by (simp add: held_records_def)
next
  case (inner s)
  then show ?thesis using assms(2) keeps [OF inner(2), of k] by (simp add: held_records_def)
qed

end

subsection \<open>The writer is a sink\<close>

definition accept_records ::
  "writer_params \<Rightarrow> market \<Rightarrow> data_record list \<Rightarrow> writer_system \<Rightarrow> writer_system \<Rightarrow> bool" where
  "accept_records p m rs s s' \<longleftrightarrow> send_command p m (Records rs) s = Some s'"

definition quiet_step :: "writer_params \<Rightarrow> writer_system \<Rightarrow> writer_system \<Rightarrow> bool" where
  "quiet_step p s s' \<longleftrightarrow> writer_step p s s' \<and> sy_accepted s' = sy_accepted s"

lemma worker_accepted: "worker_step p order now seen clock m s = Some s' \<Longrightarrow> sy_accepted s' = sy_accepted s"
  by (erule worker_step_cases) simp_all

lemma encoder_accepted: "encoder_step p io s = Some s' \<Longrightarrow> sy_accepted s' = sy_accepted s"
  by (auto simp: encoder_step_def encode_write_fields encode_barrier_def
      split: list.splits encode_command.splits)

text \<open>Every step of the writer is the acceptance of a batch or quiet.\<close>

lemma writer_step_split:
  "writer_step p s s' \<longleftrightarrow> quiet_step p s s' \<or> (\<exists>m rs. accept_records p m rs s s')"
proof
  assume "writer_step p s s'"
  then show "quiet_step p s s' \<or> (\<exists>m rs. accept_records p m rs s s')"
  proof (cases rule: writer_step.cases)
    case (client m cmd)
    with send_history(1) [OF client] \<open>writer_step p s s'\<close> show ?thesis
      by (cases cmd) (auto simp: quiet_step_def accept_records_def)
  qed (use \<open>writer_step p s s'\<close> in
      \<open>auto simp: quiet_step_def observe_queue_def dest: worker_accepted encoder_accepted\<close>)
qed (auto simp: quiet_step_def accept_records_def intro: writer_step.client)

interpretation writer_sink: record_sink "accept_records p" "quiet_step p" "\<lambda>k s. sy_accepted s k" for p
  by unfold_locales (auto simp: accept_records_def quiet_step_def dest: send_history(1))

subsection \<open>The processors and the writer\<close>

text \<open>A send fails when the writer is shut down or the worker of the market has gone.\<close>

definition refuses_records :: "market \<Rightarrow> writer_system \<Rightarrow> bool" where
  "refuses_records m s \<longleftrightarrow> sy_closed s \<or> \<not> receiving (th_phase (sy_thread s m))"

definition ingest_start :: "writer_system \<Rightarrow> writer_system ingest" where
  "ingest_start s = \<lparr>in_sink = s, in_received = (\<lambda>_. []), in_queue = (\<lambda>_. []), in_unsent = (\<lambda>_. []),
     in_stopped = (\<lambda>_. False)\<rparr>"

inductive ingest_reachable :: "writer_params \<Rightarrow> codec \<Rightarrow> writer_system ingest \<Rightarrow> bool" for p cd where
  start: "writer_start p mkdir spawned now fs ms = Some (Inr s) \<Longrightarrow> ingest_reachable p cd (ingest_start s)"
| step: "ingest_reachable p cd t \<Longrightarrow>
    ingest_step cd (accept_records p) refuses_records (quiet_step p) t t' \<Longrightarrow> ingest_reachable p cd t'"

lemma ingest_writer_reachable: "ingest_reachable p cd t \<Longrightarrow> writer_reachable p (in_sink t)"
proof (induction rule: ingest_reachable.induct)
  case (start mkdir spawned now fs ms s)
  then show ?case by (simp add: ingest_start_def writer_reachable.start)
next
  case (step t t')
  from step(2) have "in_sink t' = in_sink t \<or> writer_step p (in_sink t) (in_sink t')"
    by (cases rule: ingest_step.cases) (auto simp: writer_step_split)
  then show ?case using step(3) by (metis writer_reachable.step)
qed

lemma ingest_accounts:
  "ingest_reachable p cd t \<Longrightarrow>
   sy_accepted (in_sink t) k + held_records cd t k = received_records cd (in_received t) k"
proof (induction rule: ingest_reachable.induct)
  case (start mkdir spawned now fs ms s)
  have "sy_accepted s k = {#}" using start by (auto simp: writer_start_def split: if_splits)
  then show ?case by (simp add: ingest_start_def held_records_def received_records_def)
next
  case (step t t')
  then show ?case using writer_sink.step_conserves [OF step(2), of k "{#}"] by simp
qed

text \<open>
  C1. Nothing is lost between the connections and the encoder, in any interleaving of the
  connections, the processors, the workers and the encoder: the records for a market in the
  payloads that were received are, none twice, exactly those that the encoder is done with, those
  in the market's pipeline, and those that are still held by the processors, in payloads that
  wait to be parsed or batches that wait to be sent. A processor whose send failed holds its
  rest for ever.
\<close>

theorem ingest_conserves:
  assumes "ingest_reachable p cd t" and "0 < opt_buffer_bytes (wp_options p)"
  shows "done_records k (in_sink t) + weight (pipeline k (in_sink t)) + held_records cd t k =
    received_records cd (in_received t) k"
proof -
  have "done_records k (in_sink t) + weight (pipeline k (in_sink t)) = sy_accepted (in_sink t) k"
    using reachable_inv [OF ingest_writer_reachable [OF assms(1)] assms(2)]
    by (simp add: writer_inv_def market_inv_def)
  then show ?thesis using ingest_accounts [OF assms(1)] by simp
qed

subsection \<open>An instance\<close>

lemma trade_batches: "batches_of trade_codec Spot [trade_payload] = [(Spot, [trade_record])]"
proof -
  have "rec_target trade_record = None" by (simp add: trade_record_def mk_record_def)
  then show ?thesis
    by (simp add: batches_of_def parse_batch_eq trade_records routed_def write_records_def)
qed

lemma trade_accepted:
  "\<exists>s. accept_records sample_params Spot [trade_record] sample_start s"
proof -
  have "record_bytes sample_layout trade_record \<le> 1000" by code_simp
  then show ?thesis
    by (simp add: accept_records_def send_command_def sample_start_def sample_params_simps
        idle_thread_def receiving_def Let_def batch_bytes_def usize_max_def)
qed

theorem ingest_conserves_witness:
  "\<exists>t. ingest_reachable sample_params trade_codec t \<and> sy_queue (in_sink t) Spot = [Records [trade_record]]
    \<and> done_records Spot (in_sink t) + weight (pipeline Spot (in_sink t)) = {#trade_record#}"
proof -
  let ?step = "ingest_step trade_codec (accept_records sample_params) refuses_records (quiet_step sample_params)"
  let ?pay = "(\<lambda>_. [])(Spot := [trade_payload])"
  define t0 where "t0 = ingest_start sample_start"
  define t1 where "t1 = t0\<lparr>in_received := ?pay, in_queue := ?pay\<rparr>"
  define t2 where "t2 = t1\<lparr>in_queue := (\<lambda>_. [])(Spot := []), in_unsent := (\<lambda>_. [])(Spot := [(Spot, [trade_record])])\<rparr>"
  obtain s where s: "accept_records sample_params Spot [trade_record] sample_start s"
    using trade_accepted by blast
  define t3 where "t3 = t2\<lparr>in_sink := s, in_unsent := (\<lambda>_. [])(Spot := [])\<rparr>"
  have "?step t0 t1"
    using ingest_step.receive [of t0 Spot trade_codec "accept_records sample_params" refuses_records
        "quiet_step sample_params" trade_payload]
    by (simp add: t0_def t1_def ingest_start_def)
  moreover have "?step t1 t2"
    using ingest_step.parse [of t1 Spot 1 trade_codec "accept_records sample_params" refuses_records
        "quiet_step sample_params"]
    by (simp add: t0_def t1_def t2_def ingest_start_def payload_batch_size_def trade_batches)
  moreover have "?step t2 t3"
    using ingest_step.send [of t2 Spot Spot "[trade_record]" "[]" "accept_records sample_params" s trade_codec
        refuses_records "quiet_step sample_params"] s
    by (simp add: t0_def t1_def t2_def t3_def ingest_start_def)
  ultimately have reach: "ingest_reachable sample_params trade_codec t3"
    using ingest_reachable.start [OF sample_start_started, of trade_codec]
    unfolding t0_def [symmetric] by (blast intro: ingest_reachable.step)
  have pos: "0 < opt_buffer_bytes (wp_options sample_params)" by (simp add: sample_params_simps)
  have "received_records trade_codec (in_received t3) Spot = {#trade_record#}"
      and "held_records trade_codec t3 Spot = {#}"
    using trade_records
    by (simp_all add: received_records_def held_records_def market_sum parsed_for_def t3_def t2_def t1_def
        target_of_def trade_record_def mk_record_def)
  moreover have "sy_queue (in_sink t3) Spot = [Records [trade_record]]"
    using s by (auto simp: t3_def accept_records_def send_command_def sample_start_def Let_def split: if_splits)
  ultimately show ?thesis using ingest_conserves [OF reach pos, of Spot] reach by auto
qed

end
