(* ===== verification/Writer_Accounting.thy ===== *)
theory Writer_Accounting
  imports Writer_Safety
begin

section \<open>Counters, sequence numbers, bounds and errors of the writer\<close>

text \<open>
  Further invariants of the system of \<open>Writer_System\<close>: the shared byte counter, the numbering of
  the segments, the lengths of the queues, and what becomes of a failed write.
\<close>

subsection \<open>The effect of a worker's step\<close>

lemma roll_counted:
  assumes "worker_ok l st" and "iteration_order order"
    and "roll_hour tm order True now st = (st', jobs, out)"
  shows "counted st 0 st' jobs"
  using roll_hour_contract [OF assms] flushed_counted [of l st _ jobs]
  by (auto simp: counted_def)

lemma worker_effect:
  assumes step: "worker_step p order now seen clock m s = Some s'" and ord: "iteration_order order"
    and inv: "writer_inv p s" and pos: "0 < opt_buffer_bytes (wp_options p)"
  obtains (deliver) c cs where "th_outbox (sy_thread s m) = c # cs" "encode_ok (wp_layout p) m c"
      "length (sy_encoder s) < encoder_slots p"
      "s' = s\<lparr>sy_thread := (sy_thread s)(m := (sy_thread s m)\<lparr>th_outbox := cs\<rparr>),
              sy_encoder := sy_encoder s @ [c]\<rparr>"
    | (local) th added where "th_outbox (sy_thread s m) = []"
      "counted (th_state (sy_thread s m)) added (th_state th) (jobs_in (th_outbox th))"
      "list_all (encode_ok (wp_layout p) m) (th_outbox th)"
      "sy_thread s' = (sy_thread s)(m := th)" "sy_encoder s' = sy_encoder s" "sy_done s' = sy_done s"
      "sy_buffered_bytes s' = sy_buffered_bytes s + of_nat added" "sy_metrics s' = sy_metrics s"
      "sy_pending s' = sy_pending s" "sy_barrier s' = sy_barrier s"
      "\<And>k. length (sy_queue s' k) \<le> length (sy_queue s k)"
proof -
  note I = market_invD(1) [OF inv, of m] and J = market_invD(1) [OF writer_step_inv, of p s s' m]
  have wok: "worker_ok (wp_layout p) (th_state (sy_thread s m))" using I by (simp add: thread_ok_def)
  have ok': "thread_ok p m (sy_thread s' m)"
    using J writer_step.worker [OF ord step] inv pos by blast
  from step show thesis
  proof (cases rule: worker_step_cases)
    case (deliver c cs)
    then show thesis using that(1) I by (auto simp: thread_ok_def)
  next
    case (take cmd cmds st jobs r)
    have "counted (th_state (sy_thread s m)) 0 st jobs" using roll_counted [OF wok ord take(4)] .
    with take ok' show thesis by (intro that(2)) (auto simp: thread_ok_def)
  next
    case (finish st jobs r)
    have "counted (th_state (sy_thread s m)) 0 st jobs"
      using flush_all_contract [OF wok ord finish(5)] flushed_counted by blast
    with finish ok' show thesis by (intro that(2)) (auto simp: thread_ok_def)
  next
    case (handle cmd st sent ph added)
    have "counted (th_state (sy_thread s m)) added st (jobs_in sent)"
      using handle_command_handled [OF I handle(1,2) ord pos handle(3)] by (simp add: handled_def)
    with handle ok' show thesis by (intro that(2)) (auto simp: thread_ok_def)
  next
    case (answer t r)
    then show thesis
      by (intro that(2) [of 0 "(sy_thread s m)\<lparr>th_phase := Idle\<rparr>"]) (auto simp: counted_def)
  qed
qed

subsection \<open>The byte counter\<close>

definition total :: "(market \<Rightarrow> nat) \<Rightarrow> nat" where
  "total f = sum f UNIV"

lemma total_markets: "total f = f Spot + f Usdm + f Coinm"
  by (simp add: total_def market_universe)

lemma total_update: "total (f(m := x)) + f m = total f + x"
proof -
  have "total f = f m + sum f (UNIV - {m})" unfolding total_def by (rule sum.remove) simp_all
  moreover have "total (f(m := x)) = x + sum f (UNIV - {m})"
    unfolding total_def by (subst sum.remove [of _ m]) simp_all
  ultimately show ?thesis by simp
qed

definition thread_bytes :: "worker_thread \<Rightarrow> nat" where
  "thread_bytes th = ws_buffered (th_state th) + jobs_bytes (jobs_in (th_outbox th))"

definition bytes_in_memory :: "writer_system \<Rightarrow> nat" where
  "bytes_in_memory s =
     total (\<lambda>m. thread_bytes (sy_thread s m)) + jobs_bytes (jobs_in (sy_encoder s))"

lemma total_thread_update:
  "total (\<lambda>k. thread_bytes ((f(m := th)) k)) + thread_bytes (f m) =
   total (\<lambda>k. thread_bytes (f k)) + thread_bytes th"
  using total_update [of "\<lambda>k. thread_bytes (f k)" m "thread_bytes th"]
  by (simp add: fun_upd_def if_distrib cong: if_cong)

lemma jobs_bytes_Cons [simp]: "jobs_bytes (j # js) = job_bytes j + jobs_bytes js"
  by (simp add: jobs_bytes_def)

definition counter_inv :: "writer_system \<Rightarrow> bool" where
  "counter_inv s \<longleftrightarrow> sy_buffered_bytes s = of_nat (bytes_in_memory s)"

lemma deliver_bytes:
  assumes "th_outbox (sy_thread s m) = c # cs"
  shows "bytes_in_memory (s\<lparr>sy_thread := (sy_thread s)(m := (sy_thread s m)\<lparr>th_outbox := cs\<rparr>),
    sy_encoder := sy_encoder s @ [c]\<rparr>) = bytes_in_memory s"
proof -
  have "thread_bytes (sy_thread s m) = thread_bytes ((sy_thread s m)\<lparr>th_outbox := cs\<rparr>) + jobs_bytes (jobs_in [c])"
    using assms by (cases c) (simp_all add: thread_bytes_def)
  then show ?thesis
    using total_thread_update [of "sy_thread s" m "(sy_thread s m)\<lparr>th_outbox := cs\<rparr>"]
    by (simp add: bytes_in_memory_def)
qed

lemma local_bytes:
  assumes "th_outbox (sy_thread s m) = []"
    and "counted (th_state (sy_thread s m)) added (th_state th) (jobs_in (th_outbox th))"
    and "sy_thread s' = (sy_thread s)(m := th)" and "sy_encoder s' = sy_encoder s"
  shows "bytes_in_memory s' = bytes_in_memory s + added"
proof -
  have "thread_bytes th = thread_bytes (sy_thread s m) + added"
    using assms(1,2) by (simp add: thread_bytes_def counted_def)
  then show ?thesis
    using total_thread_update [of "sy_thread s" m th] assms(3,4)
    by (simp add: bytes_in_memory_def)
qed

lemma counter_step:
  assumes "writer_step p s s'" and inv: "writer_inv p s" and count: "counter_inv s"
    and pos: "0 < opt_buffer_bytes (wp_options p)"
  shows "counter_inv s'"
  using assms(1)
proof (cases rule: writer_step.cases)
  case (client m cmd)
  from send_fields [OF client] count show ?thesis by (simp add: counter_inv_def bytes_in_memory_def)
next
  case (worker order now seen clock m)
  from worker(2,1) inv pos show ?thesis
  proof (cases rule: worker_effect)
    case (deliver c cs)
    then show ?thesis
      using count deliver_bytes [OF deliver(1)] by (simp add: counter_inv_def)
  next
    case (local th added)
    then show ?thesis
      using count local_bytes [OF local(1,2,4,5)] by (simp add: counter_inv_def)
  qed
next
  case (encoder io)
  from encoder consider (job) j rest where "sy_encoder s = WriteJob j # rest"
      "s' = encode_write p io j (s\<lparr>sy_encoder := rest\<rparr>)"
    | (mark) t rest where "sy_encoder s = Barrier t # rest" "s' = encode_barrier t (s\<lparr>sy_encoder := rest\<rparr>)"
    by (auto simp: encoder_step_def split: list.splits encode_command.splits)
  then show ?thesis
  proof cases
    case job
    then have "bytes_in_memory s = bytes_in_memory s' + job_bytes j"
      by (simp add: bytes_in_memory_def encode_write_fields)
    then show ?thesis using count job(2) by (simp add: counter_inv_def encode_write_fields)
  next
    case mark
    then show ?thesis using count by (simp add: counter_inv_def bytes_in_memory_def encode_barrier_def)
  qed
qed (use count in \<open>simp_all add: counter_inv_def bytes_in_memory_def observe_queue_def\<close>)

subsection \<open>Sequence numbers\<close>

definition numbered :: "u64 \<Rightarrow> encode_job list \<Rightarrow> bool" where
  "numbered base jobs \<longleftrightarrow>
     map job_sequence jobs = map (\<lambda>i. base + of_nat (Suc i)) [0..<length jobs]"

definition market_jobs :: "market \<Rightarrow> encode_job list \<Rightarrow> encode_job list" where
  "market_jobs m = filter (\<lambda>j. job_market j = m)"

definition created :: "market \<Rightarrow> writer_system \<Rightarrow> encode_job list" where
  "created m s = market_jobs m (map fst (sy_done s)) @ market_jobs m (jobs_in (sy_encoder s))
     @ jobs_in (th_outbox (sy_thread s m))"

definition sequence_inv :: "writer_system \<Rightarrow> bool" where
  "sequence_inv s \<longleftrightarrow> (\<forall>m. \<exists>base. numbered base (created m s)
     \<and> ws_sequence (th_state (sy_thread s m)) = base + of_nat (length (created m s)))"

lemma market_jobs_simps [simp]:
  "market_jobs m [] = []"
  "market_jobs m (j # js) = (if job_market j = m then j # market_jobs m js else market_jobs m js)"
  "market_jobs m (js @ ks) = market_jobs m js @ market_jobs m ks"
  by (simp_all add: market_jobs_def)

lemma numbered_append:
  assumes "numbered base js" and "numbered (base + of_nat (length js)) ks"
  shows "numbered base (js @ ks)"
proof -
  have "map job_sequence (js @ ks) =
      map (\<lambda>i. base + of_nat (Suc i)) [0..<length js] @
      map (\<lambda>i. (base + of_nat (length js)) + of_nat (Suc i)) [0..<length ks]"
    using assms unfolding numbered_def map_append by (simp only:)
  also have "\<dots> = map (\<lambda>i. base + of_nat (Suc i)) [0..<length (js @ ks)]"
    unfolding length_append by (rule sequence_append [symmetric])
  finally show ?thesis by (simp only: numbered_def)
qed

lemma created_deliver:
  assumes "th_outbox (sy_thread s m) = c # cs" and "encode_ok l m c"
    and "s' = s\<lparr>sy_thread := (sy_thread s)(m := (sy_thread s m)\<lparr>th_outbox := cs\<rparr>),
              sy_encoder := sy_encoder s @ [c]\<rparr>"
  shows "created k s' = created k s"
  using assms by (cases c) (auto simp: created_def)

lemma sequence_step:
  assumes "writer_step p s s'" and inv: "writer_inv p s" and seq: "sequence_inv s"
    and pos: "0 < opt_buffer_bytes (wp_options p)"
  shows "sequence_inv s'"
  using assms(1)
proof (cases rule: writer_step.cases)
  case (client m cmd)
  from send_fields [OF client] seq show ?thesis by (simp add: sequence_inv_def created_def)
next
  case (worker order now seen clock m)
  from worker(2,1) inv pos show ?thesis
  proof (cases rule: worker_effect)
    case (deliver c cs)
    have "created k s' = created k s" for k using created_deliver [OF deliver(1,2,4)] .
    then show ?thesis using seq by (simp add: sequence_inv_def deliver(4))
  next
    case (local th added)
    have "\<exists>base. numbered base (created k s')
        \<and> ws_sequence (th_state (sy_thread s' k)) = base + of_nat (length (created k s'))" for k
    proof (cases "k = m")
      case True
      obtain base where base: "numbered base (created m s)"
          "ws_sequence (th_state (sy_thread s m)) = base + of_nat (length (created m s))"
        using seq by (auto simp: sequence_inv_def)
      have new: "created m s' = created m s @ jobs_in (th_outbox th)"
        using local(1,4-6) by (simp add: created_def)
      have "numbered base (created m s')"
        using numbered_append [OF base(1)] local(2) base(2) unfolding new
        by (simp add: counted_def numbered_def)
      then show ?thesis
        using True local(2,4) base(2) by (intro exI [of _ base]) (simp add: counted_def new)
    next
      case False
      then show ?thesis using seq local(4-6) by (simp add: sequence_inv_def created_def)
    qed
    then show ?thesis by (simp add: sequence_inv_def)
  qed
next
  case (encoder io)
  then have "created k s' = created k s" "sy_thread s' = sy_thread s" for k
    by (auto simp: encoder_step_def created_def encode_write_fields encode_barrier_def
        split: list.splits encode_command.splits)
  then show ?thesis using seq by (simp add: sequence_inv_def)
qed (use seq in \<open>simp_all add: sequence_inv_def created_def observe_queue_def\<close>)

lemma numbered_distinct:
  assumes "numbered base js" and "length js \<le> 2 ^ 64"
  shows "distinct (map job_sequence js)"
proof -
  have "inj_on (\<lambda>i. base + of_nat (Suc i) :: u64) (set [0..<length js])"
  proof (rule inj_onI)
    fix i k assume "i \<in> set [0..<length js]" "k \<in> set [0..<length js]"
      and eq: "base + of_nat (Suc i) = base + (of_nat (Suc k) :: u64)"
    then have "i < 2 ^ 64" "k < 2 ^ 64" using assms(2) by simp_all
    then have "unat (of_nat i :: u64) = i" "unat (of_nat k :: u64) = k"
      by (simp_all add: unat_of_nat take_bit_nat_eq_self)
    moreover have "(of_nat i :: u64) = of_nat k" using eq by (simp only: of_nat_Suc add_left_cancel)
    ultimately show "i = k" by metis
  qed
  then show ?thesis using assms(1) by (simp add: numbered_def distinct_map)
qed

lemma distinct_by_market:
  assumes "\<And>m. distinct (map job_sequence (market_jobs m js))"
  shows "distinct (map (\<lambda>j. (job_market j, job_sequence j)) js)"
  using assms
proof (induction js)
  case (Cons j js)
  have "distinct (map job_sequence (market_jobs m js))" for m
    using Cons.prems [of m] by (simp split: if_splits)
  then have "distinct (map (\<lambda>j. (job_market j, job_sequence j)) js)" by (rule Cons.IH)
  moreover have "job_sequence j \<notin> job_sequence ` set (market_jobs (job_market j) js)"
    using Cons.prems [of "job_market j"] by simp
  then have "(job_market j, job_sequence j) \<notin> (\<lambda>j. (job_market j, job_sequence j)) ` set js"
    by (force simp: market_jobs_def)
  ultimately show ?case by simp
qed simp

lemma segment_name_inj: "segment_name a = segment_name b \<Longrightarrow> a = b"
proof -
  assume "segment_name a = segment_name b"
  then have "show_padded 10 (unat a) = show_padded 10 (unat b)" by (simp add: segment_name_def)
  then have "unat a = unat b" by (metis digits_value_show_padded)
  then show "a = b" by (simp add: word_unat_eq_iff)
qed

definition job_path :: "writer_params \<Rightarrow> encode_job \<Rightarrow> path" where
  "job_path p j = segment_path (wp_calendar p) (wp_directory p) (wp_exchange p) (job_market j)
     (job_hour j) (job_sequence j) (job_table j)"

lemma job_path_inj:
  "job_path p j = job_path p k \<Longrightarrow> job_market j = job_market k \<and> job_sequence j = job_sequence k"
  by (auto simp: job_path_def segment_path_def segment_directory_def
      market_as_str_inj dest: segment_name_inj)

lemma distinct_job_paths:
  assumes "distinct (map (\<lambda>j. (job_market j, job_sequence j)) js)"
  shows "distinct (map (job_path p) js)"
  using assms by (induction js) (auto dest: job_path_inj)

lemma numbered_prefix:
  assumes "numbered base (xs @ ys)"
  shows "numbered base xs"
proof -
  have "map job_sequence xs = take (length xs) (map job_sequence (xs @ ys))" by simp
  also have "\<dots> = take (length xs) (map (\<lambda>i. base + of_nat (Suc i)) [0..<length (xs @ ys)])"
    using assms unfolding numbered_def by (simp only:)
  also have "\<dots> = map (\<lambda>i. base + of_nat (Suc i)) [0..<length xs]"
    by (simp add: take_map take_upt)
  finally show ?thesis by (simp only: numbered_def)
qed

subsection \<open>Reachable states\<close>

lemma start_accounting:
  assumes "writer_start p mkdir spawned now fs ms = Some (Inr s)"
  shows "counter_inv s" and "sequence_inv s"
proof -
  have s: "sy_thread s = (\<lambda>m. start_worker (wp_timelike p) m (now m))" "sy_encoder s = []"
    "sy_done s = []" "sy_buffered_bytes s = 0"
    using assms by (auto simp: writer_start_def split: if_splits)
  have th: "th_outbox (start_worker (wp_timelike p) m (now m)) = []"
      "ws_buffered (th_state (start_worker (wp_timelike p) m (now m))) = 0" for m
    by (auto simp: start_worker_def initial_worker_def result_bind_def split: sum.splits)
  show "counter_inv s" by (simp add: counter_inv_def bytes_in_memory_def total_markets thread_bytes_def s th)
  show "sequence_inv s" by (simp add: sequence_inv_def created_def s th numbered_def)
qed

lemma reachable_accounting:
  assumes "writer_reachable p s" and pos: "0 < opt_buffer_bytes (wp_options p)"
  shows "counter_inv s \<and> sequence_inv s"
  using assms(1)
proof (induction rule: writer_reachable.induct)
  case (start mkdir spawned now fs ms s)
  then show ?case using start_accounting by blast
next
  case (step s s')
  then show ?case
    using counter_step sequence_step reachable_inv [OF step.hyps(1) pos] pos by blast
qed

subsection \<open>Bounds\<close>

definition bounded :: "writer_params \<Rightarrow> writer_system \<Rightarrow> bool" where
  "bounded p s \<longleftrightarrow> (\<forall>m. length (sy_queue s m) \<le> wp_capacity p)
     \<and> length (sy_encoder s) \<le> encoder_slots p"

lemma bounded_step:
  assumes "writer_step p s s'" and inv: "writer_inv p s" and "bounded p s"
    and pos: "0 < opt_buffer_bytes (wp_options p)"
  shows "bounded p s'"
  using assms(1)
proof (cases rule: writer_step.cases)
  case (client m cmd)
  from send_fields [OF client] assms(3) show ?thesis by (simp add: bounded_def)
next
  case (worker order now seen clock m)
  from worker(2,1) inv pos show ?thesis
  proof (cases rule: worker_effect)
    case (deliver c cs)
    then show ?thesis using assms(3) by (simp add: bounded_def)
  next
    case (local th added)
    then show ?thesis using assms(3) order_trans [OF local(11)] by (simp add: bounded_def)
  qed
next
  case (encoder io)
  then show ?thesis
    using assms(3)
    by (auto simp: encoder_step_def bounded_def encode_write_fields encode_barrier_def
        split: list.splits encode_command.splits)
qed (use assms(3) in \<open>simp_all add: bounded_def observe_queue_def\<close>)

lemma reachable_bounded:
  assumes "writer_reachable p s" and pos: "0 < opt_buffer_bytes (wp_options p)"
  shows "bounded p s"
  using assms(1)
proof (induction rule: writer_reachable.induct)
  case (start mkdir spawned now fs ms s)
  then show ?case by (auto simp: bounded_def writer_start_def split: if_splits)
next
  case (step s s')
  then show ?case using bounded_step reachable_inv [OF step.hyps(1) pos] pos by blast
qed

subsection \<open>A failed write\<close>

fun encode_writes :: "writer_params \<Rightarrow> (segment_io \<times> encode_job) list \<Rightarrow> writer_system \<Rightarrow> writer_system" where
  "encode_writes p [] s = s"
| "encode_writes p ((io, j) # js) s = encode_writes p js (encode_write p io j s)"

fun first_error :: "'a result list \<Rightarrow> error option" where
  "first_error [] = None"
| "first_error (Inl e # rs) = Some e"
| "first_error (Inr x # rs) = first_error rs"

lemma encode_write_outcome:
  "\<exists>out. sy_done (encode_write p io j s) = sy_done s @ [(j, out)]
     \<and> sy_pending (encode_write p io j s) = option_or (sy_pending s) (first_error [out])"
proof (cases "write_segment (wp_calendar p) (wp_arrow p) io (sy_cache s) (sy_files s) (wp_directory p)
    (wp_exchange p) (job_market j) (job_hour j) (job_sequence j) (job_table j) (job_records j)")
  case (fields cache fs out)
  then show ?thesis
    by (intro exI [of _ out])
      (auto simp: encode_write_def Let_def option_or_def split: sum.splits option.splits)
qed

lemma encode_writes_outcome:
  "\<exists>outs. length outs = length js
     \<and> sy_done (encode_writes p js s) = sy_done s @ zip (map snd js) outs
     \<and> sy_pending (encode_writes p js s) = option_or (sy_pending s) (first_error outs)"
proof (induction js arbitrary: s)
  case Nil
  then show ?case by (cases "sy_pending s") simp_all
next
  case (Cons x js)
  obtain io j where x: "x = (io, j)" by fastforce
  obtain out where out: "sy_done (encode_write p io j s) = sy_done s @ [(j, out)]"
      "sy_pending (encode_write p io j s) = option_or (sy_pending s) (first_error [out])"
    using encode_write_outcome by blast
  obtain outs where outs: "length outs = length js"
      "sy_done (encode_writes p js (encode_write p io j s)) =
        sy_done (encode_write p io j s) @ zip (map snd js) outs"
      "sy_pending (encode_writes p js (encode_write p io j s)) =
        option_or (sy_pending (encode_write p io j s)) (first_error outs)"
    using Cons by blast
  have "option_or (option_or a (first_error [out])) (first_error outs) =
      option_or a (first_error (out # outs))" for a
    by (cases a; cases out) simp_all
  with out outs show ?case by (intro exI [of _ "out # outs"]) (simp add: x)
qed

subsection \<open>Properties\<close>

text \<open>
  C19. The shared byte counter is exact: in every reachable state it is, modulo \<open>2 ^ 64\<close>, the
  number of bytes in the buffers of the workers, on their way to the encoder and in its queue;
  and neither the queue of a market nor that of the encoder ever holds more than its capacity,
  where an encoder channel without a buffer holds the one message that is handed over.
\<close>

theorem writer_counter_exact:
  assumes "writer_reachable p s" and "0 < opt_buffer_bytes (wp_options p)"
  shows "sy_buffered_bytes s = of_nat (bytes_in_memory s)
    \<and> (\<forall>m. length (sy_queue s m) \<le> wp_capacity p)
    \<and> length (sy_encoder s) \<le> max 1 (wp_encoder_capacity p)"
  using reachable_accounting [OF assms] reachable_bounded [OF assms]
  by (simp add: counter_inv_def bounded_def encoder_slots_def)

text \<open>
  In one run of the writer no two segments are written to the same path, whatever markets, tables
  and hours they belong to, as long as fewer than \<open>2 ^ 64\<close> jobs are made.
\<close>

lemma reachable_paths_distinct:
  assumes "writer_reachable p s" and "0 < opt_buffer_bytes (wp_options p)"
    and "length (sy_done s) \<le> 2 ^ 64"
  shows "distinct (map (\<lambda>(j, out). job_path p j) (sy_done s))"
proof -
  have "distinct (map job_sequence (market_jobs m (map fst (sy_done s))))" for m
  proof -
    obtain base where "numbered base (created m s)"
      using reachable_accounting [OF assms(1,2)] by (auto simp: sequence_inv_def)
    then have "numbered base (market_jobs m (map fst (sy_done s)))"
      unfolding created_def by (rule numbered_prefix)
    moreover have "length (market_jobs m (map fst (sy_done s))) \<le> length (sy_done s)"
      unfolding market_jobs_def by (metis length_filter_le length_map)
    ultimately show ?thesis using numbered_distinct assms(3) by (meson order_trans)
  qed
  then have "distinct (map (job_path p) (map fst (sy_done s)))"
    by (intro distinct_job_paths distinct_by_market)
  also have "map (job_path p) (map fst (sy_done s)) = map (\<lambda>(j, out). job_path p j) (sy_done s)"
    by (induction "sy_done s") auto
  finally show ?thesis .
qed

text \<open>
  C37. A failed write is reported by the next barrier: after any sequence of writes the answer to
  a flush is the error pending before, else the first error among those writes, and it is
  positive only if all of them succeeded; the answer clears the error.
\<close>

theorem barrier_reports_first_failure:
  "\<exists>outs. length outs = length js
     \<and> sy_done (encode_writes p js s) = sy_done s @ zip (map snd js) outs
     \<and> sy_barrier (encode_barrier t (encode_writes p js s)) t =
         Some (case option_or (sy_pending s) (first_error outs) of None \<Rightarrow> Inr () | Some e \<Rightarrow> Inl e)
     \<and> sy_pending (encode_barrier t (encode_writes p js s)) = None"
  using encode_writes_outcome [of js p s] by (auto simp: encode_barrier_def)

theorem writer_counter_exact_witness:
  "\<exists>s. writer_reachable sample_params s \<and> map fst (sy_done s) = [sample_job]
     \<and> sy_buffered_bytes s = of_nat (bytes_in_memory s)"
proof -
  obtain s where s: "writer_reachable sample_params s" "map fst (sy_done s) = [sample_job]"
    using sample_run by (elim exE conjE) (rule that)
  have "0 < opt_buffer_bytes (wp_options sample_params)" by (simp add: sample_params_simps)
  from writer_counter_exact [OF s(1) this]
  have "sy_buffered_bytes s = of_nat (bytes_in_memory s)" by (rule conjunct1)
  with s show ?thesis by (intro exI [of _ s] conjI)
qed

end
