(* ===== verification/Schema_Tables.thy ===== *)
theory Schema_Tables
  imports Parquet_Schema
begin

section \<open>The schemas that schema.sql defines\<close>

text \<open>
  Each statement of \<open>schema.sql\<close> evaluated by the model of the parser, and the registry they
  build: twenty tables, whose columns are all nullable, in the order of the SQL text.
\<close>

abbreviation utc_micros :: data_type where
  "utc_micros \<equiv> Timestamp_Micros (Some ''UTC'')"

abbreviation decimal_38_18 :: data_type where
  "decimal_38_18 \<equiv> Decimal128 38 18"

definition nullable_columns :: "(string \<times> data_type) list \<Rightarrow> schema" where
  "nullable_columns = map (\<lambda>(n, t). new_field n t True)"

subsection \<open>The columns of each table\<close>

definition columns_depth_updates :: schema where
  "columns_depth_updates = nullable_columns
     [(''event_time'', utc_micros), (''received_at'', utc_micros), (''symbol'', Utf8),
      (''first_update_id'', UInt64), (''final_update_id'', UInt64), (''source'', Utf8),
      (''bids'', Utf8), (''asks'', Utf8)]"

definition columns_depth_levels :: schema where
  "columns_depth_levels = nullable_columns
     [(''event_time'', utc_micros), (''received_at'', utc_micros), (''symbol'', Utf8),
      (''first_update_id'', UInt64), (''final_update_id'', UInt64), (''side'', Utf8),
      (''level'', Int32), (''price'', decimal_38_18), (''quantity'', decimal_38_18),
      (''source'', Utf8)]"

definition columns_aggregate_trades :: schema where
  "columns_aggregate_trades = nullable_columns
     [(''event_time'', utc_micros), (''received_at'', utc_micros), (''symbol'', Utf8),
      (''aggregate_trade_id'', UInt64), (''price'', decimal_38_18),
      (''quantity'', decimal_38_18), (''first_trade_id'', UInt64), (''last_trade_id'', UInt64),
      (''trade_time'', utc_micros), (''buyer_is_maker'', Bool_Type),
      (''is_best_match'', Bool_Type), (''source'', Utf8)]"

definition columns_trades :: schema where
  "columns_trades = nullable_columns
     [(''event_time'', utc_micros), (''received_at'', utc_micros), (''symbol'', Utf8),
      (''trade_id'', UInt64), (''price'', decimal_38_18), (''quantity'', decimal_38_18),
      (''trade_time'', utc_micros), (''buyer_is_maker'', Bool_Type),
      (''is_best_match'', Bool_Type), (''source'', Utf8)]"

definition columns_book_tickers :: schema where
  "columns_book_tickers = nullable_columns
     [(''received_at'', utc_micros), (''symbol'', Utf8), (''update_id'', UInt64),
      (''bid_price'', decimal_38_18), (''bid_quantity'', decimal_38_18),
      (''ask_price'', decimal_38_18), (''ask_quantity'', decimal_38_18), (''source'', Utf8)]"

definition columns_tickers :: schema where
  "columns_tickers = nullable_columns
     [(''event_time'', utc_micros), (''received_at'', utc_micros), (''symbol'', Utf8),
      (''price_change'', decimal_38_18), (''price_change_percent'', decimal_38_18),
      (''weighted_average_price'', decimal_38_18), (''previous_close_price'', decimal_38_18),
      (''last_price'', decimal_38_18), (''last_quantity'', decimal_38_18),
      (''bid_price'', decimal_38_18), (''bid_quantity'', decimal_38_18),
      (''ask_price'', decimal_38_18), (''ask_quantity'', decimal_38_18),
      (''open_price'', decimal_38_18), (''high_price'', decimal_38_18),
      (''low_price'', decimal_38_18), (''base_volume'', decimal_38_18),
      (''quote_volume'', decimal_38_18), (''statistics_open_time'', utc_micros),
      (''statistics_close_time'', utc_micros), (''first_trade_id'', Int64),
      (''last_trade_id'', Int64), (''trade_count'', UInt64), (''source'', Utf8)]"

definition columns_rolling_tickers :: schema where
  "columns_rolling_tickers = nullable_columns
     [(''event_time'', utc_micros), (''received_at'', utc_micros), (''symbol'', Utf8),
      (''window_size'', Utf8), (''price_change'', decimal_38_18),
      (''price_change_percent'', decimal_38_18), (''open_price'', decimal_38_18),
      (''high_price'', decimal_38_18), (''low_price'', decimal_38_18),
      (''last_price'', decimal_38_18), (''weighted_average_price'', decimal_38_18),
      (''base_volume'', decimal_38_18), (''quote_volume'', decimal_38_18),
      (''statistics_open_time'', utc_micros), (''statistics_close_time'', utc_micros),
      (''first_trade_id'', Int64), (''last_trade_id'', Int64), (''trade_count'', UInt64),
      (''source'', Utf8)]"

definition columns_mini_tickers :: schema where
  "columns_mini_tickers = nullable_columns
     [(''event_time'', utc_micros), (''received_at'', utc_micros), (''symbol'', Utf8),
      (''close_price'', decimal_38_18), (''open_price'', decimal_38_18),
      (''high_price'', decimal_38_18), (''low_price'', decimal_38_18),
      (''base_volume'', decimal_38_18), (''quote_volume'', decimal_38_18), (''source'', Utf8)]"

definition columns_klines :: schema where
  "columns_klines = nullable_columns
     [(''event_time'', utc_micros), (''received_at'', utc_micros), (''symbol'', Utf8),
      (''kline_start_time'', utc_micros), (''kline_close_time'', utc_micros),
      (''kline_symbol'', Utf8), (''interval'', Utf8), (''first_trade_id'', Int64),
      (''last_trade_id'', Int64), (''open_price'', decimal_38_18),
      (''close_price'', decimal_38_18), (''high_price'', decimal_38_18),
      (''low_price'', decimal_38_18), (''base_volume'', decimal_38_18),
      (''trade_count'', UInt64), (''is_closed'', Bool_Type), (''quote_volume'', decimal_38_18),
      (''taker_buy_base_volume'', decimal_38_18), (''taker_buy_quote_volume'', decimal_38_18),
      (''ignored'', decimal_38_18), (''source'', Utf8)]"

definition columns_average_prices :: schema where
  "columns_average_prices = nullable_columns
     [(''event_time'', utc_micros), (''received_at'', utc_micros), (''symbol'', Utf8),
      (''interval'', Utf8), (''average_price'', decimal_38_18),
      (''last_trade_time'', utc_micros), (''source'', Utf8)]"

definition columns_futures_depth_updates :: schema where
  "columns_futures_depth_updates = nullable_columns
     [(''event_time'', utc_micros), (''transaction_time'', utc_micros),
      (''received_at'', utc_micros), (''symbol'', Utf8), (''pair'', Utf8),
      (''first_update_id'', UInt64), (''final_update_id'', UInt64),
      (''previous_final_update_id'', UInt64), (''bids'', Utf8), (''asks'', Utf8),
      (''symbol_type'', Int32), (''source'', Utf8)]"

definition columns_futures_depth_levels :: schema where
  "columns_futures_depth_levels = nullable_columns
     [(''event_time'', utc_micros), (''transaction_time'', utc_micros),
      (''received_at'', utc_micros), (''symbol'', Utf8), (''pair'', Utf8),
      (''first_update_id'', UInt64), (''final_update_id'', UInt64),
      (''previous_final_update_id'', UInt64), (''side'', Utf8), (''level'', Int32),
      (''price'', decimal_38_18), (''quantity'', decimal_38_18), (''source'', Utf8)]"

definition columns_futures_aggregate_trades :: schema where
  "columns_futures_aggregate_trades = nullable_columns
     [(''event_time'', utc_micros), (''received_at'', utc_micros), (''symbol'', Utf8),
      (''pair'', Utf8), (''aggregate_trade_id'', UInt64), (''price'', decimal_38_18),
      (''quantity'', decimal_38_18), (''normal_quantity'', decimal_38_18),
      (''first_trade_id'', UInt64), (''last_trade_id'', UInt64), (''trade_time'', utc_micros),
      (''buyer_is_maker'', Bool_Type), (''symbol_type'', Int32), (''source'', Utf8)]"

definition columns_futures_book_tickers :: schema where
  "columns_futures_book_tickers = nullable_columns
     [(''event_time'', utc_micros), (''transaction_time'', utc_micros),
      (''received_at'', utc_micros), (''symbol'', Utf8), (''update_id'', UInt64),
      (''bid_price'', decimal_38_18), (''bid_quantity'', decimal_38_18),
      (''ask_price'', decimal_38_18), (''ask_quantity'', decimal_38_18), (''pair'', Utf8),
      (''symbol_type'', Int32), (''source'', Utf8)]"

definition columns_futures_mark_prices :: schema where
  "columns_futures_mark_prices = nullable_columns
     [(''event_time'', utc_micros), (''received_at'', utc_micros), (''symbol'', Utf8),
      (''pair'', Utf8), (''mark_price'', decimal_38_18), (''index_price'', decimal_38_18),
      (''estimated_settle_price'', decimal_38_18), (''funding_rate'', decimal_38_18),
      (''next_funding_time'', utc_micros), (''symbol_type'', Int32), (''source'', Utf8)]"

definition columns_futures_liquidations :: schema where
  "columns_futures_liquidations = nullable_columns
     [(''event_time'', utc_micros), (''received_at'', utc_micros), (''symbol'', Utf8),
      (''side'', Utf8), (''order_type'', Utf8), (''time_in_force'', Utf8),
      (''original_quantity'', decimal_38_18), (''price'', decimal_38_18),
      (''average_price'', decimal_38_18), (''order_status'', Utf8),
      (''last_filled_quantity'', decimal_38_18),
      (''accumulated_filled_quantity'', decimal_38_18), (''trade_time'', utc_micros),
      (''pair'', Utf8), (''symbol_type'', Int32), (''source'', Utf8)]"

definition columns_futures_open_interest :: schema where
  "columns_futures_open_interest = nullable_columns
     [(''observed_at'', utc_micros), (''received_at'', utc_micros), (''symbol'', Utf8),
      (''pair'', Utf8), (''contract_type'', Utf8), (''open_interest'', decimal_38_18),
      (''source'', Utf8)]"

definition columns_futures_mini_tickers :: schema where
  "columns_futures_mini_tickers = nullable_columns
     [(''event_time'', utc_micros), (''received_at'', utc_micros), (''symbol'', Utf8),
      (''pair'', Utf8), (''close_price'', decimal_38_18), (''open_price'', decimal_38_18),
      (''high_price'', decimal_38_18), (''low_price'', decimal_38_18),
      (''base_volume'', decimal_38_18), (''quote_volume'', decimal_38_18),
      (''symbol_type'', Int32), (''source'', Utf8)]"

definition columns_futures_tickers :: schema where
  "columns_futures_tickers = nullable_columns
     [(''event_time'', utc_micros), (''received_at'', utc_micros), (''symbol'', Utf8),
      (''pair'', Utf8), (''price_change'', decimal_38_18),
      (''price_change_percent'', decimal_38_18), (''weighted_average_price'', decimal_38_18),
      (''last_price'', decimal_38_18), (''last_quantity'', decimal_38_18),
      (''open_price'', decimal_38_18), (''high_price'', decimal_38_18),
      (''low_price'', decimal_38_18), (''base_volume'', decimal_38_18),
      (''quote_volume'', decimal_38_18), (''statistics_open_time'', utc_micros),
      (''statistics_close_time'', utc_micros), (''first_trade_id'', Int64),
      (''last_trade_id'', Int64), (''trade_count'', UInt64), (''symbol_type'', Int32),
      (''source'', Utf8)]"

definition columns_futures_klines :: schema where
  "columns_futures_klines = nullable_columns
     [(''event_time'', utc_micros), (''received_at'', utc_micros), (''symbol'', Utf8),
      (''pair'', Utf8), (''kline_start_time'', utc_micros), (''kline_close_time'', utc_micros),
      (''interval'', Utf8), (''first_trade_id'', Int64), (''last_trade_id'', Int64),
      (''open_price'', decimal_38_18), (''close_price'', decimal_38_18),
      (''high_price'', decimal_38_18), (''low_price'', decimal_38_18),
      (''base_volume'', decimal_38_18), (''trade_count'', UInt64), (''is_closed'', Bool_Type),
      (''quote_volume'', decimal_38_18), (''taker_buy_base_volume'', decimal_38_18),
      (''taker_buy_quote_volume'', decimal_38_18), (''ignored'', decimal_38_18),
      (''symbol_type'', Int32), (''source'', Utf8)]"

lemmas columns_defs =
  columns_depth_updates_def columns_depth_levels_def columns_aggregate_trades_def
  columns_trades_def columns_book_tickers_def columns_tickers_def
  columns_rolling_tickers_def columns_mini_tickers_def columns_klines_def
  columns_average_prices_def columns_futures_depth_updates_def
  columns_futures_depth_levels_def columns_futures_aggregate_trades_def
  columns_futures_book_tickers_def columns_futures_mark_prices_def
  columns_futures_liquidations_def columns_futures_open_interest_def
  columns_futures_mini_tickers_def columns_futures_tickers_def columns_futures_klines_def

text \<open>The registry, in the order of the statements.\<close>

definition schema_registry :: "(string \<times> schema) list" where
  "schema_registry =
     [(''depth_updates'', columns_depth_updates),
      (''depth_levels'', columns_depth_levels),
      (''aggregate_trades'', columns_aggregate_trades),
      (''trades'', columns_trades),
      (''book_tickers'', columns_book_tickers),
      (''tickers'', columns_tickers),
      (''rolling_tickers'', columns_rolling_tickers),
      (''mini_tickers'', columns_mini_tickers),
      (''klines'', columns_klines),
      (''average_prices'', columns_average_prices),
      (''futures_depth_updates'', columns_futures_depth_updates),
      (''futures_depth_levels'', columns_futures_depth_levels),
      (''futures_aggregate_trades'', columns_futures_aggregate_trades),
      (''futures_book_tickers'', columns_futures_book_tickers),
      (''futures_mark_prices'', columns_futures_mark_prices),
      (''futures_liquidations'', columns_futures_liquidations),
      (''futures_open_interest'', columns_futures_open_interest),
      (''futures_mini_tickers'', columns_futures_mini_tickers),
      (''futures_tickers'', columns_futures_tickers),
      (''futures_klines'', columns_futures_klines)]"

subsection \<open>One statement at a time\<close>

lemma parse_sql_depth_updates: "parse_statement sql_depth_updates = Inr (Some (''depth_updates'', columns_depth_updates))"
  by code_simp

lemma parse_sql_depth_levels: "parse_statement sql_depth_levels = Inr (Some (''depth_levels'', columns_depth_levels))"
  by code_simp

lemma parse_sql_aggregate_trades: "parse_statement sql_aggregate_trades = Inr (Some (''aggregate_trades'', columns_aggregate_trades))"
  by code_simp

lemma parse_sql_trades: "parse_statement sql_trades = Inr (Some (''trades'', columns_trades))"
  by code_simp

lemma parse_sql_book_tickers: "parse_statement sql_book_tickers = Inr (Some (''book_tickers'', columns_book_tickers))"
  by code_simp

lemma parse_sql_tickers: "parse_statement sql_tickers = Inr (Some (''tickers'', columns_tickers))"
  by code_simp

lemma parse_sql_rolling_tickers: "parse_statement sql_rolling_tickers = Inr (Some (''rolling_tickers'', columns_rolling_tickers))"
  by code_simp

lemma parse_sql_mini_tickers: "parse_statement sql_mini_tickers = Inr (Some (''mini_tickers'', columns_mini_tickers))"
  by code_simp

lemma parse_sql_klines: "parse_statement sql_klines = Inr (Some (''klines'', columns_klines))"
  by code_simp

lemma parse_sql_average_prices: "parse_statement sql_average_prices = Inr (Some (''average_prices'', columns_average_prices))"
  by code_simp

lemma parse_sql_futures_depth_updates: "parse_statement sql_futures_depth_updates = Inr (Some (''futures_depth_updates'', columns_futures_depth_updates))"
  by code_simp

lemma parse_sql_futures_depth_levels: "parse_statement sql_futures_depth_levels = Inr (Some (''futures_depth_levels'', columns_futures_depth_levels))"
  by code_simp

lemma parse_sql_futures_aggregate_trades: "parse_statement sql_futures_aggregate_trades = Inr (Some (''futures_aggregate_trades'', columns_futures_aggregate_trades))"
  by code_simp

lemma parse_sql_futures_book_tickers: "parse_statement sql_futures_book_tickers = Inr (Some (''futures_book_tickers'', columns_futures_book_tickers))"
  by code_simp

lemma parse_sql_futures_mark_prices: "parse_statement sql_futures_mark_prices = Inr (Some (''futures_mark_prices'', columns_futures_mark_prices))"
  by code_simp

lemma parse_sql_futures_liquidations: "parse_statement sql_futures_liquidations = Inr (Some (''futures_liquidations'', columns_futures_liquidations))"
  by code_simp

lemma parse_sql_futures_open_interest: "parse_statement sql_futures_open_interest = Inr (Some (''futures_open_interest'', columns_futures_open_interest))"
  by code_simp

lemma parse_sql_futures_mini_tickers: "parse_statement sql_futures_mini_tickers = Inr (Some (''futures_mini_tickers'', columns_futures_mini_tickers))"
  by code_simp

lemma parse_sql_futures_tickers: "parse_statement sql_futures_tickers = Inr (Some (''futures_tickers'', columns_futures_tickers))"
  by code_simp

lemma parse_sql_futures_klines: "parse_statement sql_futures_klines = Inr (Some (''futures_klines'', columns_futures_klines))"
  by code_simp

lemma parse_alter_depth_updates_bids: "parse_statement alter_depth_updates_bids = Inr None"
  by code_simp

lemma parse_alter_depth_updates_asks: "parse_statement alter_depth_updates_asks = Inr None"
  by code_simp

lemma parse_alter_futures_depth_updates_bids: "parse_statement alter_futures_depth_updates_bids = Inr None"
  by code_simp

lemma parse_alter_futures_depth_updates_asks: "parse_statement alter_futures_depth_updates_asks = Inr None"
  by code_simp

lemmas parse_sql =
  parse_sql_depth_updates parse_sql_depth_levels parse_sql_aggregate_trades
  parse_sql_trades parse_sql_book_tickers parse_sql_tickers parse_sql_rolling_tickers
  parse_sql_mini_tickers parse_sql_klines parse_sql_average_prices
  parse_sql_futures_depth_updates parse_sql_futures_depth_levels
  parse_sql_futures_aggregate_trades parse_sql_futures_book_tickers
  parse_sql_futures_mark_prices parse_sql_futures_liquidations
  parse_sql_futures_open_interest parse_sql_futures_mini_tickers parse_sql_futures_tickers
  parse_sql_futures_klines parse_alter_depth_updates_bids parse_alter_depth_updates_asks
  parse_alter_futures_depth_updates_bids parse_alter_futures_depth_updates_asks

subsection \<open>The whole text\<close>

lemma split_statements:
  assumes "\<forall>s \<in> set ss. CHR '';'' \<notin> set s"
  shows "split_on CHR '';'' (CHR 0x0A # concat (map (\<lambda>s. s @ [CHR '';'', CHR 0x0A]) ss)) =
     map (\<lambda>s. CHR 0x0A # s) ss @ [[CHR 0x0A]]"
  using assms
proof (induction ss)
  case (Cons s ss)
  let ?rest = "CHR 0x0A # concat (map (\<lambda>s. s @ [CHR '';'', CHR 0x0A]) ss)"
  have "CHR '';'' \<notin> set (CHR 0x0A # s)" using Cons.prems by simp
  from split_on_append [OF this, of ?rest] Cons show ?case by simp
qed simp

lemma parse_statement_newline: "parse_statement (CHR 0x0A # s) = parse_statement s"
  by (simp add: parse_statement_def trim_def is_space_def)

lemma parse_statements_newline:
  "parse_statements (map (\<lambda>s. CHR 0x0A # s) ss @ [[CHR 0x0A]]) m = parse_statements ss m"
proof (induction ss arbitrary: m)
  case Nil
  have "parse_statement [CHR 0x0A] = Inr None" by code_simp
  then show ?case by simp
next
  case (Cons s ss)
  show ?case
  proof (cases "parse_statement s")
    case (Inr x)
    then show ?thesis
      by (cases x) (auto simp: parse_statement_newline Cons.IH simp del: fun_upd_apply)
  qed (simp add: parse_statement_newline)
qed

lemma no_semicolon: "\<forall>s \<in> set schema_statements. CHR '';'' \<notin> set s"
  by code_simp

lemma parse_schemas_statements: "parse_schemas = parse_statements schema_statements Map.empty"
proof -
  have "parse_statements (split_on CHR '';'' (CHR 0x0A # schema_sql)) Map.empty =
      parse_statements schema_statements Map.empty"
    unfolding schema_sql_def split_statements [OF no_semicolon] by (rule parse_statements_newline)
  moreover have "parse_statements (split_on CHR '';'' (CHR 0x0A # s)) m =
      parse_statements (split_on CHR '';'' s) m" for s m
  proof -
    obtain w ws where "split_on CHR '';'' s = w # ws" by (cases "split_on CHR '';'' s") auto
    then show ?thesis by (simp add: parse_statement_newline)
  qed
  ultimately show ?thesis by (simp add: parse_schemas_def)
qed

lemma parse_statements_append:
  "parse_statements (ss @ ts) m = result_bind (parse_statements ss m) (parse_statements ts)"
  by (induction ss arbitrary: m) (auto split: sum.split option.split)

lemma schema_registry_distinct: "distinct (map fst schema_registry)"
  by code_simp

lemma parse_schemas_eq: "parse_schemas = Inr (map_of schema_registry)"
proof -
  have "parse_schemas = Inr (map_of (rev schema_registry))"
    unfolding parse_schemas_statements schema_statements_def
    by (simp add: parse_sql schema_registry_def)
  moreover have "map_of (rev schema_registry) = map_of schema_registry"
    by (metis map_of_inject_set distinct_rev rev_map schema_registry_distinct set_rev)
  ultimately show ?thesis by simp
qed

lemma registry_lookup:
  "map_of schema_registry ''depth_updates'' = Some columns_depth_updates"
  "map_of schema_registry ''depth_levels'' = Some columns_depth_levels"
  "map_of schema_registry ''aggregate_trades'' = Some columns_aggregate_trades"
  "map_of schema_registry ''trades'' = Some columns_trades"
  "map_of schema_registry ''book_tickers'' = Some columns_book_tickers"
  "map_of schema_registry ''tickers'' = Some columns_tickers"
  "map_of schema_registry ''rolling_tickers'' = Some columns_rolling_tickers"
  "map_of schema_registry ''mini_tickers'' = Some columns_mini_tickers"
  "map_of schema_registry ''klines'' = Some columns_klines"
  "map_of schema_registry ''average_prices'' = Some columns_average_prices"
  "map_of schema_registry ''futures_depth_updates'' = Some columns_futures_depth_updates"
  "map_of schema_registry ''futures_depth_levels'' = Some columns_futures_depth_levels"
  "map_of schema_registry ''futures_aggregate_trades'' = Some columns_futures_aggregate_trades"
  "map_of schema_registry ''futures_book_tickers'' = Some columns_futures_book_tickers"
  "map_of schema_registry ''futures_mark_prices'' = Some columns_futures_mark_prices"
  "map_of schema_registry ''futures_liquidations'' = Some columns_futures_liquidations"
  "map_of schema_registry ''futures_open_interest'' = Some columns_futures_open_interest"
  "map_of schema_registry ''futures_mini_tickers'' = Some columns_futures_mini_tickers"
  "map_of schema_registry ''futures_tickers'' = Some columns_futures_tickers"
  "map_of schema_registry ''futures_klines'' = Some columns_futures_klines"
  by (simp_all add: schema_registry_def)

text \<open>
  C22. \<open>parse_schemas\<close> succeeds on the \<open>schema.sql\<close> of the repository, and the registry is
  exactly the twenty tables with their columns.
\<close>

theorem parse_schemas_registry:
  "parse_schemas = Inr (map_of schema_registry) \<and> length schema_registry = 20
   \<and> distinct (map fst schema_registry)"
  using parse_schemas_eq schema_registry_distinct by (simp add: schema_registry_def)

end
