(* ===== verification/Parser_Schema.thy ===== *)
theory Parser_Schema
  imports Futures_Parser Parquet_Store Schema_Tables
begin

section \<open>Every parsed record fits its table\<close>

text \<open>
  The parsers build their value lists by hand and \<open>schema.sql\<close> lists the columns by hand.
  Here the two are compared: each record that a parser produces names a table of the registry,
  has as many values as the table has columns, and has in each place a variant that the column
  stores. A record that did not would fail the whole segment, or lose values silently.
\<close>

named_theorems fits \<open>the field builders produce the variant of their column type\<close>

definition record_conforms :: "data_record \<Rightarrow> bool" where
  "record_conforms r =
     (case uncached_schema (rec_table r) of Inl _ \<Rightarrow> False | Inr schema \<Rightarrow> conforms schema r)"

lemma uncached_schema_registry:
  "uncached_schema table =
     with_context (map_of schema_registry table) (''unknown table schema '' @ table)"
  by (simp add: uncached_schema_def parse_schemas_eq)

lemma record_conforms_iff:
  "record_conforms r \<longleftrightarrow>
     (case map_of schema_registry (rec_table r) of None \<Rightarrow> False | Some s \<Rightarrow> conforms s r)"
  by (cases "map_of schema_registry (rec_table r)")
    (simp_all add: record_conforms_def uncached_schema_registry)

subsection \<open>Field builders\<close>

lemma fits_shared [fits]:
  "value_fits (Timestamp_Micros z) (timestamp_value t)"
  "value_fits Utf8 (text_value s)"
  "value_fits Utf8 (static_text s)"
  "value_fits UInt64 (uint_value raw)"
  "value_fits Int64 (integer_value raw)"
  by (simp_all add: timestamp_value_def text_value_def static_text_def uint_value_def
      integer_value_def)

lemma fits_spot [fits]:
  "value_fits (Timestamp_Micros z) (spot_millis cd raw t)"
  "value_fits (Timestamp_Micros z) (spot_event_time cd d t)"
  "value_fits (Decimal128 p s) (spot_decimal raw)"
  "value_fits Bool_Type (spot_boolean raw b)"
  by (simp_all add: spot_millis_def spot_event_time_def timestamp_value_def spot_decimal_def
      decimal_value_def spot_boolean_def Let_def)

lemma fits_futures [fits]:
  "value_fits (Timestamp_Micros z) (futures_millis cd raw t)"
  "value_fits (Timestamp_Micros z) (rest_millis cd v key t)"
  "value_fits (Decimal128 p s) (futures_decimal raw)"
  "value_fits (Decimal128 p s) (futures_decimal_value text)"
  "value_fits Bool_Type (futures_boolean raw)"
  "value_fits Int32 (optional_integer raw)"
  by (simp_all add: futures_millis_def rest_millis_def timestamp_value_def futures_decimal_def
      futures_decimal_value_def decimal_value_def futures_boolean_def optional_integer_def Let_def
      split: option.split)

lemmas record_shape = record_conforms_iff registry_lookup conforms_def columns_defs
  nullable_columns_def new_field_def mk_record_def mk_futures_record_def

subsection \<open>Spot\<close>

lemma spot_depth_conforms [fits]: "record_conforms (spot_parse_depth cd d received source)"
  by (simp add: spot_parse_depth_def record_shape fits)

lemma spot_ticker_conforms [fits]: "record_conforms (spot_parse_ticker cd d received source)"
  by (simp add: spot_parse_ticker_def record_shape fits)

lemma spot_rolling_conforms [fits]: "record_conforms (spot_parse_rolling_ticker cd d received source)"
  by (simp add: spot_parse_rolling_ticker_def Let_def record_shape fits)

lemma spot_kline_conforms [fits]:
  "spot_parse_kline cd d received source = Inr r \<Longrightarrow> record_conforms r"
  by (auto simp: spot_parse_kline_def result_bind_Inr record_shape fits)

lemma spot_event_conforms:
  "spot_parse_event cd stream d received source = Inr (Some r) \<Longrightarrow> record_conforms r"
  unfolding spot_parse_event_def Let_def
  by (auto simp: result_bind_Inr fits split: if_splits) (simp_all add: record_shape fits)

subsection \<open>Futures\<close>

lemma futures_kline_conforms [fits]:
  "futures_kline cd d received source = Inr r \<Longrightarrow> record_conforms r"
  by (auto simp: futures_kline_def result_bind_Inr record_shape fits)

lemma liquidation_conforms [fits]:
  "liquidation cd d received source = Inr r \<Longrightarrow> record_conforms r"
  by (auto simp: liquidation_def result_bind_Inr record_shape fits)

lemma futures_tables_conform [fits]:
  "record_conforms (futures_parse_depth cd d received source)"
  "record_conforms (aggregate_trade cd d received source)"
  "record_conforms (book_ticker cd d received source)"
  "record_conforms (mark_price cd d received source)"
  "record_conforms (mini_ticker cd d received source)"
  "record_conforms (futures_ticker cd d received source)"
  by (simp_all add: futures_parse_depth_def aggregate_trade_def book_ticker_def mark_price_def
      mini_ticker_def futures_ticker_def record_shape fits)

lemma futures_event_conforms:
  "futures_parse_event cd d received source = Inr (Some r) \<Longrightarrow> record_conforms r"
  unfolding futures_parse_event_def Let_def
  by (auto simp: result_bind_Inr fits split: if_splits)

subsection \<open>Whole payloads\<close>

lemma push_events_conform:
  assumes "\<And>d r. f d = Inr (Some r) \<Longrightarrow> record_conforms r"
  shows "list_all record_conforms (drop (length records) (fst (push_events f ds records)))"
proof -
  obtain new out where p: "push_events f ds records = (records @ new, out)"
    using push_events_prefix [of f ds records] by (metis eq_fst_iff)
  from push_events_new [OF p] assms show ?thesis by (auto simp: p list_all_iff)
qed

lemma spot_parse_into_conforms:
  "list_all record_conforms
     (drop (length records) (fst (spot_parse_into cd payload received source records)))"
  unfolding spot_parse_into_def
  by (auto split: sum.split prod.split intro!: push_events_conform spot_event_conforms)

lemma futures_parse_into_conforms:
  "list_all record_conforms
     (drop (length records) (fst (futures_parse_into cd payload received source records)))"
proof (cases "decode cd payload")
  case (Inr v)
  obtain stream events where v: "v = (stream, events)" by fastforce
  let ?f = "\<lambda>d. futures_parse_event cd d received source"
  obtain new out where p: "push_events ?f (events_collect events) records = (records @ new, out)"
    using push_events_prefix [of ?f "events_collect events" records] by (metis eq_fst_iff)
  have new: "list_all record_conforms new"
    using push_events_conform [of ?f records "events_collect events"] futures_event_conforms
    by (auto simp: p)
  show ?thesis
  proof (cases "out = Inr () \<and> new = []")
    case True
    then show ?thesis
      using spot_parse_into_conforms [of records cd payload received source]
      by (simp add: futures_parse_into_def Inr v p)
  next
    case False
    with new show ?thesis
      by (cases out) (auto simp: futures_parse_into_def Inr v p)
  qed
qed (simp add: futures_parse_into_def)

lemma open_interest_conforms: "record_conforms (parse_open_interest cd symbol v received source)"
  by (simp add: parse_open_interest_def record_shape fits)

subsection \<open>Properties\<close>

text \<open>
  C20. Every record that a payload adds to the batch, from the futures parser, from the Spot
  parser it falls back to or from the Spot parser alone, and even when the payload fails half way,
  belongs to a table of \<open>schema.sql\<close> and conforms to its columns in number and type; and so does
  every record of the open-interest poller.
\<close>

theorem parsed_records_conform:
  "list_all record_conforms
     (drop (length records) (fst (futures_parse_into cd payload received source records)))
   \<and> list_all record_conforms
     (drop (length records) (fst (spot_parse_into cd payload received source records)))
   \<and> record_conforms (parse_open_interest cd symbol v received source)"
  by (intro conjI futures_parse_into_conforms spot_parse_into_conforms open_interest_conforms)

end
