(* ===== verification/Writer_Files.thy ===== *)
theory Writer_Files
  imports Writer_Accounting Ingest Parser_Schema
begin

section \<open>What the writer leaves on disk\<close>

text \<open>
  The files of a run of \<open>Writer_System\<close>. Only the encoder touches them, each job has a path of
  its own, and a temporary file never has the name of a segment; so a segment that was written
  stays as it was written, whatever fails later.
\<close>

subsection \<open>Steps that touch the disk\<close>

definition disk ::
  "writer_system \<Rightarrow> (string \<rightharpoonup> schema) option \<times> file_system \<times> (encode_job \<times> segment result) list
     \<times> segment list \<times> u64 \<times> u64" where
  "disk s = (sy_cache s, sy_files s, sy_done s, sy_segments s, sy_parquet_segments s, sy_parquet_bytes s)"

lemma send_disk: "send_command p m cmd s = Some s' \<Longrightarrow> disk s' = disk s"
  by (auto simp: send_command_def Let_def disk_def split: if_splits command.splits)

lemma worker_disk: "worker_step p order now seen clock m s = Some s' \<Longrightarrow> disk s' = disk s"
  by (erule worker_step_cases) (simp_all add: disk_def)

lemma writer_step_disk:
  assumes "writer_step p s s'"
  obtains (same) "disk s' = disk s"
    | (encode) io j rest where "sy_encoder s = WriteJob j # rest"
      "s' = encode_write p io j (s\<lparr>sy_encoder := rest\<rparr>)"
  using assms
proof (cases rule: writer_step.cases)
  case (encoder io)
  then show ?thesis
    by (auto simp: encoder_step_def encode_barrier_def disk_def
        split: list.splits encode_command.splits intro: same encode)
qed (auto intro: same dest: send_disk worker_disk simp: observe_queue_def disk_def)

subsection \<open>The invariant\<close>

definition stored :: "writer_params \<Rightarrow> file_system \<Rightarrow> encode_job \<Rightarrow> segment \<Rightarrow> bool" where
  "stored p fs j seg \<longleftrightarrow>
     seg_path seg = job_path p j \<and> seg_rows seg = length (job_records j) \<and>
     (\<exists>schema batch. uncached_schema (job_table j) = Inr schema
        \<and> build_record_batch (wp_arrow p) schema (job_records j) = Inr batch
        \<and> fs (job_path p j) = Some (encode_parquet (wp_arrow p) batch)
        \<and> seg_bytes seg = length (encode_parquet (wp_arrow p) batch))"

definition written_segments :: "(encode_job \<times> segment result) list \<Rightarrow> segment list" where
  "written_segments js = List.map_filter (\<lambda>(j, out). case out of Inl _ \<Rightarrow> None | Inr seg \<Rightarrow> Some seg) js"

definition files_inv :: "writer_params \<Rightarrow> writer_system \<Rightarrow> bool" where
  "files_inv p s \<longleftrightarrow> cache_ok (sy_cache s)
     \<and> (\<forall>j seg. (j, Inr seg) \<in> set (sy_done s) \<longrightarrow> stored p (sy_files s) j seg)
     \<and> sy_segments s = written_segments (sy_done s)
     \<and> sy_parquet_segments s = of_nat (length (sy_segments s))
     \<and> sy_parquet_bytes s = of_nat (sum_list (map seg_bytes (sy_segments s)))"

lemma files_inv_disk: "disk s' = disk s \<Longrightarrow> files_inv p s' = files_inv p s"
  by (simp add: files_inv_def disk_def)

lemma written_segments_snoc [simp]:
  "written_segments (js @ [(j, Inr seg)]) = written_segments js @ [seg]"
  "written_segments (js @ [(j, Inl e)]) = written_segments js"
  by (simp_all add: written_segments_def List.map_filter_def)

lemma temporary_not_segment: "temporary_path (job_path p j) \<noteq> job_path p k"
proof -
  have "last (segment_name a @ ''.tmp'') \<noteq> last (segment_name b)" for a b
    by (simp add: segment_name_def)
  then have "segment_name a @ ''.tmp'' \<noteq> segment_name b" for a b by metis
  then show ?thesis by (simp add: job_path_def segment_path_def temporary_path_segment)
qed

lemma write_segment_cache:
  assumes "write_segment cal lib io cache fs root exch m h sequence table rs = (cache', fs', out)"
  shows "cache' = fst (schema_for cache table)"
  using assms by (auto simp: write_segment_def Let_def split: prod.splits sum.splits if_splits)

lemma encode_write_files:
  assumes inv: "files_inv p s"
    and fresh: "job_path p j \<notin> (\<lambda>(k, out). job_path p k) ` set (sy_done s)"
  shows "files_inv p (encode_write p io j s)"
proof -
  obtain cache fs out where w: "write_segment (wp_calendar p) (wp_arrow p) io (sy_cache s) (sy_files s)
      (wp_directory p) (wp_exchange p) (job_market j) (job_hour j) (job_sequence j) (job_table j)
      (job_records j) = (cache, fs, out)"
    by (metis prod_cases3)
  have path: "segment_path (wp_calendar p) (wp_directory p) (wp_exchange p) (job_market j)
      (job_hour j) (job_sequence j) (job_table j) = job_path p j"
    by (simp add: job_path_def)
  have cached: "cache_ok (sy_cache s)" using inv by (simp add: files_inv_def)
  have cache: "cache_ok cache" "snd (schema_for (sy_cache s) (job_table j)) = uncached_schema (job_table j)"
    using schema_for_cached [OF cached] write_segment_cache [OF w] by simp_all
  have frame: "fs |` (- {job_path p j, temporary_path (job_path p j)}) =
      sy_files s |` (- {job_path p j, temporary_path (job_path p j)})"
    using write_segment_frame [where cal = "wp_calendar p" and lib = "wp_arrow p" and io = io
        and cache = "sy_cache s" and fs = "sy_files s" and root = "wp_directory p"
        and exchange = "wp_exchange p" and market = "job_market j" and h = "job_hour j"
        and sequence = "job_sequence j" and table = "job_table j" and rs = "job_records j"]
    unfolding w Let_def path by simp
  have other: "fs (job_path p k) = sy_files s (job_path p k)" if "job_path p k \<noteq> job_path p j" for k
    using fun_cong [OF frame, of "job_path p k"] that temporary_not_segment [of p j k]
    by (simp add: restrict_map_def)
  have old: "stored p fs k seg" if "(k, Inr seg) \<in> set (sy_done s)" for k seg
  proof -
    have "job_path p k \<noteq> job_path p j" using fresh that by force
    then show ?thesis using inv that other [of k] unfolding files_inv_def stored_def by metis
  qed
  have new: "stored p fs j seg" if "out = Inr seg" for seg
    using write_segment_success [OF w [unfolded that]] unfolding cache(2) path by (auto simp: stored_def)
  show ?thesis
    using inv old new cache(1)
    by (cases out) (auto simp: encode_write_def w Let_def files_inv_def)
qed

lemma reachable_files:
  assumes "writer_reachable p s" and pos: "0 < opt_buffer_bytes (wp_options p)"
    and "length (sy_done s) \<le> 2 ^ 64"
  shows "files_inv p s"
  using assms(1,3)
proof (induction rule: writer_reachable.induct)
  case (start mkdir spawned now fs ms s)
  then show ?case
    by (auto simp: files_inv_def cache_ok_def written_segments_def List.map_filter_def writer_start_def
        split: if_splits)
next
  case (step s s')
  note reach = writer_reachable.step [OF step.hyps(1,2)]
  from step.hyps(2) show ?case
  proof (cases rule: writer_step_disk)
    case same
    then have "sy_done s' = sy_done s" by (simp add: disk_def)
    then show ?thesis using same step.IH step.prems files_inv_disk by metis
  next
    case (encode io j rest)
    let ?s = "s\<lparr>sy_encoder := rest\<rparr>"
    obtain out where d: "sy_done s' = sy_done s @ [(j, out)]"
      using encode_write_outcome [of p io j ?s] encode(2) by auto
    then have "files_inv p s" using step.IH step.prems by simp
    then have inv: "files_inv p ?s" by (simp add: files_inv_def)
    have "distinct (map (\<lambda>(j, out). job_path p j) (sy_done s @ [(j, out)]))"
      using reachable_paths_distinct [OF reach pos step.prems] by (simp only: d)
    then have "job_path p j \<notin> (\<lambda>(k, out). job_path p k) ` set (sy_done ?s)" by simp
    then show ?thesis unfolding encode(2) by (rule encode_write_files [OF inv])
  qed
qed

subsection \<open>Properties\<close>

text \<open>
  C10. A written segment stays complete on disk as far as the writer is concerned: in every state
  that the writer reaches, whatever other writes failed in whatever way, the file of each job that
  was reported as written holds the Parquet encoding of exactly the job's records under the
  table's schema, and the numbers of segments and bytes that the writer reports count just these
  files. The archiver, which removes files that are uploaded, is no part of these states.
\<close>

theorem done_segments_on_disk:
  assumes "writer_reachable p s" and "0 < opt_buffer_bytes (wp_options p)"
    and "length (sy_done s) \<le> 2 ^ 64"
  shows "(\<forall>j seg. (j, Inr seg) \<in> set (sy_done s) \<longrightarrow>
      (\<exists>schema batch. uncached_schema (job_table j) = Inr schema
         \<and> build_record_batch (wp_arrow p) schema (job_records j) = Inr batch
         \<and> sy_files s (seg_path seg) = Some (encode_parquet (wp_arrow p) batch)))
    \<and> sy_segments s = written_segments (sy_done s)
    \<and> sy_parquet_segments s = of_nat (length (sy_segments s))
    \<and> sy_parquet_bytes s = of_nat (sum_list (map seg_bytes (sy_segments s)))"
  using reachable_files [OF assms] unfolding files_inv_def stored_def by metis

subsection \<open>An instance\<close>

text \<open>One trade is accepted, flushed at once because segments are full with one byte, and written.\<close>

definition one_trade_params :: writer_params where
  "one_trade_params = sample_params
     \<lparr>wp_options := \<lparr>opt_buffer_bytes = 1000, opt_segment_bytes = 1, opt_flush_interval = 1\<rparr>,
      wp_calendar := \<lparr>cal_year = (\<lambda>_. 2026), cal_month = (\<lambda>_. 8), cal_day = (\<lambda>_. 3), cal_hour = (\<lambda>_. 12),
        cal_parse_naive = (\<lambda>_. None)\<rparr>,
      wp_arrow := sample_arrow\<rparr>"

definition one_trade_sent :: writer_system where
  "one_trade_sent = sample_start
     \<lparr>sy_queue := (\<lambda>m. if m = Spot then [Records [trade_record]] else []),
      sy_accepted := (\<lambda>m. if m = Spot then {#trade_record#} else {#})\<rparr>"

definition one_trade_job :: encode_job where
  "one_trade_job = \<lparr>job_market = Spot, job_hour = 0, job_sequence = 1, job_table = ''trades'',
     job_records = [trade_record], job_bytes = record_bytes sample_layout trade_record\<rparr>"

definition all_ok :: segment_io where
  "all_ok = \<lparr>mkdir_ok = True, zstd_ok = True, create_ok = True, writer_ok = True, write_ok = True,
     close_ok = True, rename_ok = True, metadata_ok = True, partial_bytes = []\<rparr>"

fun worker_steps :: "nat \<Rightarrow> writer_params \<Rightarrow> writer_system \<Rightarrow> writer_system option" where
  "worker_steps 0 p s = Some s"
| "worker_steps (Suc n) p s =
     Option.bind (worker_step p (\<lambda>al. al) 0 (\<lambda>_. 0) (\<lambda>_. 0) Spot s) (worker_steps n p)"

lemma worker_steps_reachable:
  "worker_steps n p s = Some s' \<Longrightarrow> writer_reachable p s \<Longrightarrow> writer_reachable p s'"
proof (induction n arbitrary: s)
  case (Suc n)
  then show ?case
    using writer_reachable.step [OF _ writer_step.worker [OF iteration_order_id]]
    by (auto split: Option.bind_splits)
qed simp

lemma one_trade_delivered:
  "case worker_steps 3 one_trade_params one_trade_sent of
     None \<Rightarrow> False
   | Some s \<Rightarrow> sy_encoder s = [WriteJob one_trade_job] \<and> sy_done s = [] \<and> Option.is_none (sy_cache s)"
  by code_simp

lemma one_trade_written:
  "\<exists>cache fs seg. write_segment (wp_calendar one_trade_params) (wp_arrow one_trade_params) all_ok None fs0
     dir exch Spot 0 1 ''trades'' [trade_record] = (cache, fs, Inr seg)"
proof -
  have "uncached_schema ''trades'' = Inr columns_trades"
    by (simp add: uncached_schema_registry registry_lookup)
  then obtain cache where cache: "schema_for None ''trades'' = (cache, Inr columns_trades)"
    using schema_for_cached(1) [of None "''trades''"]
    by (cases "schema_for None ''trades''") (simp add: cache_ok_def)
  have "is_ok (build_record_batch sample_arrow columns_trades [trade_record])" by code_simp
  then obtain batch where "build_record_batch sample_arrow columns_trades [trade_record] = Inr batch"
    by (auto simp: is_ok_iff)
  then show ?thesis
    using cache by (simp add: write_segment_def one_trade_params_def all_ok_def Let_def)
qed

lemma worker_steps_accepted: "worker_steps n p s = Some s' \<Longrightarrow> sy_accepted s' = sy_accepted s"
proof (induction n arbitrary: s)
  case (Suc n)
  then show ?case using worker_accepted by (fastforce split: Option.bind_splits)
qed simp

lemma one_trade_queued:
  "\<exists>s. writer_reachable one_trade_params s \<and> sy_encoder s = [WriteJob one_trade_job] \<and> sy_done s = []
     \<and> sy_cache s = None \<and> sy_accepted s = sy_accepted one_trade_sent"
proof -
  have "writer_start one_trade_params True (True, True) (\<lambda>_. (0, 0)) (\<lambda>_. None) default_metrics =
      Some (Inr sample_start)"
    using sample_start_started by (simp add: writer_start_def one_trade_params_def split: if_splits)
  then have start: "writer_reachable one_trade_params sample_start" by (rule writer_reachable.start)
  have "record_bytes sample_layout trade_record \<le> 1000" by code_simp
  then have "send_command one_trade_params Spot (Records [trade_record]) sample_start = Some one_trade_sent"
    by (simp add: send_command_def sample_start_def one_trade_params_def sample_params_def
        idle_thread_def receiving_def Let_def batch_bytes_def usize_max_def one_trade_sent_def fun_eq_iff)
  then have sent: "writer_reachable one_trade_params one_trade_sent"
    using writer_reachable.step [OF start] writer_step.client by blast
  obtain s where s: "worker_steps 3 one_trade_params one_trade_sent = Some s"
      "sy_encoder s = [WriteJob one_trade_job]" "sy_done s = []" "sy_cache s = None"
    using one_trade_delivered by (auto split: option.splits simp: Option.is_none_def)
  then show ?thesis using worker_steps_reachable [OF s(1) sent] worker_steps_accepted [OF s(1)] by blast
qed

lemma one_trade_run:
  "\<exists>s seg. writer_reachable one_trade_params s \<and> sy_done s = [(one_trade_job, Inr seg)]"
proof -
  obtain s where s: "writer_reachable one_trade_params s" "sy_encoder s = [WriteJob one_trade_job]"
      "sy_done s = []" "sy_cache s = None"
    using one_trade_queued by blast
  obtain cache fs seg where w: "write_segment (wp_calendar one_trade_params) (wp_arrow one_trade_params) all_ok
      None (sy_files s) (wp_directory one_trade_params) (wp_exchange one_trade_params) Spot 0 1 ''trades''
      [trade_record] = (cache, fs, Inr seg)"
    using one_trade_written by blast
  let ?s = "encode_write one_trade_params all_ok one_trade_job (s\<lparr>sy_encoder := []\<rparr>)"
  have "writer_step one_trade_params s ?s"
    by (rule writer_step.encoder [of _ all_ok]) (simp add: encoder_step_def s)
  then have "writer_reachable one_trade_params ?s" by (rule writer_reachable.step [OF s(1)])
  moreover have "sy_done ?s = [(one_trade_job, Inr seg)]"
    by (simp add: encode_write_def s one_trade_job_def w)
  ultimately show ?thesis by blast
qed

theorem done_segments_on_disk_witness:
  "\<exists>s seg schema batch. writer_reachable one_trade_params s \<and> sy_segments s = [seg]
     \<and> uncached_schema ''trades'' = Inr schema
     \<and> build_record_batch sample_arrow schema [trade_record] = Inr batch
     \<and> sy_files s (seg_path seg) = Some (encode_parquet sample_arrow batch)"
proof -
  obtain s seg where s: "writer_reachable one_trade_params s" "sy_done s = [(one_trade_job, Inr seg)]"
    using one_trade_run by (elim exE conjE) (rule that)
  have pos: "0 < opt_buffer_bytes (wp_options one_trade_params)" by (simp add: one_trade_params_def)
  have short: "length (sy_done s) \<le> 2 ^ 64" by (simp add: s(2))
  note disk = done_segments_on_disk [OF s(1) pos short]
  have "(one_trade_job, Inr seg) \<in> set (sy_done s)" by (simp add: s(2))
  then obtain schema batch where "uncached_schema (job_table one_trade_job) = Inr schema"
      "build_record_batch (wp_arrow one_trade_params) schema (job_records one_trade_job) = Inr batch"
      "sy_files s (seg_path seg) = Some (encode_parquet (wp_arrow one_trade_params) batch)"
    using disk [THEN conjunct1] by blast
  moreover have "sy_segments s = [seg]"
    using disk [THEN conjunct2, THEN conjunct1] by (simp add: s(2) written_segments_def List.map_filter_def)
  moreover have "job_table one_trade_job = ''trades''" "job_records one_trade_job = [trade_record]"
      "wp_arrow one_trade_params = sample_arrow"
    by (simp_all add: one_trade_job_def one_trade_params_def)
  ultimately show ?thesis using s(1) by metis
qed

end
