(* ===== verification/Http.thy ===== *)
theory Http
  imports Json_Value
begin

section \<open>REST requests and the shared rate limit\<close>

text \<open>
  The HTTP client is \<open>reqwest\<close>, hence a parameter: a record of what the sources call on it.
  A request is made at a moment (a number), because the exchange may answer differently each
  time. On top of it \<open>src/rate_limit.rs\<close>: one process-wide moment until which REST requests
  are blocked, in seconds of the Unix clock.
\<close>

subsection \<open>The client\<close>

record 'r http_client =
  http_send :: "nat \<Rightarrow> string \<Rightarrow> (string \<times> string) list \<Rightarrow> 'r result"
  http_status :: "'r \<Rightarrow> nat"
  http_headers :: "'r \<Rightarrow> (string \<times> string option) list"
  http_json :: "'r \<Rightarrow> json result"

text \<open>\<open>error_for_status\<close> rejects the client and server errors.\<close>

definition error_for_status :: "'r http_client \<Rightarrow> 'r \<Rightarrow> 'r result" where
  "error_for_status http r =
     (if 400 \<le> http_status http r \<and> http_status http r < 600
      then Inl ''HTTP status error'' else Inr r)"

text \<open>
  Header names are kept in lower case; a value is \<open>None\<close> when \<open>to_str\<close> fails on it. The
  first value of a name counts.
\<close>

definition header_text :: "'r http_client \<Rightarrow> 'r \<Rightarrow> string \<Rightarrow> string option" where
  "header_text http r name =
     (case map_of (http_headers http r) name of None \<Rightarrow> None | Some v \<Rightarrow> v)"

subsection \<open>The rate limit\<close>

definition remaining_seconds :: "int \<Rightarrow> int \<Rightarrow> nat" where
  "remaining_seconds blocked_until now =
     (let remaining = i64_saturating_sub blocked_until now in
      if remaining < 0 then 0 else nat remaining)"

definition block_for :: "int \<Rightarrow> nat \<Rightarrow> int \<Rightarrow> int" where
  "block_for now seconds blocked_until =
     (let until = i64_saturating_add now (if int seconds \<le> i64_max then int seconds else i64_max)
      in max blocked_until until)"

definition retry_seconds :: "'r http_client \<Rightarrow> 'r \<Rightarrow> nat" where
  "retry_seconds http r =
     (let fallback = (if http_status http r = 418 then 300 else 60) in
      clamp 1 86400
        (case Option.bind (header_text http r ''retry-after'') parse_u64 of
           None \<Rightarrow> fallback | Some n \<Rightarrow> unat n))"

definition observe_response :: "'r http_client \<Rightarrow> int \<Rightarrow> 'r \<Rightarrow> int \<Rightarrow> int \<times> bool" where
  "observe_response http now r blocked_until =
     (if \<not> (http_status http r = 418 \<or> http_status http r = 429) then (blocked_until, False)
      else (block_for now (retry_seconds http r) blocked_until, True))"

subsection \<open>Laws of the rate limit\<close>

lemma retry_seconds_bounds: "1 \<le> retry_seconds http r" "retry_seconds http r \<le> 86400"
  using clamp_bounds [of 1 86400] by (simp_all add: retry_seconds_def Let_def)

lemma block_for_mono: "blocked_until \<le> block_for now seconds blocked_until"
  by (simp add: block_for_def Let_def)

lemma observe_response_mono: "blocked_until \<le> fst (observe_response http now r blocked_until)"
  by (simp add: observe_response_def block_for_mono)

text \<open>A sequence of observations, each with the moment it is made.\<close>

fun observe_all :: "'r http_client \<Rightarrow> (int \<times> 'r) list \<Rightarrow> int \<Rightarrow> int" where
  "observe_all http [] blocked_until = blocked_until"
| "observe_all http ((now, r) # rs) blocked_until =
     observe_all http rs (fst (observe_response http now r blocked_until))"

lemma observe_all_mono: "blocked_until \<le> observe_all http rs blocked_until"
proof (induction rs arbitrary: blocked_until)
  case (Cons p rs)
  obtain now r where p: "p = (now, r)" by fastforce
  show ?case
    using Cons [of "fst (observe_response http now r blocked_until)"]
      observe_response_mono [of blocked_until http now r] by (simp add: p)
qed simp

lemma block_for_until:
  assumes "0 \<le> now" and "now \<le> i64_max - 86400" and "seconds \<le> 86400"
  shows "now + int seconds \<le> block_for now seconds blocked_until"
  using assms by (simp add: block_for_def Let_def i64_saturating_add_def int_bounds)

lemma remaining_until:
  assumes "0 \<le> now" and "now < blocked_until" and "blocked_until \<le> i64_max"
  shows "int (remaining_seconds blocked_until now) = blocked_until - now"
  using assms by (simp add: remaining_seconds_def Let_def i64_saturating_sub_def int_bounds)

text \<open>
  C35. A rejection by the exchange's rate limiter holds. Let a response with status 418 or 429 carry
  a number of seconds in its \<open>Retry-After\<close> header, or no such header. Then, whatever is observed
  later, every caller sees the time remaining until these seconds have passed, where less than
  a second counts as a second and more than a day as a day; without the header 300 seconds
  count for 418 and 60 for 429.
\<close>

theorem rate_limit_holds:
  assumes "http_status http r \<in> {418, 429}"
    and "header_text http r ''retry-after'' = map_option show_nat announced"
    and "\<forall>n. announced = Some n \<longrightarrow> n < 2 ^ 64"
    and "wait = (case announced of Some n \<Rightarrow> if n < 1 then 1 else if n > 24 * 60 * 60 then 24 * 60 * 60 else n
                 | None \<Rightarrow> if http_status http r = 418 then 300 else 60)"
    and "0 \<le> now" and "now \<le> i64_max - 86400"
    and "now \<le> t" and "t < now + int wait"
    and "observe_all http later (fst (observe_response http now r blocked_until)) \<le> i64_max"
  shows "snd (observe_response http now r blocked_until)
    \<and> now + int wait - t \<le>
        int (remaining_seconds (observe_all http later (fst (observe_response http now r blocked_until))) t)"
proof -
  let ?until = "fst (observe_response http now r blocked_until)"
  have retry: "retry_seconds http r = wait"
    using assms(2-4)
    by (cases announced) (auto simp: retry_seconds_def clamp_def parse_u64_show unat_of_nat take_bit_nat_eq_self)
  have observed: "observe_response http now r blocked_until =
      (block_for now (retry_seconds http r) blocked_until, True)"
    using assms(1) by (auto simp: observe_response_def)
  have "now + int wait \<le> ?until"
    using block_for_until [OF assms(5,6) retry_seconds_bounds(2)] by (simp add: observed flip: retry)
  also have "\<dots> \<le> observe_all http later ?until" by (rule observe_all_mono)
  finally have until: "now + int wait \<le> observe_all http later ?until" .
  then have "int (remaining_seconds (observe_all http later ?until) t) = observe_all http later ?until - t"
    using assms(5,7-9) by (intro remaining_until) simp_all
  with until show ?thesis using observed by simp
qed

definition text_client :: "(nat \<times> string) http_client" where
  "text_client = \<lparr>http_send = (\<lambda>_ _ _. Inl ''offline''), http_status = fst,
     http_headers = (\<lambda>r. [(''retry-after'', Some (snd r))]), http_json = (\<lambda>_. Inl ''no JSON'')\<rparr>"

theorem rate_limit_holds_witness:
  "5 \<le> remaining_seconds (observe_all text_client [(1003, (200, ''9''))]
     (fst (observe_response text_client 1000 (429, ''10'') 0))) 1005"
proof -
  have show10: "show_nat 10 = ''10''" by code_simp
  then have "parse_u64 ''10'' = Some 10" using parse_u64_show [of 10] by simp
  then have retry: "retry_seconds text_client (429, ''10'') = 10"
    by (simp add: retry_seconds_def header_text_def text_client_def clamp_def)
  have client: "http_status text_client = fst" "header_text text_client (429, ''10'') ''retry-after'' = Some ''10''"
    by (simp_all add: text_client_def header_text_def)
  have until: "observe_all text_client [(1003, (200, ''9''))]
      (fst (observe_response text_client 1000 (429, ''10'') 0)) = 1010"
    by (simp add: observe_response_def client(1) retry block_for_def i64_saturating_add_def int_bounds)
  have "int 5 \<le> int (remaining_seconds (observe_all text_client [(1003, (200, ''9''))]
      (fst (observe_response text_client 1000 (429, ''10'') 0))) 1005)"
    using rate_limit_holds [where http = text_client and r = "(429, ''10'')" and announced = "Some 10"
        and wait = 10 and now = 1000 and t = 1005 and later = "[(1003, (200, ''9''))]" and blocked_until = 0]
    unfolding until client by (simp add: client show10 int_bounds)
  then show ?thesis by (simp only: of_nat_le_iff)
qed

end
