(* ===== verification/Futures_Poll.thy ===== *)
theory Futures_Poll
  imports Futures_Parser Http
begin

section \<open>The open-interest poller\<close>

text \<open>
  \<open>src/futures_poll.rs\<close>. The requests for the symbols run concurrently, at most eight at a time,
  so what one poll sees is a sequence of events: the headers of a response arrive, or a request
  is finished. \<open>now\<close> is the second at which the rate limit is read or updated.
\<close>

datatype 'r poll_event =
    Headers 'r int
  | Answered string "json result" int

text \<open>What a request's future returns: an error of the transport, of the status or of the body.\<close>

definition poll_result :: "'r http_client \<Rightarrow> nat \<Rightarrow> string \<Rightarrow> string \<Rightarrow> json result" where
  "poll_result http moment url symbol =
     result_bind (http_send http moment url [(''symbol'', symbol)]) (\<lambda>r.
       result_bind (error_for_status http r) (http_json http))"

definition poll_endpoint :: "market \<Rightarrow> string option" where
  "poll_endpoint m =
     (case m of Usdm \<Rightarrow> Some ''/fapi/v1/openInterest'' | Coinm \<Rightarrow> Some ''/dapi/v1/openInterest'' | Spot \<Rightarrow> None)"

definition poll_url :: "string \<Rightarrow> string \<Rightarrow> string" where
  "poll_url rest_url endpoint = trim_end_matches CHR ''/'' rest_url @ endpoint"

definition poll_source :: "market \<Rightarrow> string" where
  "poll_source m = (if m = Usdm then ''binance_usdm_rest_poll'' else ''binance_coinm_rest_poll'')"

text \<open>The loop over the finished requests; it stops at an error while requests are blocked.\<close>

fun poll_loop ::
  "codec \<Rightarrow> 'r http_client \<Rightarrow> datetime \<Rightarrow> string \<Rightarrow> 'r poll_event list \<Rightarrow> data_record list \<Rightarrow> int \<Rightarrow>
   data_record list \<times> int" where
  "poll_loop cd http received source [] records blocked = (records, blocked)"
| "poll_loop cd http received source (Headers r now # es) records blocked =
     poll_loop cd http received source es records (fst (observe_response http now r blocked))"
| "poll_loop cd http received source (Answered symbol (Inr v) now # es) records blocked =
     poll_loop cd http received source es
       (records @ [parse_open_interest cd symbol v received source]) blocked"
| "poll_loop cd http received source (Answered symbol (Inl e) now # es) records blocked =
     (if remaining_seconds blocked now > 0 then (records, blocked)
      else poll_loop cd http received source es records blocked)"

text \<open>One poll: the batch that was sent to the market's writer, the rate limit and the result.\<close>

definition poll_run ::
  "codec \<Rightarrow> 'r http_client \<Rightarrow> (market \<Rightarrow> data_record list \<Rightarrow> unit result) \<Rightarrow> market \<Rightarrow> int \<Rightarrow>
   datetime \<Rightarrow> 'r poll_event list \<Rightarrow> int \<Rightarrow> data_record list option \<times> int \<times> unit result" where
  "poll_run cd http send m now received es blocked =
     (if remaining_seconds blocked now > 0 then (None, blocked, Inr ())
      else
        (case poll_endpoint m of
           None \<Rightarrow> (None, blocked, Inr ())
         | Some _ \<Rightarrow>
             (case poll_loop cd http received (poll_source m) es [] blocked of
                (records, blocked') \<Rightarrow> (Some records, blocked', send m records))))"

lemma poll_loop_tables:
  "list_all (\<lambda>r. rec_table r = ''futures_open_interest'' \<and> rec_target r = None) records \<Longrightarrow>
   list_all (\<lambda>r. rec_table r = ''futures_open_interest'' \<and> rec_target r = None)
     (fst (poll_loop cd http received source es records blocked))"
  by (induction cd http received source es records blocked rule: poll_loop.induct)
    (simp_all add: parse_open_interest_def mk_futures_record_def)

lemma poll_loop_blocked:
  "blocked \<le> snd (poll_loop cd http received source es records blocked)"
proof (induction cd http received source es records blocked rule: poll_loop.induct)
  case (2 cd http received source r now es records blocked)
  then show ?case using observe_response_mono [of blocked http now r] by simp
qed simp_all

end
