(* ===== verification/Delivery.thy ===== *)
theory Delivery
  imports Writer_Files Futures_Poll
begin

section \<open>Why a write fails\<close>

text \<open>
  The parsers, the schema and the encoder together: what the parsers emit is what the tables of
  \<open>schema.sql\<close> store, so a segment can only fail for the disk, and a flush is only refused
  because of such a failure.
\<close>

subsection \<open>Arrow\<close>

fun array_type :: "arrow_array \<Rightarrow> data_type" where
  "array_type (TimestampMicrosecondArray _ zone) = Timestamp_Micros (Some zone)"
| "array_type (StringArray _) = Utf8"
| "array_type (UInt64Array _) = UInt64"
| "array_type (Int64Array _) = Int64"
| "array_type (Int32Array _) = Int32"
| "array_type (Decimal128Array _ precision scale) = Decimal128 precision scale"
| "array_type (BooleanArray _) = Bool_Type"

fun array_length :: "arrow_array \<Rightarrow> nat" where
  "array_length (TimestampMicrosecondArray xs _) = length xs"
| "array_length (StringArray xs) = length xs"
| "array_length (UInt64Array xs) = length xs"
| "array_length (Int64Array xs) = length xs"
| "array_length (Int32Array xs) = length xs"
| "array_length (Decimal128Array xs _ _) = length xs"
| "array_length (BooleanArray xs) = length xs"

text \<open>
  What the documentation of Arrow promises: a decimal may have up to 38 digits, and a batch may be
  built of columns of one length and of the types of the schema's fields, where these may be null.
\<close>

definition arrow_laws :: "arrow_lib \<Rightarrow> bool" where
  "arrow_laws lib \<longleftrightarrow>
     (\<forall>p s. 0 < p \<and> p \<le> 38 \<and> s \<le> p \<longrightarrow> precision_and_scale_ok lib p s)
     \<and> (\<forall>schema arrays n. schema \<noteq> [] \<and> list_all nullable schema
          \<and> map array_type arrays = map field_type schema
          \<and> list_all (\<lambda>a. array_length a = n) arrays \<longrightarrow> try_new_ok lib schema arrays)"

definition storable :: "field \<Rightarrow> bool" where
  "storable f \<longleftrightarrow> nullable f
     \<and> (case field_type f of
          Timestamp_Micros zone \<Rightarrow> zone = Some ''UTC''
        | Decimal128 precision scale \<Rightarrow> 0 < precision \<and> precision \<le> 38 \<and> scale \<le> precision
        | _ \<Rightarrow> True)"

lemma registry_storable:
  "list_all (\<lambda>(t, schema). schema \<noteq> [] \<and> list_all storable schema) schema_registry"
  by code_simp

lemma column_array_storable:
  assumes "arrow_laws lib" and "storable f"
  shows "\<exists>a. column_array lib rs i (field_type f) = Inr a \<and> array_type a = field_type f
    \<and> array_length a = length rs"
  using assms by (cases "field_type f") (auto simp: storable_def arrow_laws_def)

lemma build_record_batch_storable:
  assumes laws: "arrow_laws lib" and "schema \<noteq> []" and ok: "list_all storable schema"
    and "\<forall>r \<in> set rs. conforms schema r"
  shows "\<exists>batch. build_record_batch lib schema rs = Inr batch"
proof -
  define col where "col = (\<lambda>(i, f :: field). projr (column_array lib rs i (field_type f)))"
  have c: "column_array lib rs i (field_type f) = Inr (col (i, f))
      \<and> array_type (col (i, f)) = field_type f \<and> array_length (col (i, f)) = length rs"
    if "f \<in> set schema" for i f
  proof -
    have "storable f" using ok that by (simp add: list_all_iff)
    from column_array_storable [OF laws this, of rs i] show ?thesis by (auto simp: col_def)
  qed
  let ?es = "enumerate 0 schema"
  have arrays: "result_map (\<lambda>(i, f). column_array lib rs i (field_type f)) ?es = Inr (map col ?es)"
    by (rule result_map_total) (auto simp: in_set_enumerate_eq c)
  have "map array_type (map col ?es) = map (field_type \<circ> snd) ?es"
    using c by (auto simp: in_set_enumerate_eq)
  also have "\<dots> = map field_type schema" by (simp flip: map_map)
  finally have types: "map array_type (map col ?es) = map field_type schema" .
  have "list_all (\<lambda>a. array_length a = length rs) (map col ?es)"
    using c by (auto simp: list_all_iff in_set_enumerate_eq)
  moreover have "list_all nullable schema" using ok by (auto simp: list_all_iff storable_def)
  ultimately have "try_new_ok lib schema (map col ?es)"
    using laws types assms(2) unfolding arrow_laws_def by blast
  moreover have "check_field_counts schema rs = Inr ()"
    using assms(4) by (simp add: check_field_counts_iff conforms_length)
  ultimately show ?thesis using arrays by (simp add: build_record_batch_def)
qed

subsection \<open>One segment\<close>

definition disk_errors :: "error set" where
  "disk_errors = {''create Parquet segment directory'', ''zstd level'', ''create temporary Parquet segment'',
     ''create Parquet writer'', ''write Parquet row group'', ''close Parquet segment'',
     ''publish Parquet segment'', ''metadata''}"

lemma write_segment_errors:
  assumes laws: "arrow_laws lib" and cached: "cache_ok cache"
    and rs: "rs \<noteq> []" "list_all (\<lambda>r. rec_table r = table) rs" "list_all record_conforms rs"
    and w: "write_segment cal lib io cache fs root exch m h sequence table rs = (cache', fs', Inl e)"
  shows "e \<in> disk_errors"
proof -
  have table: "record_conforms r \<and> rec_table r = table" if "r \<in> set rs" for r
    using rs(2,3) that by (simp add: list_all_iff)
  obtain schema where schema: "map_of schema_registry table = Some schema"
    using table [of "hd rs"] rs(1) by (auto simp: record_conforms_iff split: option.splits)
  have "\<forall>r \<in> set rs. conforms schema r"
    using table schema by (fastforce simp: record_conforms_iff)
  moreover have "schema \<noteq> []" "list_all storable schema"
    using registry_storable map_of_SomeD [OF schema] by (auto simp: list_all_iff)
  ultimately obtain batch where b: "build_record_batch lib schema rs = Inr batch"
    using build_record_batch_storable [OF laws] by blast
  have "snd (schema_for cache table) = Inr schema"
    using schema_for_cached(1) [OF cached] schema by (simp add: uncached_schema_registry)
  then obtain c where "schema_for cache table = (c, Inr schema)" by (metis prod.collapse)
  with w b show ?thesis
    by (auto simp: write_segment_def disk_errors_def Let_def split: if_splits)
qed

subsection \<open>All segments\<close>

definition failed_with :: "writer_system \<Rightarrow> error \<Rightarrow> bool" where
  "failed_with s e \<longleftrightarrow> (\<exists>j. (j, Inl e) \<in> set (sy_done s))"

text \<open>Every error that is pending or was reported is that of a failed write.\<close>

definition reports_inv :: "writer_system \<Rightarrow> bool" where
  "reports_inv s \<longleftrightarrow> (\<forall>e. sy_pending s = Some e \<longrightarrow> failed_with s e)
     \<and> (\<forall>t e. sy_barrier s t = Some (Inl e) \<longrightarrow> failed_with s e)
     \<and> (\<forall>t e. sy_reply s t = Some (Inl e) \<longrightarrow> failed_with s e)"

definition jobs_inv :: "writer_params \<Rightarrow> writer_system \<Rightarrow> bool" where
  "jobs_inv p s \<longleftrightarrow> cache_ok (sy_cache s) \<and> list_all (job_ok (wp_layout p)) (jobs_in (sy_encoder s))
     \<and> (\<forall>j e. (j, Inl e) \<in> set (sy_done s) \<longrightarrow> list_all record_conforms (job_records j) \<longrightarrow> e \<in> disk_errors)"

lemma encode_write_reports:
  assumes "reports_inv s"
  shows "reports_inv (encode_write p io j s)"
proof -
  obtain out where out: "sy_done (encode_write p io j s) = sy_done s @ [(j, out)]"
      "sy_pending (encode_write p io j s) = option_or (sy_pending s) (first_error [out])"
    using encode_write_outcome by blast
  have "failed_with (encode_write p io j s) e \<longleftrightarrow> failed_with s e \<or> out = Inl e" for e
    by (auto simp: failed_with_def out(1))
  then show ?thesis
    using assms out(2) unfolding reports_inv_def encode_write_fields
    by (cases out; cases "sy_pending s") (auto simp: option_or_def)
qed

lemma encode_write_jobs:
  assumes laws: "arrow_laws (wp_arrow p)" and inv: "jobs_inv p s" and j: "job_ok (wp_layout p) j"
  shows "jobs_inv p (encode_write p io j s)"
proof -
  obtain cache fs out where w: "write_segment (wp_calendar p) (wp_arrow p) io (sy_cache s) (sy_files s)
      (wp_directory p) (wp_exchange p) (job_market j) (job_hour j) (job_sequence j) (job_table j)
      (job_records j) = (cache, fs, out)"
    by (metis prod_cases3)
  have cached: "cache_ok (sy_cache s)" using inv by (simp add: jobs_inv_def)
  have d: "sy_done (encode_write p io j s) = sy_done s @ [(j, out)]"
      "sy_cache (encode_write p io j s) = cache"
    by (auto simp: encode_write_def w Let_def split: sum.splits)
  have "cache_ok cache" using schema_for_cached(2) [OF cached] write_segment_cache [OF w] by simp
  moreover have "e \<in> disk_errors" if "out = Inl e" "list_all record_conforms (job_records j)" for e
    using write_segment_errors [OF laws cached _ _ that(2) w [unfolded that(1)]] j by (simp add: job_ok_def)
  ultimately show ?thesis using inv unfolding jobs_inv_def encode_write_fields d by auto
qed

lemma delivery_step:
  assumes "writer_step p s s'" and inv: "writer_inv p s" and "jobs_inv p s" and "reports_inv s"
    and laws: "arrow_laws (wp_arrow p)" and pos: "0 < opt_buffer_bytes (wp_options p)"
  shows "jobs_inv p s' \<and> reports_inv s'"
  using assms(1)
proof (cases rule: writer_step.cases)
  case (client m cmd)
  have "sy_cache s' = sy_cache s" using send_disk [OF client] by (simp add: disk_def)
  then show ?thesis
    using assms(3,4) send_fields [OF client] by (simp add: jobs_inv_def reports_inv_def failed_with_def)
next
  case (worker order now seen clock m)
  have same: "sy_cache s' = sy_cache s" "sy_done s' = sy_done s"
    using worker_disk [OF worker(2)] by (simp_all add: disk_def)
  have "reports_inv s'"
    using worker(2)
  proof (cases rule: worker_step_cases)
    case (answer t r)
    then show ?thesis using assms(4) by (auto simp: reports_inv_def failed_with_def)
  qed (use assms(4) in \<open>auto simp: reports_inv_def failed_with_def\<close>)
  moreover have "list_all (job_ok (wp_layout p)) (jobs_in (sy_encoder s'))"
    using worker(2,1) inv pos
  proof (cases rule: worker_effect)
    case (deliver c cs)
    then show ?thesis using assms(3) by (cases c) (auto simp: jobs_inv_def)
  next
    case (local th added)
    then show ?thesis using assms(3) by (simp add: jobs_inv_def)
  qed
  ultimately show ?thesis using assms(3) same by (simp add: jobs_inv_def)
next
  case (encoder io)
  from encoder consider (job) j rest where "sy_encoder s = WriteJob j # rest"
      "s' = encode_write p io j (s\<lparr>sy_encoder := rest\<rparr>)"
    | (mark) t rest where "sy_encoder s = Barrier t # rest" "s' = encode_barrier t (s\<lparr>sy_encoder := rest\<rparr>)"
    by (auto simp: encoder_step_def split: list.splits encode_command.splits)
  then show ?thesis
  proof cases
    case job
    have "jobs_inv p (s\<lparr>sy_encoder := rest\<rparr>)" "job_ok (wp_layout p) j" "reports_inv (s\<lparr>sy_encoder := rest\<rparr>)"
      using assms(3,4) job(1) by (auto simp: jobs_inv_def reports_inv_def failed_with_def)
    then show ?thesis unfolding job(2) using encode_write_jobs [OF laws] encode_write_reports by blast
  next
    case mark
    then show ?thesis
      using assms(3,4)
      by (auto simp: jobs_inv_def reports_inv_def failed_with_def encode_barrier_def split: option.splits)
  qed
qed (use assms(3,4) in \<open>simp_all add: jobs_inv_def reports_inv_def failed_with_def observe_queue_def\<close>)

lemma reachable_delivery:
  assumes "writer_reachable p s" and laws: "arrow_laws (wp_arrow p)"
    and pos: "0 < opt_buffer_bytes (wp_options p)"
  shows "jobs_inv p s \<and> reports_inv s"
  using assms(1)
proof (induction rule: writer_reachable.induct)
  case (start mkdir spawned now fs ms s)
  then show ?case
    by (auto simp: jobs_inv_def reports_inv_def cache_ok_def writer_start_def split: if_splits)
next
  case (step s s')
  then show ?case using delivery_step [OF step.hyps(2) reachable_inv [OF step.hyps(1) pos]] laws pos by blast
qed

subsection \<open>The records of the program\<close>

text \<open>
  What the program hands to the writer: the records of a payload that a processor parsed, and
  the answers that the open-interest poller got.
\<close>

definition emitted :: "codec \<Rightarrow> data_record \<Rightarrow> bool" where
  "emitted cd r \<longleftrightarrow> (\<exists>m payload. r \<in> set (payload_records cd m payload))
     \<or> (\<exists>symbol v received source. r = parse_open_interest cd symbol v received source)"

lemma poll_emits:
  "list_all (emitted cd) records \<Longrightarrow>
   list_all (emitted cd) (fst (poll_loop cd http received source es records blocked))"
proof (induction cd http received source es records blocked rule: poll_loop.induct)
  case (3 cd http received source symbol v now es records blocked)
  have "emitted cd (parse_open_interest cd symbol v received source)" unfolding emitted_def by blast
  with 3 show ?case by simp
qed simp_all

lemma emitted_conforms: "emitted cd r \<Longrightarrow> record_conforms r"
proof -
  assume "emitted cd r"
  then consider (payload) m payload where "r \<in> set (payload_records cd m payload)"
    | (poll) symbol v received source where "r = parse_open_interest cd symbol v received source"
    unfolding emitted_def by blast
  then show ?thesis
  proof cases
    case payload
    have "list_all record_conforms (fst (parse_payload cd m payload []))"
      using spot_parse_into_conforms [of "[]" cd "pl_bytes payload" "pl_received payload" "source_name m"]
        futures_parse_into_conforms [of "[]" cd "pl_bytes payload" "pl_received payload" "source_name m"]
      by (cases "m = Spot") (simp_all add: parse_payload_def)
    then show ?thesis
      using payload
      by (cases "parse_payload cd m payload []")
        (auto simp: payload_records_def list_all_iff split: sum.splits)
  next
    case poll
    then show ?thesis by (simp add: open_interest_conforms)
  qed
qed

lemma done_job_records:
  assumes "writer_reachable p s" and "0 < opt_buffer_bytes (wp_options p)"
    and "(j, out) \<in> set (sy_done s)" and "r \<in> set (job_records j)"
  shows "r \<in># sy_accepted s (job_market j)"
proof -
  have "j \<in> set (filter (\<lambda>k. job_market k = job_market j) (map fst (sy_done s)))"
    using assms(3) by force
  then have "r \<in># done_records (job_market j) s"
    using assms(4) by (auto simp: done_records_def jobs_records_def)
  then have "r \<in># done_records (job_market j) s + weight (pipeline (job_market j) s)" by simp
  moreover have "done_records (job_market j) s + weight (pipeline (job_market j) s) = sy_accepted s (job_market j)"
    using reachable_inv [OF assms(1,2)] by (simp add: writer_inv_def market_inv_def)
  ultimately show ?thesis by simp
qed

subsection \<open>Properties\<close>

text \<open>
  C12. Only the disk and the Parquet writer make a write fail. As long as the writer gets what the parsers and the
  open-interest poller emit, every job that failed did so because a directory, a file or the
  Parquet writer failed; never because of an unknown table, a number of fields or a type. And a
  flush is answered with an error only if such a failure happened.
\<close>

theorem writes_fail_only_for_the_disk:
  assumes "writer_reachable p s" and "0 < opt_buffer_bytes (wp_options p)"
    and "arrow_laws (wp_arrow p)" and "\<forall>m. \<forall>r \<in># sy_accepted s m. emitted cd r"
  shows "(\<forall>j e. (j, Inl e) \<in> set (sy_done s) \<longrightarrow> e \<in> disk_errors)
    \<and> (\<forall>t e. sy_reply s t = Some (Inl e) \<longrightarrow> e \<in> disk_errors \<and> failed_with s e)"
proof -
  note inv = reachable_delivery [OF assms(1,3,2)]
  have failed: "e \<in> disk_errors" if j: "(j, Inl e) \<in> set (sy_done s)" for j e
  proof -
    have "record_conforms r" if "r \<in> set (job_records j)" for r
      using done_job_records [OF assms(1,2) j that] assms(4) emitted_conforms by blast
    then have "list_all record_conforms (job_records j)" by (simp add: list_all_iff)
    then show ?thesis using inv j by (auto simp: jobs_inv_def)
  qed
  moreover have "failed_with s e" if "sy_reply s t = Some (Inl e)" for t e
    using inv that by (auto simp: reports_inv_def)
  ultimately show ?thesis unfolding failed_with_def by metis
qed

theorem writes_fail_only_for_the_disk_witness:
  "\<exists>s e. writer_reachable one_trade_params s \<and> sy_done s = [(one_trade_job, Inl e)] \<and> e \<in> disk_errors"
proof -
  obtain s where s: "writer_reachable one_trade_params s" "sy_encoder s = [WriteJob one_trade_job]"
      "sy_done s = []" "sy_cache s = None" "sy_accepted s = sy_accepted one_trade_sent"
    using one_trade_queued by (elim exE conjE) (rule that)
  let ?io = "all_ok\<lparr>rename_ok := False\<rparr>"
  let ?s = "encode_write one_trade_params ?io one_trade_job (s\<lparr>sy_encoder := []\<rparr>)"
  have "writer_step one_trade_params s ?s"
    by (rule writer_step.encoder [of _ ?io]) (simp add: encoder_step_def s(2))
  then have reach: "writer_reachable one_trade_params ?s" by (rule writer_reachable.step [OF s(1)])
  have "\<not> is_ok (snd (snd (write_segment (wp_calendar one_trade_params) (wp_arrow one_trade_params) ?io None
      (sy_files s) (wp_directory one_trade_params) (wp_exchange one_trade_params) Spot 0 1 ''trades''
      [trade_record])))"
    by (simp add: write_segment_def all_ok_def Let_def split: prod.splits sum.splits)
  then obtain cache fs e where "write_segment (wp_calendar one_trade_params) (wp_arrow one_trade_params) ?io None
      (sy_files s) (wp_directory one_trade_params) (wp_exchange one_trade_params) Spot 0 1 ''trades''
      [trade_record] = (cache, fs, Inl e)"
    by (metis is_ok_iff old.sum.exhaust prod.collapse)
  then have failed: "sy_done ?s = [(one_trade_job, Inl e)]"
    by (simp add: encode_write_def s one_trade_job_def)
  have "emitted trade_codec trade_record"
    unfolding emitted_def by (rule disjI1) (metis trade_records list.set_intros(1))
  then have emits: "\<forall>m. \<forall>r \<in># sy_accepted ?s m. emitted trade_codec r"
    by (simp add: encode_write_fields s(5) one_trade_sent_def)
  have "0 < opt_buffer_bytes (wp_options one_trade_params)" "arrow_laws (wp_arrow one_trade_params)"
    by (simp_all add: one_trade_params_def arrow_laws_def sample_arrow_def)
  from writes_fail_only_for_the_disk [OF reach this emits] failed
  have "e \<in> disk_errors" by auto
  with reach failed show ?thesis by blast
qed

end
