(* ===== verification/Writer_Progress.thy ===== *)
theory Writer_Progress
  imports Writer_Accounting
begin

section \<open>The writer makes progress\<close>

text \<open>
  Without new commands the workers and the encoder come to rest, and at rest everything that was
  asked for is done: no flush waits for ever, and the threads never wait for each other in a
  circle although the worker that waits for a barrier does not take commands and both queues are
  bounded.
\<close>

subsection \<open>The steps of the threads\<close>

definition internal_step :: "writer_params \<Rightarrow> writer_system \<Rightarrow> writer_system \<Rightarrow> bool" where
  "internal_step p s s' \<longleftrightarrow>
     (\<exists>order now seen clock m. iteration_order order \<and> worker_step p order now seen clock m s = Some s')
     \<or> (\<exists>io. encoder_step p io s = Some s')"

lemma internal_writer_step: "internal_step p s s' \<Longrightarrow> writer_step p s s'"
  by (auto simp: internal_step_def intro: writer_step.worker writer_step.encoder)

fun phase_rank :: "worker_phase \<Rightarrow> nat" where
  "phase_rank Idle = 1"
| "phase_rank (Rolled cmd) = 3"
| "phase_rank (Awaiting t) = 2"
| "phase_rank Finished = 0"
| "phase_rank (Crashed cmd) = 0"

definition work_left :: "writer_system \<Rightarrow> nat \<times> nat \<times> nat" where
  "work_left s =
     (total (\<lambda>m. length (sy_queue s m)),
      total (\<lambda>m. phase_rank (th_phase (sy_thread s m))),
      2 * total (\<lambda>m. length (th_outbox (sy_thread s m))) + length (sy_encoder s))"

lemma total_thread:
  "sy_thread s' = (sy_thread s)(m := th) \<Longrightarrow>
   total (\<lambda>k. f (sy_thread s' k)) + f (sy_thread s m) = total (\<lambda>k. f (sy_thread s k)) + f th"
  using total_update [of "\<lambda>k. f (sy_thread s k)" m "f th"]
  by (simp add: fun_upd_def if_distrib cong: if_cong)

lemma handle_command_phase:
  assumes "handle_command p order seen clock cmd st = Some (st', sent, ph, added)"
  shows "ph = Idle \<and> (\<forall>t. cmd \<noteq> Flush t) \<or> ph = Crashed cmd
    \<or> (\<exists>t. cmd = Flush t \<and> ph = Awaiting t \<and> Barrier t \<in> set sent)"
  using assms by (auto simp: handle_command_def split: command.splits prod.splits sum.splits option.splits)

definition step_order :: "((nat \<times> nat \<times> nat) \<times> nat \<times> nat \<times> nat) set" where
  "step_order = less_than <*lex*> less_than <*lex*> less_than"

lemma worker_step_decreases:
  assumes "worker_step p order now seen clock m s = Some s'"
  shows "(work_left s', work_left s) \<in> step_order"
  using assms
proof (cases rule: worker_step_cases)
  case (deliver c cs)
  let ?th = "(sy_thread s m)\<lparr>th_outbox := cs\<rparr>"
  have th: "sy_thread s' = (sy_thread s)(m := ?th)" by (simp add: deliver)
  show ?thesis
    using total_thread [OF th, of "\<lambda>th. length (th_outbox th)"]
      total_thread [OF th, of "\<lambda>th. phase_rank (th_phase th)"]
    by (simp add: step_order_def work_left_def deliver)
next
  case (take cmd cmds st jobs r)
  then show ?thesis
    using total_update [of "\<lambda>k. length (sy_queue s k)" m "length cmds"]
    by (simp add: step_order_def work_left_def fun_upd_def if_distrib cong: if_cong)
next
  case (finish st jobs r)
  let ?th = "\<lparr>th_state = st, th_outbox = map WriteJob jobs, th_phase = Finished\<rparr>"
  have th: "sy_thread s' = (sy_thread s)(m := ?th)" by (simp add: finish)
  show ?thesis
    using total_thread [OF th, of "\<lambda>th. phase_rank (th_phase th)"]
    by (simp add: step_order_def work_left_def finish)
next
  case (handle cmd st sent ph added)
  let ?th = "\<lparr>th_state = st, th_outbox = sent, th_phase = ph\<rparr>"
  have th: "sy_thread s' = (sy_thread s)(m := ?th)" by (simp add: handle)
  have "phase_rank ph < 3" using handle_command_phase [OF handle(3)] by auto
  then show ?thesis
    using total_thread [OF th, of "\<lambda>th. phase_rank (th_phase th)"]
    by (simp add: step_order_def work_left_def handle)
next
  case (answer t r)
  let ?th = "(sy_thread s m)\<lparr>th_phase := Idle\<rparr>"
  have th: "sy_thread s' = (sy_thread s)(m := ?th)" by (simp add: answer)
  show ?thesis
    using total_thread [OF th, of "\<lambda>th. phase_rank (th_phase th)"]
    by (simp add: step_order_def work_left_def answer)
qed

lemma encoder_step_decreases:
  "encoder_step p io s = Some s' \<Longrightarrow> (work_left s', work_left s) \<in> step_order"
  by (auto simp: encoder_step_def step_order_def work_left_def encode_write_fields encode_barrier_def
      split: list.splits encode_command.splits)

subsection \<open>What is still owed\<close>

definition flush_pending :: "writer_system \<Rightarrow> market \<Rightarrow> nat \<Rightarrow> bool" where
  "flush_pending s m t \<longleftrightarrow> Flush t \<in> set (sy_queue s m)
     \<or> th_phase (sy_thread s m) \<in> {Rolled (Flush t), Crashed (Flush t), Awaiting t}"

definition barrier_pending :: "writer_system \<Rightarrow> market \<Rightarrow> nat \<Rightarrow> bool" where
  "barrier_pending s m t \<longleftrightarrow> sy_barrier s t \<noteq> None
     \<or> Barrier t \<in> set (th_outbox (sy_thread s m)) \<or> Barrier t \<in> set (sy_encoder s)"

definition at_rest :: "writer_system \<Rightarrow> market \<Rightarrow> bool" where
  "at_rest s m \<longleftrightarrow> sy_closed s \<and> sy_queue s m = [] \<and> ws_tables (th_state (sy_thread s m)) = []"

definition progress_inv :: "writer_system \<Rightarrow> bool" where
  "progress_inv s \<longleftrightarrow>
     (\<forall>t m P. sy_promise s t = Some (m, P) \<longrightarrow> sy_reply s t \<noteq> None \<or> flush_pending s m t)
     \<and> (\<forall>m. (\<forall>t. th_phase (sy_thread s m) = Awaiting t \<longrightarrow> barrier_pending s m t)
          \<and> (th_phase (sy_thread s m) = Finished \<longrightarrow> at_rest s m))"

lemma progress_invD:
  assumes "progress_inv s"
  shows "sy_promise s t = Some (m, P) \<Longrightarrow> sy_reply s t \<noteq> None \<or> flush_pending s m t"
    and "th_phase (sy_thread s m) = Awaiting t \<Longrightarrow> barrier_pending s m t"
    and "th_phase (sy_thread s m) = Finished \<Longrightarrow> at_rest s m"
  using assms by (auto simp: progress_inv_def)

text \<open>A step of one thread concerns only its own market.\<close>

lemma progress_local:
  assumes inv: "progress_inv s"
    and same: "sy_promise s' = sy_promise s" "sy_closed s' = sy_closed s"
      "\<And>t. sy_barrier s t \<noteq> None \<Longrightarrow> sy_barrier s' t \<noteq> None"
      "\<And>t. sy_reply s t \<noteq> None \<Longrightarrow> sy_reply s' t \<noteq> None"
      "set (sy_encoder s) \<subseteq> set (sy_encoder s')"
    and frame: "\<And>k. k \<noteq> m \<Longrightarrow> sy_thread s' k = sy_thread s k \<and> sy_queue s' k = sy_queue s k"
    and flush: "\<And>t. flush_pending s m t \<Longrightarrow> sy_reply s' t \<noteq> None \<or> flush_pending s' m t"
    and wait: "\<And>t. th_phase (sy_thread s' m) = Awaiting t \<Longrightarrow> barrier_pending s' m t"
    and rest: "th_phase (sy_thread s' m) = Finished \<Longrightarrow> at_rest s' m"
  shows "progress_inv s'"
  unfolding progress_inv_def
proof (intro conjI allI impI)
  fix t k P assume "sy_promise s' t = Some (k, P)"
  then have "sy_reply s t \<noteq> None \<or> flush_pending s k t"
    using progress_invD(1) [OF inv] same(1) by simp
  then show "sy_reply s' t \<noteq> None \<or> flush_pending s' k t"
    using flush same(4) frame [of k] by (cases "k = m") (auto simp: flush_pending_def)
next
  fix k t assume "th_phase (sy_thread s' k) = Awaiting t"
  then show "barrier_pending s' k t"
    using wait progress_invD(2) [OF inv, of k t] same(3,5) frame [of k]
    by (cases "k = m") (auto simp: barrier_pending_def)
next
  fix k assume "th_phase (sy_thread s' k) = Finished"
  then show "at_rest s' k"
    using rest progress_invD(3) [OF inv, of k] same(2) frame [of k]
    by (cases "k = m") (auto simp: at_rest_def)
qed

lemma progress_worker:
  assumes step: "worker_step p order now seen clock m s = Some s'" and ord: "iteration_order order"
    and inv: "progress_inv s" and ok: "worker_ok l (th_state (sy_thread s m))"
  shows "progress_inv s'"
  using step
proof (cases rule: worker_step_cases)
  case (deliver c cs)
  show ?thesis
    by (rule progress_local [OF inv, where m = m])
      (use progress_invD(2,3) [OF inv, of m] in
        \<open>auto simp: deliver flush_pending_def barrier_pending_def at_rest_def\<close>)
next
  case (take cmd cmds st jobs r)
  show ?thesis
    by (rule progress_local [OF inv, where m = m])
      (use take(2,3) in \<open>auto simp: take(5) flush_pending_def split: sum.splits\<close>)
next
  case (finish st jobs r)
  have "ws_tables st = []" using flush_all_contract [OF ok ord finish(5)] by simp
  then show ?thesis
    by (intro progress_local [OF inv, where m = m])
      (use finish(2-4) in \<open>auto simp: finish(6) flush_pending_def at_rest_def\<close>)
next
  case (handle cmd st sent ph added)
  show ?thesis
    by (rule progress_local [OF inv, where m = m])
      (use handle(2) handle_command_phase [OF handle(3)] in
        \<open>auto simp: handle(4) flush_pending_def barrier_pending_def\<close>)
next
  case (answer t r)
  show ?thesis
    by (rule progress_local [OF inv, where m = m])
      (use answer(2) in \<open>auto simp: answer(4) flush_pending_def\<close>)
qed

lemma progress_encoder:
  assumes "encoder_step p io s = Some s'" and inv: "progress_inv s"
  shows "progress_inv s'"
proof -
  obtain c rest where c: "sy_encoder s = c # rest" "sy_encoder s' = rest" "sy_queue s' = sy_queue s"
      "sy_thread s' = sy_thread s" "sy_promise s' = sy_promise s" "sy_reply s' = sy_reply s"
      "sy_closed s' = sy_closed s"
      "sy_barrier s' t \<noteq> None \<longleftrightarrow> sy_barrier s t \<noteq> None \<or> c = Barrier t" for t
    using assms(1)
    by (auto simp: encoder_step_def encode_write_fields encode_barrier_def
        split: list.splits encode_command.splits)
  have "barrier_pending s' m t \<longleftrightarrow> barrier_pending s m t" for m t
    using c(1,2,4,8) unfolding barrier_pending_def by auto
  moreover have "flush_pending s' m t \<longleftrightarrow> flush_pending s m t" "at_rest s' m \<longleftrightarrow> at_rest s m" for m t
    using c(3,4,7) by (simp_all add: flush_pending_def at_rest_def)
  ultimately show ?thesis using inv c(4-6) by (simp add: progress_inv_def)
qed

lemma progress_send:
  assumes send: "send_command p m cmd s = Some s'" and inv: "progress_inv s"
  shows "progress_inv s'"
proof -
  note f = send_fields [OF send] and h = send_history [OF send]
  have run: "th_phase (sy_thread s m) \<noteq> Finished" "sy_closed s' = sy_closed s"
    using send by (auto simp: send_command_def receiving_def Let_def split: if_splits command.splits)
  have queued: "flush_pending s' k t \<longleftrightarrow> flush_pending s k t \<or> k = m \<and> cmd = Flush t" for k t
    by (auto simp: flush_pending_def f)
  have "sy_reply s' t \<noteq> None \<or> flush_pending s' k t" if "sy_promise s' t = Some (k, P)" for t k P
    using that progress_invD(1) [OF inv, of t k P]
    by (cases "cmd = Flush t") (auto simp: queued f h split: command.splits if_splits)
  moreover have "barrier_pending s' k t \<longleftrightarrow> barrier_pending s k t" for k t
    by (simp add: barrier_pending_def f)
  moreover have "at_rest s' k \<longleftrightarrow> at_rest s k" if "k \<noteq> m" for k
    using that by (simp add: at_rest_def f run)
  ultimately show ?thesis
    unfolding progress_inv_def f(2) using progress_invD(2,3) [OF inv] run(1) by metis
qed

lemma progress_step:
  assumes "writer_step p s s'" and "writer_inv p s" and inv: "progress_inv s"
  shows "progress_inv s'"
  using assms(1)
proof (cases rule: writer_step.cases)
  case (client m cmd)
  then show ?thesis using inv by (rule progress_send)
next
  case (worker order now seen clock m)
  have "worker_ok (wp_layout p) (th_state (sy_thread s m))"
    using market_invD(1) [OF assms(2)] by (simp add: thread_ok_def)
  then show ?thesis using progress_worker [OF worker(2,1) inv] by blast
next
  case (encoder io)
  then show ?thesis using inv by (rule progress_encoder)
qed (use inv in \<open>auto simp: progress_inv_def flush_pending_def barrier_pending_def at_rest_def observe_queue_def\<close>)

lemma start_progress:
  assumes "writer_start p mkdir spawned now fs ms = Some (Inr s)"
  shows "progress_inv s"
proof -
  have s: "sy_thread s = (\<lambda>m. start_worker (wp_timelike p) m (now m))" "sy_promise s = (\<lambda>_. None)"
    using assms by (auto simp: writer_start_def split: if_splits)
  have "th_phase (start_worker (wp_timelike p) m (now m)) \<in> {Idle, Crashed Tick}" for m
    by (simp add: start_worker_def split: sum.splits)
  then show ?thesis unfolding progress_inv_def s by (metis insertE option.discI singletonD worker_phase.distinct)
qed

lemma reachable_progress:
  assumes "writer_reachable p s" and pos: "0 < opt_buffer_bytes (wp_options p)"
  shows "progress_inv s"
  using assms(1)
proof (induction rule: writer_reachable.induct)
  case (start mkdir spawned now fs ms s)
  then show ?case by (rule start_progress)
next
  case (step s s')
  then show ?case using progress_step reachable_inv [OF step.hyps(1) pos] by blast
qed

subsection \<open>At rest\<close>

lemma internal_step_wf: "wf {(s', s). internal_step p s s'}"
proof -
  have "wf (inv_image step_order work_left)" by (simp add: step_order_def wf_lex_prod)
  then show ?thesis
    by (rule wf_subset)
      (auto simp: internal_step_def intro: worker_step_decreases encoder_step_decreases)
qed

definition quiet :: "writer_params \<Rightarrow> writer_system \<Rightarrow> bool" where
  "quiet p s \<longleftrightarrow> (\<nexists>s'. internal_step p s s')"

lemma quiet_encoder:
  assumes "quiet p s"
  shows "sy_encoder s = []"
proof -
  have "encoder_step p io s = None" for io
    using assms by (cases "encoder_step p io s") (auto simp: quiet_def internal_step_def)
  from this [of undefined] show ?thesis
    by (simp add: encoder_step_def split: list.splits encode_command.splits)
qed

lemma quiet_worker:
  assumes "quiet p s"
  shows "worker_step p (\<lambda>al. al) now seen clock m s = None"
proof (rule ccontr)
  assume "worker_step p (\<lambda>al. al) now seen clock m s \<noteq> None"
  then obtain s' where "worker_step p (\<lambda>al. al) now seen clock m s = Some s'" by blast
  then have "internal_step p s s'" using iteration_order_id unfolding internal_step_def by blast
  then show False using assms by (simp add: quiet_def)
qed

lemma handle_command_runs:
  assumes ok: "thread_ok p m th" and phase: "th_phase th = Rolled cmd" and ord: "iteration_order order"
    and pos: "0 < opt_buffer_bytes (wp_options p)"
  shows "\<exists>st sent ph added. handle_command p order seen clock cmd (th_state th) = Some (st, sent, ph, added)
    \<and> (\<forall>c. ph \<noteq> Crashed c)"
proof -
  have wok: "worker_ok (wp_layout p) (th_state th)" using ok by (simp add: thread_ok_def)
  show ?thesis
  proof (cases cmd)
    case (Records rs)
    have "ws_buffered (th_state th) + batch_bytes (wp_layout p) rs \<le> usize_max"
      using ok phase Records by (simp add: thread_ok_def)
    from handle_records_cases [OF wok ord pos this, of seen] show ?thesis
      by (auto simp: handle_command_def Records)
  next
    case Tick
    obtain st jobs out where f: "flush_expired order True clock (opt_flush_interval (wp_options p)) (th_state th) = (st, jobs, out)"
      by (metis prod_cases3)
    then have "out = Inr ()" using flush_tables_contract [OF wok] unfolding flush_expired_def by blast
    with f show ?thesis by (simp add: handle_command_def Tick)
  next
    case (Flush t)
    obtain st jobs out where f: "flush_all order True (th_state th) = (st, jobs, out)"
      by (metis prod_cases3)
    then have "out = Inr ()" using flush_all_contract [OF wok ord] by blast
    with f show ?thesis by (simp add: handle_command_def Flush)
  qed
qed

lemma quiet_thread:
  assumes quiet: "quiet p s" and inv: "writer_inv p s" "progress_inv s"
    and pos: "0 < opt_buffer_bytes (wp_options p)"
  shows "th_outbox (sy_thread s m) = []"
    and "(\<exists>cmd. th_phase (sy_thread s m) = Crashed cmd) \<or> th_phase (sy_thread s m) = Finished
      \<or> th_phase (sy_thread s m) = Idle \<and> sy_queue s m = [] \<and> \<not> sy_closed s"
proof -
  note none = quiet_worker [OF quiet, of undefined undefined undefined m] and enc = quiet_encoder [OF quiet]
  show out: "th_outbox (sy_thread s m) = []"
    using none by (cases "th_outbox (sy_thread s m)") (simp_all add: worker_step_def enc encoder_slots_def less_max_iff_disj)
  show "(\<exists>cmd. th_phase (sy_thread s m) = Crashed cmd) \<or> th_phase (sy_thread s m) = Finished
      \<or> th_phase (sy_thread s m) = Idle \<and> sy_queue s m = [] \<and> \<not> sy_closed s"
  proof (cases "th_phase (sy_thread s m)")
    case Idle
    with none out show ?thesis
      by (auto simp: worker_step_def Let_def split: list.splits prod.splits if_splits)
  next
    case (Rolled cmd)
    then show ?thesis
      using none out handle_command_runs [OF market_invD(1) [OF inv(1)] Rolled iteration_order_id pos,
          of undefined undefined]
      by (auto simp: worker_step_def split: option.splits)
  next
    case (Awaiting t)
    then have "sy_barrier s t \<noteq> None"
      using progress_invD(2) [OF inv(2) Awaiting] out enc by (simp add: barrier_pending_def)
    then show ?thesis using none out Awaiting by (auto simp: worker_step_def)
  qed auto
qed

lemma quiet_done:
  assumes quiet: "quiet p s" and reach: "writer_reachable p s"
    and pos: "0 < opt_buffer_bytes (wp_options p)"
    and run: "\<nexists>cmd. th_phase (sy_thread s m) = Crashed cmd"
  shows "done_records m s + buffered_records (ws_tables (th_state (sy_thread s m))) = sy_accepted s m"
    and "sy_closed s \<Longrightarrow> done_records m s = sy_accepted s m"
    and "sy_promise s t = Some (m, P) \<Longrightarrow> \<exists>r. sy_reply s t = Some r \<and> P \<subseteq># done_records m s"
proof -
  note inv = reachable_inv [OF reach pos] and prog = reachable_progress [OF reach pos]
  note th = quiet_thread [OF quiet inv prog pos, of m]
  have empty: "sy_queue s m = []" and phase: "th_phase (sy_thread s m) \<in> {Idle, Finished}"
    using th(2) run progress_invD(3) [OF prog, of m] by (auto simp: at_rest_def)
  have kept: "done_records m s + weight (pipeline m s) = sy_accepted s m"
    using inv by (simp add: writer_inv_def market_inv_def)
  have "phase_items (th_phase (sy_thread s m)) = []" using phase by auto
  then show buffered: "done_records m s + buffered_records (ws_tables (th_state (sy_thread s m))) = sy_accepted s m"
    using kept quiet_encoder [OF quiet] th(1) empty
    by (simp add: pipeline_def local_items_def thread_items_def)
  show "done_records m s = sy_accepted s m" if "sy_closed s"
  proof -
    have "at_rest s m" using th(2) run that progress_invD(3) [OF prog] by blast
    then show ?thesis using buffered by (simp add: at_rest_def buffered_records_def)
  qed
  show "\<exists>r. sy_reply s t = Some r \<and> P \<subseteq># done_records m s" if promise: "sy_promise s t = Some (m, P)"
  proof -
    have "\<not> flush_pending s m t" using empty phase by (auto simp: flush_pending_def)
    then have "sy_reply s t \<noteq> None" using progress_invD(1) [OF prog promise] by simp
    then show ?thesis using inv promise by (auto simp: writer_inv_def market_inv_def)
  qed
qed

subsection \<open>Coming to rest\<close>

text \<open>While the clock yields its hours no worker is stopped by an error.\<close>

definition clock_works :: "writer_params \<Rightarrow> bool" where
  "clock_works p \<longleftrightarrow> (\<forall>v. \<exists>h. floor_hour (wp_timelike p) v = Inr h)"

definition running :: "writer_system \<Rightarrow> bool" where
  "running s \<longleftrightarrow> (\<nexists>m cmd. th_phase (sy_thread s m) = Crashed cmd)"

lemma roll_hour_works:
  assumes "clock_works p" and "worker_ok l st" and "iteration_order order"
    and "roll_hour (wp_timelike p) order True now st = (st', jobs, out)"
  shows "out = Inr ()"
proof -
  obtain h where h: "floor_hour (wp_timelike p) now = Inr h" using assms(1) by (auto simp: clock_works_def)
  obtain mid js o1 where f: "flush_all order True st = (mid, js, o1)" by (cases "flush_all order True st")
  then have "o1 = Inr ()" using flush_all_contract [OF assms(2,3)] by blast
  then show ?thesis using assms(4) h f by (auto simp: roll_hour_def split: if_splits)
qed

lemma internal_step_kept:
  assumes "internal_step p s s'"
  shows "sy_promise s' = sy_promise s \<and> sy_accepted s' = sy_accepted s \<and> sy_closed s' = sy_closed s"
  using assms unfolding internal_step_def
proof (elim disjE exE conjE)
  fix order now seen clock m
  assume "worker_step p order now seen clock m s = Some s'"
  then show ?thesis by (cases rule: worker_step_cases) simp_all
qed (auto simp: encoder_step_def encode_write_fields encode_barrier_def
    split: list.splits encode_command.splits)

lemma running_step:
  assumes "internal_step p s s'" and inv: "writer_inv p s" and run: "running s" and clock: "clock_works p"
    and pos: "0 < opt_buffer_bytes (wp_options p)"
  shows "running s'"
  using assms(1) unfolding internal_step_def
proof (elim disjE exE conjE)
  fix order now seen clk m
  assume ord: "iteration_order order" and step: "worker_step p order now seen clk m s = Some s'"
  note I = market_invD(1) [OF inv, of m]
  then have ok: "worker_ok (wp_layout p) (th_state (sy_thread s m))" by (simp add: thread_ok_def)
  from step show ?thesis
  proof (cases rule: worker_step_cases)
    case (take cmd cmds st jobs r)
    then have "r = Inr ()" using roll_hour_works [OF clock ok ord] by blast
    then show ?thesis using run take(5) by (simp add: running_def)
  next
    case (handle cmd st sent ph added)
    then show ?thesis using run handle_command_runs [OF I handle(2) ord pos, of seen clk] by (auto simp: running_def)
  qed (use run in \<open>auto simp: running_def\<close>)
qed (use run in \<open>auto simp: running_def encoder_step_def encode_write_fields encode_barrier_def
      split: list.splits encode_command.splits\<close>)

lemma comes_to_rest:
  assumes "clock_works p" and "0 < opt_buffer_bytes (wp_options p)"
    and "writer_reachable p s" and "running s"
  shows "\<exists>s'. writer_reachable p s' \<and> quiet p s' \<and> running s' \<and> sy_promise s' = sy_promise s
    \<and> sy_accepted s' = sy_accepted s \<and> sy_closed s' = sy_closed s"
  using assms(3,4)
proof (induction s rule: wf_induct_rule [OF internal_step_wf [of p]])
  case (1 s)
  show ?case
  proof (cases "quiet p s")
    case True
    with 1 show ?thesis by blast
  next
    case False
    then obtain s1 where step: "internal_step p s s1" by (auto simp: quiet_def)
    have "writer_reachable p s1" using 1(2) internal_writer_step [OF step] by (rule writer_reachable.step)
    moreover have "running s1" using running_step [OF step reachable_inv [OF 1(2) assms(2)] 1(3) assms(1,2)] .
    ultimately show ?thesis using 1(1) [of s1] step internal_step_kept [OF step] by simp
  qed
qed

text \<open>A record was sent and a flush requested, and no worker has done anything yet.\<close>

lemma sample_flush_requested:
  "\<exists>s. writer_reachable sample_params s \<and> running s
     \<and> sy_promise s 0 = Some (Spot, {#sample_record#}) \<and> sy_accepted s Spot = {#sample_record#}"
proof -
  obtain s1 where s1: "send_command sample_params Spot (Records [sample_record]) sample_start = Some s1"
      "sy_accepted s1 Spot = {#sample_record#}" "sy_promise s1 = (\<lambda>_. None)" "sy_thread s1 = idle_thread"
      "sy_closed s1 = False" "sy_queue s1 Spot = [Records [sample_record]]"
    by (simp add: send_command_def sample_start_def sample_params_simps idle_thread_def
        receiving_def Let_def batch_bytes_def sample_bytes usize_max_def)
  obtain s2 where s2: "send_command sample_params Spot (Flush 0) s1 = Some s2"
    by (simp add: send_command_def s1 sample_params_simps receiving_def idle_thread_def)
  have "writer_reachable sample_params s2"
    using sample_started writer_step.client [OF s1(1)] writer_step.client [OF s2] writer_reachable.step by blast
  then show ?thesis
    using send_fields(2) [OF s2] send_history [OF s2]
    by (auto simp: running_def s1 idle_thread_def)
qed

subsection \<open>Properties\<close>

text \<open>
  C4. The threads come to rest: between two commands of the clients there are only finitely many
  steps of the workers and the encoder, in whatever order they run and whatever the encoder's
  writes come to.
\<close>

theorem internal_steps_terminate: "wf {(s', s). internal_step p s s'}"
  by (rule internal_step_wf)

text \<open>What the encoder did with the records of a market: written, or reported with an error.\<close>

definition written_records :: "market \<Rightarrow> writer_system \<Rightarrow> data_record multiset" where
  "written_records m s =
     jobs_records [j. (j, out) \<leftarrow> sy_done s, job_market j = m \<and> is_ok out]"

definition failed_records :: "market \<Rightarrow> writer_system \<Rightarrow> data_record multiset" where
  "failed_records m s =
     jobs_records [j. (j, out) \<leftarrow> sy_done s, job_market j = m \<and> \<not> is_ok out]"

lemma jobs_records_Cons: "jobs_records (j # js) = mset (job_records j) + jobs_records js"
  by (simp add: jobs_records_def)

lemma done_written_failed: "done_records m s = written_records m s + failed_records m s"
proof -
  have "jobs_records (filter (\<lambda>j. job_market j = m) (map fst ds)) =
      jobs_records [j. (j, out) \<leftarrow> ds, job_market j = m \<and> is_ok out]
      + jobs_records [j. (j, out) \<leftarrow> ds, job_market j = m \<and> \<not> is_ok out]" for ds :: "(encode_job \<times> segment result) list"
    by (induction ds) (auto simp: jobs_records_Cons ac_simps)
  then show ?thesis unfolding done_records_def written_records_def failed_records_def .
qed

text \<open>
  C3. No deadlock, and no flush waits for ever: when no step of a worker or of the encoder is
  possible, each accepted record of a market whose worker was not stopped by an error is in a
  segment that was written, in a segment whose writing failed, or still in the buffers; all
  flushes of the market are answered, with nothing in the buffers that was accepted before them;
  and if the writer was closed, nothing is left in the buffers at all.
\<close>

theorem quiet_writer_is_done:
  assumes "writer_reachable p s" and "quiet p s"
    and "0 < opt_buffer_bytes (wp_options p)"
    and "\<nexists>cmd. th_phase (sy_thread s m) = Crashed cmd"
  shows "written_records m s + failed_records m s + buffered_records (ws_tables (th_state (sy_thread s m)))
        = sy_accepted s m
    \<and> (sy_closed s \<longrightarrow> written_records m s + failed_records m s = sy_accepted s m)
    \<and> (\<forall>t P. sy_promise s t = Some (m, P) \<longrightarrow>
         (\<exists>r. sy_reply s t = Some r) \<and> P \<subseteq># written_records m s + failed_records m s)"
  using quiet_done [OF assms(2,1,3,4)] unfolding done_written_failed by blast

theorem quiet_writer_is_done_witness:
  "\<exists>s. writer_reachable sample_params s \<and> quiet sample_params s \<and> sy_closed s
     \<and> written_records Spot s + failed_records Spot s = {#sample_record#} \<and> (\<exists>r. sy_reply s 0 = Some r)"
proof -
  have pos: "0 < opt_buffer_bytes (wp_options sample_params)"
    and clock: "clock_works sample_params"
    by (simp_all add: sample_params_simps clock_works_def)
  obtain s where s: "writer_reachable sample_params s" "running s"
      "sy_promise s 0 = Some (Spot, {#sample_record#})" "sy_accepted s Spot = {#sample_record#}"
    using sample_flush_requested by (elim exE conjE) (rule that)
  have "writer_reachable sample_params (s\<lparr>sy_closed := True\<rparr>)"
    using s(1) writer_step.close by (rule writer_reachable.step)
  then obtain r where r: "writer_reachable sample_params r" "quiet sample_params r" "running r"
      "sy_promise r = sy_promise s" "sy_accepted r = sy_accepted s" "sy_closed r"
    using comes_to_rest [OF clock pos, of "s\<lparr>sy_closed := True\<rparr>"] s(2) by (auto simp: running_def)
  have "\<nexists>cmd. th_phase (sy_thread r Spot) = Crashed cmd" using r(3) by (simp add: running_def)
  from quiet_writer_is_done [OF r(1,2) pos this] r s show ?thesis by auto
qed

end
