(* ===== verification/Writer_Freshness.thy ===== *)
theory Writer_Freshness
  imports Writer_Progress
begin

section \<open>No record stays in a buffer for long\<close>

text \<open>
  Time in the writer: the loop of \<open>worker_run\<close> as a sequence of rounds with their clock readings,
  and the timer of \<open>start_worker\<close>. A table leaves the buffers at the first tick that finds its first
  record old enough, so a record waits at most the flush interval, one period of the timer and
  the delay with which a tick is handled.
\<close>

subsection \<open>The timer\<close>

text \<open>
  The period is the flush interval, but at most five seconds. The first tick of tokio's interval,
  which is due at once, is swallowed; the \<open>k\<close>-th tick that is sent is due \<open>Suc k\<close> periods after
  the timer was started, however late the ticks before it were sent.
\<close>

definition tick_interval :: "worker_options \<Rightarrow> int" where
  "tick_interval opts = min (opt_flush_interval opts) 5000000000"

definition tick_due :: "worker_options \<Rightarrow> int \<Rightarrow> nat \<Rightarrow> int" where
  "tick_due opts t0 k = t0 + int (Suc k) * tick_interval opts"

lemma tick_between:
  assumes "0 < opt_flush_interval opts" and "t0 \<le> a" 
  shows "\<exists>k. a < tick_due opts t0 k \<and> tick_due opts t0 k \<le> a + tick_interval opts"
proof -
  let ?p = "tick_interval opts"
  have pos: "0 < ?p" using assms(1) by (simp add: tick_interval_def)
  define k where "k = nat ((a - t0) div ?p)"
  have k: "int k = (a - t0) div ?p" using assms(2) pos by (simp add: k_def pos_imp_zdiv_nonneg_iff)
  have "?p * ((a - t0) div ?p) + (a - t0) mod ?p = a - t0" by simp
  moreover have "0 \<le> (a - t0) mod ?p" and "(a - t0) mod ?p < ?p" using pos by simp_all
  moreover have "tick_due opts t0 k = t0 + ?p * ((a - t0) div ?p) + ?p"
    by (simp add: tick_due_def k algebra_simps)
  ultimately show ?thesis by (intro exI [of _ k]) linarith
qed

subsection \<open>The rounds of a worker\<close>

text \<open>
  One round of the loop: the command that was received, the order in which the hash map is
  iterated, the wall clock and the monotonic clock as the round reads them, and the instants at
  which the command was received and the round was over.
\<close>

record worker_round =
  rd_command :: command
  rd_order :: table_order
  rd_now :: datetime
  rd_seen :: "nat \<Rightarrow> int"
  rd_clock :: "string \<Rightarrow> int"
  rd_start :: int
  rd_end :: int

text \<open>The state after the round and what it sent; \<open>None\<close> when it does not return normally.\<close>

definition run_round ::
  "writer_params \<Rightarrow> worker_round \<Rightarrow> worker_state \<Rightarrow> (worker_state \<times> encode_command list) option" where
  "run_round p r st =
     (case roll_hour (wp_timelike p) (rd_order r) True (rd_now r) st of
        (st, jobs, Inl _) \<Rightarrow> None
      | (st, jobs, Inr _) \<Rightarrow>
          (case handle_command p (rd_order r) (rd_seen r) (rd_clock r) (rd_command r) st of
             None \<Rightarrow> None
           | Some (st, sent, ph, _) \<Rightarrow>
               if receiving ph then Some (st, map WriteJob jobs @ sent) else None))"

fun run_rounds ::
  "writer_params \<Rightarrow> worker_round list \<Rightarrow> worker_state \<Rightarrow> (worker_state \<times> encode_command list) option" where
  "run_rounds p [] st = Some (st, [])"
| "run_rounds p (r # rs) st =
     (case run_round p r st of
        None \<Rightarrow> None
      | Some (st, sent) \<Rightarrow>
          (case run_rounds p rs st of
             None \<Rightarrow> None
           | Some (st', sent') \<Rightarrow> Some (st', sent @ sent')))"

definition round_records :: "worker_round \<Rightarrow> data_record multiset" where
  "round_records r = (case rd_command r of Records rs \<Rightarrow> mset rs | _ \<Rightarrow> {#})"

definition rounds_records :: "worker_round list \<Rightarrow> data_record multiset" where
  "rounds_records rs = sum_list (map round_records rs)"

text \<open>The clock is monotonic, and the rounds follow each other.\<close>

definition round_timed :: "worker_round \<Rightarrow> bool" where
  "round_timed r \<longleftrightarrow> rd_start r \<le> rd_end r
     \<and> (\<forall>i. rd_start r \<le> rd_seen r i \<and> rd_seen r i \<le> rd_end r)
     \<and> (\<forall>t. rd_start r \<le> rd_clock r t \<and> rd_clock r t \<le> rd_end r)"

fun rounds_timed :: "int \<Rightarrow> worker_round list \<Rightarrow> bool" where
  "rounds_timed t [] \<longleftrightarrow> True"
| "rounds_timed t (r # rs) \<longleftrightarrow> t \<le> rd_start r \<and> round_timed r \<and> rounds_timed (rd_end r) rs"

fun rounds_end :: "int \<Rightarrow> worker_round list \<Rightarrow> int" where
  "rounds_end t [] = t"
| "rounds_end t (r # rs) = rounds_end (rd_end r) rs"

definition round_fits :: "writer_params \<Rightarrow> worker_round \<Rightarrow> bool" where
  "round_fits p r \<longleftrightarrow> iteration_order (rd_order r) \<and> command_fits p (rd_command r)"

text \<open>A round is what two steps of the worker do, the deliveries of its messages aside.\<close>

lemma run_round_steps:
  assumes "run_round p r (th_state (sy_thread s m)) = Some (st', sent)"
    and "th_outbox (sy_thread s m) = []" and "th_phase (sy_thread s m) = Idle"
    and "sy_queue s m = rd_command r # cmds"
  shows "\<exists>st jobs s' sent' ph added. sent = map WriteJob jobs @ sent'
    \<and> worker_step p (rd_order r) (rd_now r) seen clock m s = Some s'
    \<and> sy_thread s' m = \<lparr>th_state = st, th_outbox = map WriteJob jobs, th_phase = Rolled (rd_command r)\<rparr>
    \<and> handle_command p (rd_order r) (rd_seen r) (rd_clock r) (rd_command r) st = Some (st', sent', ph, added)
    \<and> (\<forall>s''. sy_thread s'' m = (sy_thread s' m)\<lparr>th_outbox := []\<rparr> \<longrightarrow>
          worker_step p (rd_order r) now (rd_seen r) (rd_clock r) m s'' =
            Some (s''\<lparr>sy_thread := (sy_thread s'')(m := \<lparr>th_state = st', th_outbox = sent', th_phase = ph\<rparr>),
                      sy_buffered_bytes := sy_buffered_bytes s'' + of_nat added\<rparr>))"
  using assms
  by (auto simp: run_round_def worker_step_def Let_def split: prod.splits sum.splits option.splits if_splits)

subsection \<open>Tables by the age of their first record\<close>

definition young :: "int \<Rightarrow> (string \<times> buffered_table) list \<Rightarrow> data_record multiset" where
  "young X al = buffered_records (filter (\<lambda>(t, b). X < bt_first_seen b) al)"

definition seen_until :: "int \<Rightarrow> (string \<times> buffered_table) list \<Rightarrow> bool" where
  "seen_until e al \<longleftrightarrow> list_all (\<lambda>(t, b). bt_first_seen b \<le> e) al"

lemma buffered_records_mono: "mset al \<subseteq># mset bl \<Longrightarrow> buffered_records al \<subseteq># buffered_records bl"
proof -
  assume "mset al \<subseteq># mset bl"
  then obtain cl where "mset bl = mset al + mset cl"
    by (metis ex_mset mset_subset_eq_exists_conv)
  moreover have "buffered_records zs = (\<Sum>p\<in>#mset zs. mset (bt_records (snd p)))" for zs
    by (induction zs) (auto simp: buffered_records_def)
  ultimately show ?thesis by simp
qed

lemma young_subset:
  assumes sub: "set al \<subseteq> set bl" and d: "distinct (map fst al)"
  shows "young X al \<subseteq># young X bl"
proof -
  let ?young = "\<lambda>(t, b). X < bt_first_seen b"
  have "distinct al" using d by (simp add: distinct_map)
  then have "mset (filter ?young al) = mset_set (set (filter ?young al))"
    by (simp only: mset_set_set distinct_filter)
  also have "\<dots> \<subseteq># mset_set (set (filter ?young bl))"
    using sub by (intro subset_imp_msubset_mset_set) auto
  also have "\<dots> \<subseteq># mset (filter ?young bl)"
    using mset_set_set_mset_msubset [of "mset (filter ?young bl)"] by (simp only: set_mset_mset)
  finally show ?thesis unfolding young_def by (rule buffered_records_mono)
qed

lemma young_all: "list_all (\<lambda>(t, b). X < bt_first_seen b) al \<Longrightarrow> young X al = buffered_records al"
  by (induction al) (auto simp: young_def buffered_records_def)

lemma young_none: "seen_until X al \<Longrightarrow> young X al = {#}"
  by (induction al) (auto simp: young_def seen_until_def buffered_records_def)

lemma young_update:
  assumes "map_of al t = None \<longrightarrow> bt_records b = [r]"
    and "\<forall>a. map_of al t = Some a \<longrightarrow> bt_first_seen b = bt_first_seen a \<and> bt_records b = bt_records a @ [r]"
  shows "young X (AList.update t b al) \<subseteq># young X al + {#r#}"
  using assms
proof (induction al)
  case (Cons p al)
  then show ?case
    by (cases p) (auto simp: young_def buffered_records_def)
qed (auto simp: young_def buffered_records_def)

lemma seen_until_update:
  "seen_until e al \<Longrightarrow> bt_first_seen b \<le> e \<Longrightarrow> seen_until e (AList.update t b al)"
  by (induction al) (auto simp: seen_until_def)

lemma seen_until_mono: "seen_until d al \<Longrightarrow> d \<le> e \<Longrightarrow> seen_until e al"
  by (auto simp: seen_until_def list_all_iff)

lemma seen_until_subset: "seen_until e bl \<Longrightarrow> set al \<subseteq> set bl \<Longrightarrow> seen_until e al"
  by (auto simp: seen_until_def list_all_iff)

lemma buffer_record_tables:
  obtains b where "ws_tables (buffer_record l now r st) = AList.update (rec_table r) b (ws_tables st)"
    "map_of (ws_tables st) (rec_table r) = None \<longrightarrow> bt_records b = [r] \<and> bt_first_seen b = now"
    "\<forall>a. map_of (ws_tables st) (rec_table r) = Some a \<longrightarrow>
      bt_first_seen b = bt_first_seen a \<and> bt_records b = bt_records a @ [r]"
  by (cases "map_of (ws_tables st) (rec_table r)") (simp_all add: buffer_record_def Let_def)

lemma young_buffer_record: "young X (ws_tables (buffer_record l now r st)) \<subseteq># young X (ws_tables st) + {#r#}"
proof -
  obtain b where b: "ws_tables (buffer_record l now r st) = AList.update (rec_table r) b (ws_tables st)"
    "map_of (ws_tables st) (rec_table r) = None \<longrightarrow> bt_records b = [r] \<and> bt_first_seen b = now"
    "\<forall>a. map_of (ws_tables st) (rec_table r) = Some a \<longrightarrow>
      bt_first_seen b = bt_first_seen a \<and> bt_records b = bt_records a @ [r]"
    by (rule buffer_record_tables)
  show ?thesis unfolding b(1) using b(2,3) by (intro young_update) simp_all
qed

lemma seen_until_buffer_record:
  assumes "seen_until e (ws_tables st)" and "now \<le> e"
  shows "seen_until e (ws_tables (buffer_record l now r st))"
proof -
  obtain b where b: "ws_tables (buffer_record l now r st) = AList.update (rec_table r) b (ws_tables st)"
    "map_of (ws_tables st) (rec_table r) = None \<longrightarrow> bt_records b = [r] \<and> bt_first_seen b = now"
    "\<forall>a. map_of (ws_tables st) (rec_table r) = Some a \<longrightarrow>
      bt_first_seen b = bt_first_seen a \<and> bt_records b = bt_records a @ [r]"
    by (rule buffer_record_tables)
  have "bt_first_seen b \<le> e"
    using b(2,3) assms
    by (cases "map_of (ws_tables st) (rec_table r)")
      (auto simp: seen_until_def list_all_iff dest: map_of_SomeD)
  with assms(1) show ?thesis unfolding b(1) by (rule seen_until_update)
qed

lemma buffer_records_young:
  "young X (ws_tables (buffer_records l seen i rs st)) \<subseteq># young X (ws_tables st) + mset rs"
proof (induction rs arbitrary: i st)
  case (Cons r rs)
  have "young X (ws_tables (buffer_record l (seen i) r st)) + mset rs \<subseteq>#
      (young X (ws_tables st) + {#r#}) + mset rs"
    by (rule subset_mset.add_right_mono [OF young_buffer_record])
  then show ?case using subset_mset.order_trans [OF Cons.IH] by simp
qed simp

lemma buffer_records_seen:
  "seen_until e (ws_tables st) \<Longrightarrow> \<forall>i. seen i \<le> e \<Longrightarrow>
   seen_until e (ws_tables (buffer_records l seen i rs st))"
  by (induction rs arbitrary: i st) (simp_all add: seen_until_buffer_record)

subsection \<open>What a round does\<close>

text \<open>A worker between two rounds.\<close>

definition worker_rests :: "writer_params \<Rightarrow> worker_state \<Rightarrow> bool" where
  "worker_rests p st \<longleftrightarrow> worker_ok (wp_layout p) st \<and> ws_buffered st \<le> opt_buffer_bytes (wp_options p)"

text \<open>A flush of selected tables leaves none of them.\<close>

lemma flush_expired_contract:
  assumes ok: "worker_ok l st" and ord: "iteration_order order"
    and flush: "flush_expired order True clock n st = (st', jobs, out)"
  shows "out = Inr () \<and> worker_ok l st' \<and> flushed l st st' jobs
    \<and> list_all (\<lambda>(t, b). clock t - bt_first_seen b < n) (ws_tables st')"
  using flush_selected_contract [OF ok ord, of "\<lambda>(t, b). n \<le> clock t - bt_first_seen b" st' jobs out]
    flush unfolding flush_expired_def by (auto simp: list_all_iff not_le)

text \<open>
  Where the records and the tables of a state go: \<open>added\<close> came in, \<open>jobs\<close> went out, and what is
  left in the buffers was there or came in.
\<close>

definition moved :: "writer_params \<Rightarrow> data_record multiset \<Rightarrow> worker_state \<Rightarrow> worker_state \<Rightarrow> encode_job list \<Rightarrow> bool" where
  "moved p added st st' jobs \<longleftrightarrow> worker_rests p st'
     \<and> buffered_records (ws_tables st) + added = buffered_records (ws_tables st') + jobs_records jobs
     \<and> (\<forall>X. young X (ws_tables st') \<subseteq># young X (ws_tables st) + added)"

lemma moved_flushed:
  assumes "worker_rests p st" and "flushed (wp_layout p) st st' jobs" and "worker_ok (wp_layout p) st''"
    and "ws_tables st'' = ws_tables st'" and "ws_buffered st'' = ws_buffered st'"
  shows "moved p {#} st st'' jobs"
  using assms young_subset [of "ws_tables st'" "ws_tables st"]
  by (auto simp: moved_def worker_rests_def flushed_def worker_ok_def)

lemma moved_trans:
  assumes "moved p a st st1 jobs" and "moved p b st1 st2 jobs'"
  shows "moved p (a + b) st st2 (jobs @ jobs')"
proof -
  have "buffered_records (ws_tables st) + a + b = buffered_records (ws_tables st1) + b + jobs_records jobs"
    using assms(1) by (simp add: moved_def)
  also have "\<dots> = buffered_records (ws_tables st2) + jobs_records (jobs @ jobs')"
    using assms(2) by (simp add: moved_def)
  finally have "buffered_records (ws_tables st) + (a + b) =
      buffered_records (ws_tables st2) + jobs_records (jobs @ jobs')" by (simp add: ac_simps)
  moreover have "young X (ws_tables st2) \<subseteq># young X (ws_tables st) + (a + b)" for X
  proof -
    have "young X (ws_tables st2) \<subseteq># young X (ws_tables st1) + b" using assms(2) by (simp add: moved_def)
    also have "\<dots> \<subseteq># young X (ws_tables st) + a + b" using assms(1) by (simp add: moved_def)
    finally show ?thesis by (simp add: ac_simps)
  qed
  ultimately show ?thesis using assms(2) by (simp add: moved_def)
qed

text \<open>Whatever flush is used, it moves records only out of the buffers.\<close>

context flush_operation
begin

lemma moves:
  assumes "l = wp_layout p" and "worker_rests p st" and "flush st = (st', jobs, out)"
  shows "moved p {#} st st' jobs" and "seen_until e (ws_tables st) \<Longrightarrow> seen_until e (ws_tables st')"
proof -
  have "worker_ok l st" using assms(1,2) by (simp add: worker_rests_def)
  note c = contract [OF this assms(3)]
  then show "moved p {#} st st' jobs" using moved_flushed [OF assms(2)] assms(1) by blast
  show "seen_until e (ws_tables st')" if "seen_until e (ws_tables st)"
    using that c by (auto simp: flushed_def intro: seen_until_subset)
qed

end

lemma handle_command_moves:
  assumes rests: "worker_rests p st" and ord: "iteration_order order" and pos: "0 < opt_buffer_bytes (wp_options p)"
    and fits: "command_fits p cmd"
  shows "\<exists>st' sent ph added. handle_command p order seen clock cmd st = Some (st', sent, ph, added)
    \<and> receiving ph \<and> moved p (case cmd of Records rs \<Rightarrow> mset rs | _ \<Rightarrow> {#}) st st' (jobs_in sent)
    \<and> (\<forall>e. seen_until e (ws_tables st) \<longrightarrow> (\<forall>i. seen i \<le> e) \<longrightarrow> seen_until e (ws_tables st'))
    \<and> (cmd = Tick \<longrightarrow>
        list_all (\<lambda>(t, b). clock t - bt_first_seen b < opt_flush_interval (wp_options p)) (ws_tables st'))"
proof -
  let ?l = "wp_layout p" and ?o = "wp_options p"
  have ok: "worker_ok ?l st" using rests by (simp add: worker_rests_def)
  show ?thesis
  proof (cases cmd)
    case (Records rs)
    let ?st = "buffer_records ?l seen 0 rs st"
    have fit: "ws_buffered st + batch_bytes ?l rs \<le> usize_max"
      using rests fits Records by (simp add: worker_rests_def)
    obtain st' jobs where h: "handle_records ?o ?l order True seen rs st = Some (st', jobs, Inr ())"
        "worker_ok ?l st'" "flushed ?l ?st st' jobs" "ws_buffered st' < opt_buffer_bytes ?o"
      using handle_records_cases [OF ok ord pos fit] by blast
    have sub: "set (ws_tables st') \<subseteq> set (ws_tables ?st)" using h(3) by (simp add: flushed_def)
    have "young X (ws_tables st') \<subseteq># young X (ws_tables st) + mset rs" for X
      using subset_mset.order_trans [OF young_subset [OF sub] buffer_records_young] h(2)
      by (simp add: worker_ok_def)
    moreover have "buffered_records (ws_tables st) + mset rs = buffered_records (ws_tables st') + jobs_records jobs"
      using buffer_records_ok [OF ok fit, of seen 0] h(3) by (simp add: flushed_def)
    ultimately have "moved p (mset rs) st st' jobs" using h by (simp add: moved_def worker_rests_def)
    moreover have "seen_until e (ws_tables st')" if "seen_until e (ws_tables st)" and "\<forall>i. seen i \<le> e" for e
      using buffer_records_seen [OF that] sub by (rule seen_until_subset)
    ultimately show ?thesis using h(1) by (simp add: handle_command_def Records receiving_def)
  next
    case Tick
    obtain st' jobs out where f: "flush_expired order True clock (opt_flush_interval ?o) st = (st', jobs, out)"
      by (cases "flush_expired order True clock (opt_flush_interval ?o) st")
    show ?thesis
      using flush_expired_contract [OF ok ord f] expired_tables.moves [OF refl rests f] f
      by (simp add: handle_command_def Tick receiving_def)
  next
    case (Flush t)
    obtain st' jobs out where f: "flush_all order True st = (st', jobs, out)"
      by (cases "flush_all order True st")
    show ?thesis
      using flush_all_contract [OF ok ord f] all_tables.moves [OF refl rests f] f
      by (simp add: handle_command_def Flush receiving_def)
  qed
qed

lemma run_round_moves:
  assumes clock: "clock_works p" and pos: "0 < opt_buffer_bytes (wp_options p)"
    and rests: "worker_rests p st" and fits: "round_fits p r"
  shows "\<exists>st' sent. run_round p r st = Some (st', sent) \<and> moved p (round_records r) st st' (jobs_in sent)
    \<and> (round_timed r \<longrightarrow> seen_until (rd_start r) (ws_tables st) \<longrightarrow> seen_until (rd_end r) (ws_tables st'))
    \<and> (round_timed r \<longrightarrow> rd_command r = Tick \<longrightarrow>
        list_all (\<lambda>(t, b). rd_start r - opt_flush_interval (wp_options p) < bt_first_seen b) (ws_tables st'))"
proof -
  let ?l = "wp_layout p"
  have ok: "worker_ok ?l st" and ord: "iteration_order (rd_order r)" and cmd: "command_fits p (rd_command r)"
    using rests fits by (simp_all add: worker_rests_def round_fits_def)
  obtain st1 jobs out where roll: "roll_hour (wp_timelike p) (rd_order r) True (rd_now r) st = (st1, jobs, out)"
    by (cases "roll_hour (wp_timelike p) (rd_order r) True (rd_now r) st")
  have out: "out = Inr ()" using roll_hour_works [OF clock ok ord roll] .
  have mid: "moved p {#} st st1 jobs" "set (ws_tables st1) \<subseteq> set (ws_tables st)"
    using roll_hour_contract [OF ok ord roll] moved_flushed [OF rests] by (auto simp: flushed_def)
  then have "worker_rests p st1" by (simp add: moved_def)
  from handle_command_moves [OF this ord pos cmd, of "rd_seen r" "rd_clock r"]
  obtain st2 sent ph added where h:
    "handle_command p (rd_order r) (rd_seen r) (rd_clock r) (rd_command r) st1 = Some (st2, sent, ph, added)"
    "receiving ph" "moved p (round_records r) st1 st2 (jobs_in sent)"
    "\<forall>e. seen_until e (ws_tables st1) \<longrightarrow> (\<forall>i. rd_seen r i \<le> e) \<longrightarrow> seen_until e (ws_tables st2)"
    "rd_command r = Tick \<longrightarrow> list_all (\<lambda>(t, b). rd_clock r t - bt_first_seen b <
        opt_flush_interval (wp_options p)) (ws_tables st2)"
    unfolding round_records_def by blast
  have "run_round p r st = Some (st2, map WriteJob jobs @ sent)"
    using roll out h(1,2) by (simp add: run_round_def)
  moreover have "moved p (round_records r) st st2 (jobs_in (map WriteJob jobs @ sent))"
    using moved_trans [OF mid(1) h(3)] by simp
  moreover have "seen_until (rd_end r) (ws_tables st2)"
    if "round_timed r" and "seen_until (rd_start r) (ws_tables st)"
  proof -
    have "seen_until (rd_end r) (ws_tables st1)"
      using seen_until_mono seen_until_subset [OF that(2) mid(2)] that(1) by (auto simp: round_timed_def)
    with h(4) that(1) show ?thesis by (auto simp: round_timed_def)
  qed
  moreover have "list_all (\<lambda>(t, b). rd_start r - opt_flush_interval (wp_options p) < bt_first_seen b) (ws_tables st2)"
    if timed: "round_timed r" and tick: "rd_command r = Tick"
  proof -
    have "rd_start r - opt_flush_interval (wp_options p) < bt_first_seen b" if "(t, b) \<in> set (ws_tables st2)" for t b
    proof -
      have "rd_clock r t - bt_first_seen b < opt_flush_interval (wp_options p)"
        using h(5) tick that by (auto simp: list_all_iff)
      moreover have "rd_start r \<le> rd_clock r t" using timed by (simp add: round_timed_def)
      ultimately show ?thesis by linarith
    qed
    then show ?thesis by (auto simp: list_all_iff)
  qed
  ultimately show ?thesis by blast
qed

subsection \<open>What a run does\<close>

lemma run_rounds_moves:
  assumes clock: "clock_works p" and pos: "0 < opt_buffer_bytes (wp_options p)"
    and "worker_rests p st" and "list_all (round_fits p) rs"
  shows "\<exists>st' sent. run_rounds p rs st = Some (st', sent) \<and> moved p (rounds_records rs) st st' (jobs_in sent)
    \<and> (\<forall>t. rounds_timed t rs \<longrightarrow> seen_until t (ws_tables st) \<longrightarrow> seen_until (rounds_end t rs) (ws_tables st'))"
  using assms(3,4)
proof (induction rs arbitrary: st)
  case Nil
  then show ?case by (auto simp: moved_def rounds_records_def)
next
  case (Cons r rs)
  obtain st1 sent where r: "run_round p r st = Some (st1, sent)" "moved p (round_records r) st st1 (jobs_in sent)"
      "round_timed r \<Longrightarrow> seen_until (rd_start r) (ws_tables st) \<Longrightarrow> seen_until (rd_end r) (ws_tables st1)"
    using run_round_moves [OF clock pos Cons.prems(1), of r] Cons.prems(2) by auto
  obtain st2 sent' where rs: "run_rounds p rs st1 = Some (st2, sent')"
      "moved p (rounds_records rs) st1 st2 (jobs_in sent')"
      "\<forall>t. rounds_timed t rs \<longrightarrow> seen_until t (ws_tables st1) \<longrightarrow> seen_until (rounds_end t rs) (ws_tables st2)"
    using Cons.IH [of st1] Cons.prems(2) r(2) by (auto simp: moved_def)
  have "moved p (rounds_records (r # rs)) st st2 (jobs_in (sent @ sent'))"
    using moved_trans [OF r(2) rs(2)] by (simp add: rounds_records_def)
  moreover have "seen_until (rounds_end t (r # rs)) (ws_tables st2)"
    if "rounds_timed t (r # rs)" and "seen_until t (ws_tables st)" for t
    using that r(3) rs(3) seen_until_mono [OF that(2)] by simp
  ultimately show ?case using r(1) rs(1) by auto
qed

lemma run_rounds_append:
  "run_rounds p (qs @ rs) st =
     (case run_rounds p qs st of
        None \<Rightarrow> None
      | Some (st', sent) \<Rightarrow>
          (case run_rounds p rs st' of
             None \<Rightarrow> None
           | Some (st'', sent') \<Rightarrow> Some (st'', sent @ sent')))"
  by (induction qs arbitrary: st) (auto split: option.splits)

lemma rounds_timed_append:
  "rounds_timed t (qs @ rs) \<longleftrightarrow> rounds_timed t qs \<and> rounds_timed (rounds_end t qs) rs"
  by (induction qs arbitrary: t) auto

lemma rounds_end_append [simp]: "rounds_end t (qs @ rs) = rounds_end (rounds_end t qs) rs"
  by (induction qs arbitrary: t) auto

lemma rounds_end_later: "rounds_timed t rs \<Longrightarrow> t \<le> rounds_end t rs"
  by (induction rs arbitrary: t) (fastforce simp: round_timed_def)+

lemma round_before_end: "rounds_timed t rs \<Longrightarrow> r \<in> set rs \<Longrightarrow> rd_start r \<le> rounds_end t rs"
proof (induction rs arbitrary: t)
  case (Cons q rs)
  then show ?case using rounds_end_later [of "rd_end q" rs] by (auto simp: round_timed_def)
qed simp

lemma rounds_records_append [simp]: "rounds_records (qs @ rs) = rounds_records qs + rounds_records rs"
  by (simp add: rounds_records_def)

text \<open>A tick that starts a flush interval after some rounds ended has their records sent.\<close>

lemma tick_sends_old_records:
  assumes clock: "clock_works p" and pos: "0 < opt_buffer_bytes (wp_options p)"
    and rests: "worker_rests p st" and fits: "list_all (round_fits p) (pre @ mid @ r # post)"
    and timed: "rounds_timed t (pre @ mid @ r # post)" and seen: "seen_until t (ws_tables st)"
    and tick: "rd_command r = Tick"
    and late: "rounds_end t pre + opt_flush_interval (wp_options p) \<le> rd_start r"
  shows "\<exists>st' sent. run_rounds p (pre @ mid @ r # post) st = Some (st', sent)
    \<and> moved p (rounds_records (pre @ mid @ r # post)) st st' (jobs_in sent)
    \<and> buffered_records (ws_tables st) + rounds_records pre \<subseteq># jobs_records (jobs_in sent)"
proof -
  let ?X = "rounds_end t pre"
  obtain s1 j1 where pre: "run_rounds p pre st = Some (s1, j1)" "moved p (rounds_records pre) st s1 (jobs_in j1)"
      "seen_until ?X (ws_tables s1)"
    using run_rounds_moves [OF clock pos rests, of pre] fits timed seen by (auto simp: rounds_timed_append)
  obtain s2 j2 where mid: "run_rounds p mid s1 = Some (s2, j2)" "moved p (rounds_records mid) s1 s2 (jobs_in j2)"
    using run_rounds_moves [OF clock pos, of s1 mid] fits pre(2) by (auto simp: moved_def)
  have "round_timed r" using timed by (simp add: rounds_timed_append)
  then obtain s3 j3 where r: "run_round p r s2 = Some (s3, j3)" "moved p (round_records r) s2 s3 (jobs_in j3)"
      "list_all (\<lambda>(t, b). rd_start r - opt_flush_interval (wp_options p) < bt_first_seen b) (ws_tables s3)"
    using run_round_moves [OF clock pos, of s2 r] fits mid(2) tick by (auto simp: moved_def)
  obtain s4 j4 where post: "run_rounds p post s3 = Some (s4, j4)" "moved p (rounds_records post) s3 s4 (jobs_in j4)"
    using run_rounds_moves [OF clock pos, of s3 post] fits r(2) by (auto simp: moved_def)
  have after: "moved p (rounds_records mid + round_records r) s1 s3 (jobs_in j2 @ jobs_in j3)"
    by (rule moved_trans [OF mid(2) r(2)])
  have "buffered_records (ws_tables s3) = young ?X (ws_tables s3)"
    using r(3) late by (intro young_all [symmetric]) (auto simp: list_all_iff)
  also have "\<dots> \<subseteq># rounds_records mid + round_records r"
  proof -
    have "young ?X (ws_tables s3) \<subseteq># young ?X (ws_tables s1) + (rounds_records mid + round_records r)"
      using after by (simp only: moved_def)
    then show ?thesis using young_none [OF pre(3)] by simp
  qed
  finally obtain R where R: "rounds_records mid + round_records r = buffered_records (ws_tables s3) + R"
    by (auto simp: mset_subset_eq_exists_conv)
  have "buffered_records (ws_tables st) + rounds_records pre + (rounds_records mid + round_records r) =
      buffered_records (ws_tables s3) + jobs_records (jobs_in j1 @ jobs_in j2 @ jobs_in j3)"
    using moved_trans [OF pre(2) after] by (simp add: moved_def ac_simps)
  then have "jobs_records (jobs_in j1 @ jobs_in j2 @ jobs_in j3) =
      buffered_records (ws_tables st) + rounds_records pre + R"
    unfolding R by (simp add: ac_simps)
  then have "jobs_records (jobs_in (j1 @ j2 @ j3 @ j4)) =
      buffered_records (ws_tables st) + rounds_records pre + (R + jobs_records (jobs_in j4))"
    by (simp add: add.assoc [symmetric])
  then have "buffered_records (ws_tables st) + rounds_records pre \<subseteq>#
      jobs_records (jobs_in (j1 @ j2 @ j3 @ j4))" by (simp only: mset_subset_eq_add_left)
  moreover have "moved p (rounds_records (pre @ mid @ r # post)) st s4 (jobs_in (j1 @ j2 @ j3 @ j4))"
    using moved_trans [OF pre(2) moved_trans [OF after post(2)]] by (simp add: rounds_records_def ac_simps)
  moreover have "run_rounds p (pre @ mid @ r # post) st = Some (s4, j1 @ j2 @ j3 @ j4)"
    using pre(1) mid(1) r(1) post(1) by (simp add: run_rounds_append)
  ultimately show ?thesis by blast
qed

subsection \<open>The bound\<close>

text \<open>Every tick that is due \<open>d\<close> before the end is handled at most \<open>d\<close> after it was due.\<close>

definition ticks_served :: "worker_options \<Rightarrow> int \<Rightarrow> int \<Rightarrow> int \<Rightarrow> worker_round list \<Rightarrow> bool" where
  "ticks_served opts t0 d e rs \<longleftrightarrow>
     (\<forall>k. tick_due opts t0 k + d \<le> e \<longrightarrow>
        (\<exists>r\<in>set rs. rd_command r = Tick \<and> tick_due opts t0 k \<le> rd_start r \<and> rd_start r \<le> tick_due opts t0 k + d))"

lemma served_in_time:
  assumes served: "ticks_served opts t0 d e (pre @ post)" and pos: "0 < opt_flush_interval opts"
    and timed: "rounds_timed t (pre @ post)" and timer: "t0 \<le> t"
    and later: "rounds_end t pre + opt_flush_interval opts + tick_interval opts + d \<le> e"
  obtains mid r rest where "post = mid @ r # rest" "rd_command r = Tick"
    "rounds_end t pre + opt_flush_interval opts \<le> rd_start r"
proof -
  let ?a = "rounds_end t pre + opt_flush_interval opts"
  have "t \<le> rounds_end t pre" using timed rounds_end_later [of t pre] by (simp add: rounds_timed_append)
  then have "t0 \<le> ?a" using timer pos by simp
  then obtain k where k: "?a < tick_due opts t0 k" "tick_due opts t0 k \<le> ?a + tick_interval opts"
    using tick_between [OF pos] by blast
  then have "tick_due opts t0 k + d \<le> e" using later by simp
  then obtain r where r: "r \<in> set (pre @ post)" "rd_command r = Tick" "tick_due opts t0 k \<le> rd_start r"
    using served by (auto simp: ticks_served_def)
  have "r \<notin> set pre"
    using round_before_end [of t pre r] timed r(3) k(1) pos by (auto simp: rounds_timed_append)
  then obtain mid rest where "post = mid @ r # rest" using r(1) by (auto dest: split_list)
  with r k(1) that show thesis by simp
qed

lemma records_leave:
  assumes clock: "clock_works p" and pos: "0 < opt_buffer_bytes (wp_options p)" "0 < opt_flush_interval (wp_options p)"
    and rests: "worker_rests p st" and fits: "list_all (round_fits p) (pre @ post)"
    and timed: "rounds_timed t (pre @ post)" and seen: "seen_until t (ws_tables st)" and timer: "t0 \<le> t"
    and served: "ticks_served (wp_options p) t0 d (rounds_end t (pre @ post)) (pre @ post)"
    and later: "rounds_end t pre + opt_flush_interval (wp_options p) + tick_interval (wp_options p) + d
      \<le> rounds_end t (pre @ post)"
  shows "\<exists>st' sent. run_rounds p (pre @ post) st = Some (st', sent)
    \<and> buffered_records (ws_tables st) + rounds_records pre \<subseteq># jobs_records (jobs_in sent)
    \<and> buffered_records (ws_tables st') \<subseteq># rounds_records post"
proof -
  obtain mid r rest where post: "post = mid @ r # rest" "rd_command r = Tick"
      "rounds_end t pre + opt_flush_interval (wp_options p) \<le> rd_start r"
    by (rule served_in_time [OF served pos(2) timed timer later])
  obtain st' sent where run: "run_rounds p (pre @ post) st = Some (st', sent)"
      "moved p (rounds_records (pre @ post)) st st' (jobs_in sent)"
      and left: "buffered_records (ws_tables st) + rounds_records pre \<subseteq># jobs_records (jobs_in sent)"
    using tick_sends_old_records [OF clock pos(1) rests fits [unfolded post(1)] timed [unfolded post(1)] seen post(2,3)]
    unfolding post(1) by blast
  obtain R where R: "jobs_records (jobs_in sent) = buffered_records (ws_tables st) + rounds_records pre + R"
    using left by (auto simp: mset_subset_eq_exists_conv)
  have "rounds_records post = buffered_records (ws_tables st') + R"
    using run(2) R by (simp add: moved_def ac_simps)
  with run(1) left show ?thesis by simp
qed

definition sample_round :: "command \<Rightarrow> int \<Rightarrow> worker_round" where
  "sample_round cmd t = \<lparr>rd_command = cmd, rd_order = (\<lambda>al. al), rd_now = 0, rd_seen = (\<lambda>_. t),
     rd_clock = (\<lambda>_. t), rd_start = t, rd_end = t\<rparr>"

lemma sample_ticks_served:
  "ticks_served (wp_options sample_params) 0 0 2
     [sample_round (Records [sample_record]) 0, sample_round Tick 1, sample_round Tick 2]"
  by (auto simp: ticks_served_def tick_due_def tick_interval_def sample_params_def sample_round_def)

text \<open>
  C11. However the commands of a market arrive, a worker handles every round to its end, and the
  records that were buffered when some rounds were over have been sent to the encoder after one
  flush interval, one period of the timer and the delay with which ticks are handled: all that
  is in the buffers then came later.
\<close>

theorem records_leave_in_time:
  assumes "clock_works p" and "0 < opt_buffer_bytes (wp_options p)" and "0 < opt_flush_interval (wp_options p)"
    and "worker_rests p st" and "list_all (round_fits p) (pre @ post)"
    and "rounds_timed t (pre @ post)" and "seen_until t (ws_tables st)" and "t0 \<le> t"
    and "ticks_served (wp_options p) t0 d (rounds_end t (pre @ post)) (pre @ post)"
    and "rounds_end t pre + opt_flush_interval (wp_options p) + tick_interval (wp_options p) + d
      \<le> rounds_end t (pre @ post)"
  shows "\<exists>st' sent. run_rounds p (pre @ post) st = Some (st', sent)
    \<and> buffered_records (ws_tables st) + rounds_records pre \<subseteq># jobs_records (jobs_in sent)
    \<and> buffered_records (ws_tables st') \<subseteq># rounds_records post"
  using assms by (rule records_leave)

theorem records_leave_in_time_witness:
  "\<exists>st' sent. run_rounds sample_params
      [sample_round (Records [sample_record]) 0, sample_round Tick 1, sample_round Tick 2]
      (th_state (idle_thread Spot)) = Some (st', sent)
    \<and> {#sample_record#} \<subseteq># jobs_records (jobs_in sent) \<and> buffered_records (ws_tables st') = {#}"
proof -
  let ?pre = "[sample_round (Records [sample_record]) 0]"
  let ?post = "[sample_round Tick 1, sample_round Tick 2]"
  let ?st = "th_state (idle_thread Spot)"
  have clock: "clock_works sample_params" by (simp add: clock_works_def sample_params_simps)
  have pos: "0 < opt_buffer_bytes (wp_options sample_params)" "0 < opt_flush_interval (wp_options sample_params)"
    by (simp_all add: sample_params_def)
  have rests: "worker_rests sample_params ?st"
    by (simp add: worker_rests_def idle_thread_def worker_ok_def buffered_sum_def)
  have fits: "list_all (round_fits sample_params) (?pre @ ?post)"
    by (simp add: round_fits_def sample_round_def iteration_order_id sample_params_simps batch_bytes_def
        sample_bytes usize_max_def)
  have timed: "rounds_timed 0 (?pre @ ?post)" by (simp add: sample_round_def round_timed_def)
  have seen: "seen_until 0 (ws_tables ?st)" by (simp add: seen_until_def idle_thread_def)
  have served: "ticks_served (wp_options sample_params) 0 0 (rounds_end 0 (?pre @ ?post)) (?pre @ ?post)"
    using sample_ticks_served by (simp add: sample_round_def)
  have later: "rounds_end 0 ?pre + opt_flush_interval (wp_options sample_params)
      + tick_interval (wp_options sample_params) + 0 \<le> rounds_end 0 (?pre @ ?post)"
    by (simp add: sample_round_def sample_params_def tick_interval_def)
  have records: "rounds_records ?pre = {#sample_record#}" "rounds_records ?post = {#}"
      "buffered_records (ws_tables ?st) = {#}"
    by (simp_all add: rounds_records_def round_records_def sample_round_def buffered_records_def idle_thread_def)
  show ?thesis
    using records_leave_in_time [OF clock pos rests fits timed seen order_refl served later]
    unfolding records by simp
qed

end
