(* ===== verification/Config.thy ===== *)
theory Config
  imports Data_Model Json_Value "HOL-Library.Char_ord" "HOL-Library.List_Lexorder"
begin

section \<open>Configuration\<close>

text \<open>
  \<open>src/config.rs\<close>: the options, the stream groups and connection counts derived from them,
  the distribution of subscriptions over connections, and the buffer sizes. The files of
  \<open>/proc\<close> and the answers of the exchange are parameters. \<open>usize\<close> values are naturals;
  products and sums of counts are taken not to overflow.
\<close>

subsection \<open>Options\<close>

record config =
  cfg_exchange :: exchange
  cfg_market :: market
  cfg_all_markets :: bool
  cfg_symbols :: string
  cfg_streams :: "string option"
  cfg_ws_connections :: nat
  cfg_ws_url :: "string option"
  cfg_rest_url :: "string option"
  cfg_database :: "string list"
  cfg_queue_capacity :: nat
  cfg_parquet_queue_capacity :: nat
  cfg_parquet_write_delay_ms :: nat
  cfg_buffer_mb :: nat
  cfg_segment_mb :: nat
  cfg_flush_seconds :: nat
  cfg_api_address :: string
  cfg_s3_bucket :: string
  cfg_s3_prefix :: string
  cfg_aws_region :: string
  cfg_s3_endpoint :: "string option"
  cfg_min_retention_hours :: nat
  cfg_max_retention_hours :: nat
  cfg_min_free_disk_percent :: nat
  cfg_snapshot_enabled :: bool
  cfg_snapshot_interval_seconds :: nat
  cfg_snapshot_depth_limit :: nat
  cfg_snapshot_concurrency :: nat
  cfg_snapshot_prefix :: string

record stream_group =
  group_name :: string
  group_url :: string
  group_streams :: "string list"

definition default_symbols :: string where
  "default_symbols = ''ALL''"

definition default_streams :: string where
  "default_streams = ''depth@100ms,aggTrade,trade,kline_1s,!miniTicker@arr,ticker,!ticker_1h@arr,!ticker_4h@arr,!ticker_1d@arr,bookTicker,avgPrice''"

definition default_usdm_streams :: string where
  "default_usdm_streams = ''depth@100ms,aggTrade,kline_1m,!miniTicker@arr,!ticker@arr,!bookTicker,!markPrice@arr@1s,!forceOrder@arr''"

definition default_coinm_streams :: string where
  "default_coinm_streams = ''depth@100ms,aggTrade,kline_1m''"

text \<open>The values that clap fills in.\<close>

definition default_config :: config where
  "default_config = \<lparr>cfg_exchange = Binance, cfg_market = Spot, cfg_all_markets = True,
     cfg_symbols = default_symbols, cfg_streams = None, cfg_ws_connections = 4, cfg_ws_url = None,
     cfg_rest_url = None, cfg_database = [''data'', ''market.duckdb''], cfg_queue_capacity = 20000,
     cfg_parquet_queue_capacity = 4, cfg_parquet_write_delay_ms = 250, cfg_buffer_mb = 0,
     cfg_segment_mb = 0, cfg_flush_seconds = 300, cfg_api_address = ''127.0.0.1:8081'',
     cfg_s3_bucket = ''coin-data-196920285698-ap-southeast-1-an'', cfg_s3_prefix = ''parquet/rust'',
     cfg_aws_region = ''ap-southeast-1'', cfg_s3_endpoint = None, cfg_min_retention_hours = 2,
     cfg_max_retention_hours = 2, cfg_min_free_disk_percent = 20, cfg_snapshot_enabled = True,
     cfg_snapshot_interval_seconds = 3600, cfg_snapshot_depth_limit = 500,
     cfg_snapshot_concurrency = 8, cfg_snapshot_prefix = ''snapshots/rust''\<rparr>"

subsection \<open>Lists of symbols and streams\<close>

fun csv_items :: "bool \<Rightarrow> string list \<Rightarrow> string list \<Rightarrow> string list" where
  "csv_items uppercase [] vs = vs"
| "csv_items uppercase (item # items) vs =
     (let item = (if uppercase then to_uppercase item else item) in
      csv_items uppercase items (if List.member vs item then vs else vs @ [item]))"

definition csv :: "string \<Rightarrow> bool \<Rightarrow> string list" where
  "csv v uppercase =
     csv_items uppercase (filter (\<lambda>item. item \<noteq> []) (map trim (split_on CHR '','' v))) []"

definition config_symbols :: "config \<Rightarrow> string list" where
  "config_symbols c = csv (cfg_symbols c) True"

definition config_streams :: "config \<Rightarrow> string list" where
  "config_streams c =
     (let defaults =
        (case (cfg_exchange c, cfg_market c) of
           (Binance, Usdm) \<Rightarrow> default_usdm_streams
         | (Binance, Coinm) \<Rightarrow> default_coinm_streams
         | _ \<Rightarrow> default_streams)
      in csv (case cfg_streams c of None \<Rightarrow> defaults | Some s \<Rightarrow> s) False)"

definition dataset_configs :: "config \<Rightarrow> config list" where
  "dataset_configs c =
     (let markets = (if cfg_all_markets c then [Spot, Usdm, Coinm] else [cfg_market c]) in
      map (\<lambda>m. c\<lparr>cfg_market := m, cfg_all_markets := False\<rparr>) markets)"

definition validate_config :: "config \<Rightarrow> string list \<Rightarrow> unit result" where
  "validate_config c symbols =
     (if cfg_exchange c \<noteq> Binance then Inl ''only Binance is enabled in this release''
      else if symbols = [] \<or> config_streams c = [] then Inl ''symbols and streams must not be empty''
      else if cfg_queue_capacity c = 0 then Inl ''queue capacity must be positive''
      else if cfg_parquet_queue_capacity c = 0 then Inl ''Parquet queue capacity must be positive''
      else if cfg_buffer_mb c > 0 \<and> cfg_segment_mb c > cfg_buffer_mb c
      then Inl ''segment size must not exceed the per-market buffer size''
      else if cfg_min_retention_hours c = 0 \<or> cfg_max_retention_hours c < cfg_min_retention_hours c
      then Inl ''retention must keep at least 1 hour and max must be >= min''
      else if cfg_min_free_disk_percent c > 100 then Inl ''minimum free disk percent must be <= 100''
      else if cfg_snapshot_interval_seconds c = 0 then Inl ''snapshot interval must be positive''
      else if \<not> List.member [5, 10, 20, 50, 100, 500, 1000, 5000] (cfg_snapshot_depth_limit c)
      then Inl ''snapshot depth limit is not supported by Binance''
      else if cfg_snapshot_concurrency c = 0 then Inl ''snapshot concurrency must be positive''
      else Inr ())"

subsection \<open>Memory\<close>

text \<open>\<open>read\<close> is \<open>fs::read_to_string\<close>: the text of a file, if it can be read.\<close>

definition str_lines :: "string \<Rightarrow> string list" where
  "str_lines s =
     (let ls = split_on CHR ''\<newline>'' s;
          ls = (if last ls = [] then butlast ls else ls)
      in map (\<lambda>l. case strip_suffix l [CHR 0x0D] of None \<Rightarrow> l | Some l \<Rightarrow> l) ls)"

fun find_map :: "('a \<Rightarrow> 'b option) \<Rightarrow> 'a list \<Rightarrow> 'b option" where
  "find_map f [] = None"
| "find_map f (x # xs) = (case f x of None \<Rightarrow> find_map f xs | Some y \<Rightarrow> Some y)"

definition parse_usize :: "string \<Rightarrow> nat option" where
  "parse_usize s = map_option unat (parse_u64 s)"

definition mem_total_kib :: "string \<Rightarrow> nat option" where
  "mem_total_kib line =
     Option.bind (strip_prefix line ''MemTotal:'') (\<lambda>v.
       case split_whitespace v of [] \<Rightarrow> None | w # _ \<Rightarrow> parse_usize w)"

definition cgroup_limit :: "(string \<Rightarrow> string option) \<Rightarrow> nat option" where
  "cgroup_limit read =
     Option.bind
       (Option.bind (read ''/proc/self/cgroup'') (\<lambda>content.
          find_map (\<lambda>line. Option.bind (strip_prefix line ''0::'') (\<lambda>p.
            read (''/sys/fs/cgroup'' @ p @ ''/memory.max''))) (str_lines content)))
       (\<lambda>v. parse_usize (trim v))"

definition memory_limit_bytes :: "(string \<Rightarrow> string option) \<Rightarrow> nat option" where
  "memory_limit_bytes read =
     Option.bind (Option.bind (read ''/proc/meminfo'') (\<lambda>content. find_map mem_total_kib (str_lines content)))
       (\<lambda>kib. let physical = saturating_mul kib 1024 in
         Some (case cgroup_limit read of None \<Rightarrow> physical | Some limit \<Rightarrow> min limit physical))"

definition buffer_sizes :: "(string \<Rightarrow> string option) \<Rightarrow> config \<Rightarrow> (nat \<times> nat) result" where
  "buffer_sizes read c =
     (let market_count = (if cfg_all_markets c then 3 else 1);
          memory_mb = (case memory_limit_bytes read of None \<Rightarrow> 1024 * 1024 * 1024 | Some n \<Rightarrow> n) div (1024 * 1024);
          automatic_buffer = clamp 32 256 (saturating_mul memory_mb 30 div 100 div market_count);
          buffer_mb = (if cfg_buffer_mb c = 0 then automatic_buffer else cfg_buffer_mb c);
          automatic_segment = min (clamp 16 64 (buffer_mb div 2)) buffer_mb;
          segment_mb = (if cfg_segment_mb c = 0 then automatic_segment else cfg_segment_mb c)
      in if segment_mb > buffer_mb
         then Inl ''segment size must not exceed the per-market buffer size''
         else Inr (buffer_mb, segment_mb))"

subsection \<open>URLs and stream groups\<close>

definition config_rest_url :: "config \<Rightarrow> string" where
  "config_rest_url c =
     (case cfg_rest_url c of
        Some url \<Rightarrow> url
      | None \<Rightarrow> (case (cfg_exchange c, cfg_market c) of
          (Binance, Spot) \<Rightarrow> ''https://data-api.binance.vision''
        | (Binance, Usdm) \<Rightarrow> ''https://fapi.binance.com''
        | (Binance, Coinm) \<Rightarrow> ''https://dapi.binance.com''
        | (Okx, _) \<Rightarrow> ''https://www.okx.com''
        | (Bybit, _) \<Rightarrow> ''https://api.bybit.com''))"

definition instrument_url :: "config \<Rightarrow> string" where
  "instrument_url c =
     trim_end_matches CHR ''/'' (config_rest_url c) @
     (case (cfg_exchange c, cfg_market c) of
        (Binance, Spot) \<Rightarrow> ''/api/v3/exchangeInfo''
      | (Binance, Usdm) \<Rightarrow> ''/fapi/v1/exchangeInfo''
      | (Binance, Coinm) \<Rightarrow> ''/dapi/v1/exchangeInfo''
      | (Okx, _) \<Rightarrow> ''/api/v5/public/instruments?instType=SPOT''
      | (Bybit, _) \<Rightarrow> ''/v5/market/instruments-info?category=spot'')"

definition is_public :: "string \<Rightarrow> bool" where
  "is_public stream \<longleftrightarrow> starts_with stream ''depth'' \<or> ends_with stream ''bookTicker''"

definition stream_groups :: "config \<Rightarrow> stream_group list" where
  "stream_groups c =
     (let streams = config_streams c in
      case cfg_ws_url c of
        Some url \<Rightarrow> [\<lparr>group_name = ''custom'', group_url = url, group_streams = streams\<rparr>]
      | None \<Rightarrow>
          if cfg_exchange c = Binance \<and> cfg_market c = Usdm
          then filter (\<lambda>g. group_streams g \<noteq> [])
            [\<lparr>group_name = ''public'', group_url = ''wss://fstream.binance.com/public/stream'',
               group_streams = filter is_public streams\<rparr>,
             \<lparr>group_name = ''market'', group_url = ''wss://fstream.binance.com/market/stream'',
               group_streams = filter (\<lambda>s. \<not> is_public s) streams\<rparr>]
          else [\<lparr>group_name = ''market'',
                  group_url = (case (cfg_exchange c, cfg_market c) of
                      (Binance, Spot) \<Rightarrow> ''wss://data-stream.binance.vision/stream''
                    | (Binance, Usdm) \<Rightarrow> undefined
                    | (Binance, Coinm) \<Rightarrow> ''wss://dstream.binance.com/stream''
                    | (Okx, _) \<Rightarrow> ''wss://ws.okx.com:8443/ws/v5/public''
                    | (Bybit, _) \<Rightarrow> ''wss://stream.bybit.com/v5/public/spot''),
                  group_streams = streams\<rparr>])"

end
