(* ===== verification/Connections.thy ===== *)
theory Connections
  imports Config "HOL-Library.Multiset"
begin

section \<open>Connections and shards\<close>

text \<open>
  The part of \<open>src/config.rs\<close> that decides how many websocket connections a market gets and
  which subscriptions each of them carries. A division by zero of the source, which panics, is
  \<open>None\<close>.
\<close>

subsection \<open>How many connections\<close>

definition flush_interval :: "config \<Rightarrow> nat" where
  "flush_interval c = cfg_flush_seconds c"

definition is_global :: "string \<Rightarrow> bool" where
  "is_global stream \<longleftrightarrow> starts_with stream ''!''"

definition stream_limit :: "config \<Rightarrow> stream_group \<Rightarrow> nat" where
  "stream_limit c g =
     (if cfg_exchange c = Binance \<and> cfg_market c = Usdm \<and> group_name g = ''public''
      then 128 else 1024)"

definition required_connection_count :: "config \<Rightarrow> nat \<Rightarrow> stream_group \<Rightarrow> nat" where
  "required_connection_count c symbol_count g =
     (let required =
        (case cfg_exchange c of
           Binance \<Rightarrow>
             (case partition is_global (group_streams g) of (globals, per_symbol) \<Rightarrow>
                div_ceil (symbol_count * length per_symbol + length globals) (stream_limit c g))
         | _ \<Rightarrow> div_ceil symbol_count 100)
      in min (max required 1) symbol_count)"

definition checked_div_ceil :: "nat \<Rightarrow> nat \<Rightarrow> nat option" where
  "checked_div_ceil a b = (if b = 0 then None else Some (div_ceil a b))"

text \<open>
  The key of \<open>min_by_key\<close> for every group that may get one more connection, paired with the
  group's index; \<open>None\<close> when computing one of them divides by zero.
\<close>

definition load_keys :: "config \<Rightarrow> nat \<Rightarrow> stream_group list \<Rightarrow> nat list \<Rightarrow> (nat \<times> nat) list option" where
  "load_keys c symbol_count groups counts =
     those (map (\<lambda>(i, n). map_option (\<lambda>k. (k, i))
                  (checked_div_ceil (n * stream_limit c (groups ! i)) (length (group_streams (groups ! i)))))
       (filter (\<lambda>(i, n). n < symbol_count) (enumerate 0 counts)))"

text \<open>\<open>min_by_key\<close>: the first of the smallest.\<close>

fun first_min :: "(nat \<times> nat) list \<Rightarrow> (nat \<times> nat) option" where
  "first_min [] = None"
| "first_min (p # ps) =
     (case first_min ps of
        None \<Rightarrow> Some p
      | Some q \<Rightarrow> if fst q < fst p then Some q else Some p)"

lemma first_min_mem: "first_min ps = Some p \<Longrightarrow> p \<in> set ps"
  by (induction ps arbitrary: p) (auto split: option.splits if_splits)

lemma first_min_None: "first_min ps = None \<longleftrightarrow> ps = []"
  by (cases ps) (auto split: option.splits)

lemma first_min_least: "first_min ps = Some p \<Longrightarrow> q \<in> set ps \<Longrightarrow> fst p \<le> fst q"
  by (induction ps arbitrary: p q)
    (auto split: option.splits if_splits simp: first_min_None, fastforce+)

lemma those_Some: "those xs = Some ys \<longleftrightarrow> xs = map Some ys"
proof (induction xs arbitrary: ys)
  case (Cons x xs)
  then show ?case by (cases ys) (auto split: option.splits)
qed auto

lemma those_None: "those xs = None \<longleftrightarrow> None \<in> set xs"
  by (induction xs) (auto split: option.splits)

lemma load_keys_mem:
  assumes "load_keys c symbol_count groups counts = Some ks" and "(k, i) \<in> set ks"
  shows "i < length counts" and "counts ! i < symbol_count"
proof -
  have "Some (k, i) \<in> set (map Some ks)" using assms(2) by simp
  with assms(1) have "i < length counts \<and> counts ! i < symbol_count"
    unfolding load_keys_def those_Some [THEN iffD1, OF assms(1) [unfolded load_keys_def], symmetric]
    by (auto simp: in_set_enumerate_eq checked_div_ceil_def split: if_splits)
  then show "i < length counts" and "counts ! i < symbol_count" by auto
qed

lemma sum_list_increment: "i < length ns \<Longrightarrow> sum_list (ns[i := Suc (ns ! i)]) = Suc (sum_list ns)"
  for ns :: "nat list"
proof (induction ns arbitrary: i)
  case (Cons n ns)
  then show ?case by (cases i) simp_all
qed simp

function grow_counts :: "config \<Rightarrow> nat \<Rightarrow> stream_group list \<Rightarrow> nat \<Rightarrow> nat list \<Rightarrow> nat list option" where
  "grow_counts c symbol_count groups target counts =
     (if sum_list counts < target
      then (case load_keys c symbol_count groups counts of
              None \<Rightarrow> None
            | Some keys \<Rightarrow>
                (case first_min keys of
                   None \<Rightarrow> Some counts
                 | Some (_, i) \<Rightarrow>
                     grow_counts c symbol_count groups target (counts[i := Suc (counts ! i)])))
      else Some counts)"
  by auto
termination
proof (relation "measure (\<lambda>(_, _, _, target, counts). target - sum_list counts)")
  fix c symbol_count groups target counts keys p k i
  assume *: "sum_list counts < target"
    "load_keys c symbol_count groups counts = Some keys" "first_min keys = Some p" "(k, i) = p"
  then have "i < length counts"
    by (metis first_min_mem load_keys_mem(1))
  with * show "((c, symbol_count, groups, target, counts[i := Suc (counts ! i)]),
      c, symbol_count, groups, target, counts)
      \<in> measure (\<lambda>(_, _, _, target, counts). target - sum_list counts)"
    by (simp add: sum_list_increment)
qed simp

definition connection_counts :: "config \<Rightarrow> nat \<Rightarrow> nat list option" where
  "connection_counts c symbol_count =
     (let groups = stream_groups c;
          counts = map (required_connection_count c symbol_count) groups;
          target = max (cfg_ws_connections c) (sum_list counts)
      in grow_counts c symbol_count groups target counts)"

definition connection_count :: "config \<Rightarrow> nat \<Rightarrow> nat option" where
  "connection_count c symbol_count = map_option sum_list (connection_counts c symbol_count)"

subsection \<open>Which subscriptions\<close>

text \<open>\<open>shards[index % count].push(..)\<close>: with \<open>count = 0\<close> the remainder panics.\<close>

definition push_shard :: "nat \<Rightarrow> nat \<Rightarrow> string \<Rightarrow> string list list \<Rightarrow> string list list option" where
  "push_shard shard_count index s shards =
     (if shard_count = 0 then None
      else Some (shards[index mod shard_count := shards ! (index mod shard_count) @ [s]]))"

fun push_all :: "nat \<Rightarrow> (nat \<times> string) list \<Rightarrow> string list list \<Rightarrow> string list list option" where
  "push_all shard_count [] shards = Some shards"
| "push_all shard_count ((i, s) # ps) shards =
     Option.bind (push_shard shard_count i s shards) (push_all shard_count ps)"

definition global_pushes :: "string list \<Rightarrow> (nat \<times> string) list" where
  "global_pushes streams = enumerate 0 (filter is_global streams)"

definition symbol_pushes :: "string list \<Rightarrow> string list \<Rightarrow> (nat \<times> string) list" where
  "symbol_pushes symbols streams =
     concat (map (\<lambda>(i, symbol). map (\<lambda>s. (i, to_lowercase symbol @ ''@'' @ s))
                    (filter (\<lambda>s. \<not> is_global s) streams))
       (enumerate 0 symbols))"

definition shards :: "string list \<Rightarrow> string list \<Rightarrow> nat \<Rightarrow> string list list option" where
  "shards symbols streams shard_count =
     push_all shard_count (global_pushes streams @ symbol_pushes symbols streams) (replicate shard_count [])"

subsection \<open>The counts\<close>

lemma sum_list_le_const: "list_all (\<lambda>n. n \<le> k) ns \<Longrightarrow> sum_list ns \<le> length ns * k" for k :: nat
  by (induction ns) auto

lemma sum_list_all_eq: "list_all (\<lambda>n. n = k) ns \<Longrightarrow> sum_list ns = length ns * k" for k :: nat
  by (induction ns) auto

lemma load_keys_total:
  assumes "\<forall>g\<in>set groups. group_streams g \<noteq> []" and "length counts = length groups"
  obtains ks where "load_keys c k groups counts = Some ks"
    and "ks = [] \<Longrightarrow> list_all (\<lambda>n. k \<le> n) counts"
proof -
  let ?ps = "filter (\<lambda>(i, n). n < k) (enumerate 0 counts)"
  have "load_keys c k groups counts \<noteq> None"
    using assms
    by (auto simp: load_keys_def those_None checked_div_ceil_def in_set_enumerate_eq)
  then obtain ks where ks: "load_keys c k groups counts = Some ks" by blast
  moreover have "list_all (\<lambda>n. k \<le> n) counts" if "ks = []"
  proof -
    have "?ps = []" using ks that by (auto simp: load_keys_def those_Some)
    then have "\<not> counts ! i < k" if "i < length counts" for i
      using that by (auto simp: filter_empty_conv in_set_enumerate_eq)
    then show ?thesis by (simp add: list_all_length not_less)
  qed
  ultimately show thesis using that by blast
qed

lemma grow_counts_spec:
  assumes "\<forall>g\<in>set groups. group_streams g \<noteq> []" and "length counts = length groups"
    and "list_all (\<lambda>n. n \<le> k) counts"
  shows "\<exists>counts'. grow_counts c k groups target counts = Some counts'
    \<and> length counts' = length groups \<and> list_all (\<lambda>n. n \<le> k) counts'
    \<and> list_all2 (\<le>) counts counts'
    \<and> sum_list counts' = max (sum_list counts) (min target (length groups * k))"
  using assms
proof (induction c k groups target counts rule: grow_counts.induct)
  case (1 c k groups target counts)
  obtain ks where ks: "load_keys c k groups counts = Some ks"
      and none: "ks = [] \<Longrightarrow> list_all (\<lambda>n. k \<le> n) counts"
    using load_keys_total "1.prems" by blast
  have upper: "sum_list counts \<le> length groups * k"
    using sum_list_le_const [OF "1.prems"(3)] "1.prems"(2) by simp
  have refl: "list_all2 (\<le>) counts counts" by (simp add: list_all2_same)
  consider (stop) "\<not> sum_list counts < target" | (full) "sum_list counts < target" "ks = []"
    | (more) "sum_list counts < target" "ks \<noteq> []" by blast
  then show ?case
  proof cases
    case stop
    then show ?thesis
      using "1.prems" refl upper by (subst grow_counts.simps) (auto simp: max_def min_def)
  next
    case full
    then have "list_all (\<lambda>n. n = k) counts"
      using none "1.prems"(3) by (auto simp: list_all_iff intro: antisym)
    then have "sum_list counts = length groups * k"
      using sum_list_all_eq "1.prems"(2) by metis
    with full ks refl "1.prems" show ?thesis
      by (subst grow_counts.simps) (auto simp: max_def min_def)
  next
    case more
    then obtain key i where m: "first_min ks = Some (key, i)"
      using first_min_None by (metis not_None_eq surj_pair)
    then have i: "i < length counts" "counts ! i < k"
      using load_keys_mem [OF ks first_min_mem] by blast+
    let ?next = "counts[i := Suc (counts ! i)]"
    have all: "list_all (\<lambda>n. n \<le> k) ?next"
      using "1.prems"(3) i by (auto simp: list_all_length nth_list_update)
    have step: "grow_counts c k groups target counts = grow_counts c k groups target ?next"
      using more ks m by (subst grow_counts.simps) simp
    from "1.IH" [OF more(1) ks m] "1.prems"(1,2) all
    obtain counts' where counts': "grow_counts c k groups target ?next = Some counts'"
        "length counts' = length groups" "list_all (\<lambda>n. n \<le> k) counts'"
        "list_all2 (\<le>) ?next counts'"
        "sum_list counts' = max (sum_list ?next) (min target (length groups * k))"
      by auto
    moreover have "list_all2 (\<le>) counts counts'"
    proof (rule list_all2_all_nthI)
      show "length counts = length counts'" using counts'(2) "1.prems"(2) by simp
      fix j assume "j < length counts"
      then show "counts ! j \<le> counts' ! j"
        using list_all2_nthD [OF counts'(4), of j] by (cases "j = i") (auto simp: i)
    qed
    moreover have "max (sum_list ?next) (min target (length groups * k)) =
        max (sum_list counts) (min target (length groups * k))"
    proof -
      have "sum_list ?next = Suc (sum_list counts)" using i(1) by (rule sum_list_increment)
      moreover have "Suc (sum_list counts) \<le> length groups * k"
        using sum_list_le_const [OF all] "1.prems"(2) calculation by simp
      ultimately show ?thesis using more(1) by (simp add: max_def min_def)
    qed
    ultimately show ?thesis using step by metis
  qed
qed

lemma stream_groups_streams: "config_streams c \<noteq> [] \<Longrightarrow> \<forall>g\<in>set (stream_groups c). group_streams g \<noteq> []"
  by (auto simp: stream_groups_def Let_def split: option.splits)

lemma required_le: "required_connection_count c k g \<le> k"
  by (simp add: required_connection_count_def Let_def)

lemma connection_counts_spec:
  assumes "config_streams c \<noteq> []"
  shows "\<exists>counts. connection_counts c k = Some counts
    \<and> list_all2 (\<lambda>g n. required_connection_count c k g \<le> n \<and> n \<le> k) (stream_groups c) counts
    \<and> sum_list counts =
        min (max (cfg_ws_connections c)
               (sum_list (map (required_connection_count c k) (stream_groups c))))
            (length (stream_groups c) * k)"
proof -
  let ?req = "map (required_connection_count c k) (stream_groups c)"
  have le: "list_all (\<lambda>n. n \<le> k) ?req"
    by (simp add: list_all_iff required_le)
  obtain counts where counts: "connection_counts c k = Some counts"
      "length counts = length (stream_groups c)" "list_all (\<lambda>n. n \<le> k) counts"
      "list_all2 (\<le>) ?req counts"
      "sum_list counts = max (sum_list ?req)
         (min (max (cfg_ws_connections c) (sum_list ?req)) (length (stream_groups c) * k))"
    using grow_counts_spec [OF stream_groups_streams [OF assms], of ?req k c
        "max (cfg_ws_connections c) (sum_list ?req)"] le
    by (auto simp: connection_counts_def Let_def)
  have "sum_list ?req \<le> length (stream_groups c) * k"
    using sum_list_le_const [OF le] by simp
  then have "sum_list counts = min (max (cfg_ws_connections c) (sum_list ?req)) (length (stream_groups c) * k)"
    using counts(5) by (auto simp: max_def min_def)
  moreover have "list_all2 (\<lambda>g n. required_connection_count c k g \<le> n \<and> n \<le> k) (stream_groups c) counts"
    using counts(2-4) by (auto simp: list_all2_conv_all_nth list_all_length)
  ultimately show ?thesis using counts(1) by blast
qed

subsection \<open>The shards\<close>

definition subscriptions :: "string list \<Rightarrow> string list \<Rightarrow> string list" where
  "subscriptions symbols streams =
     filter is_global streams @
     concat (map (\<lambda>symbol. map (\<lambda>s. to_lowercase symbol @ ''@'' @ s)
       (filter (\<lambda>s. \<not> is_global s) streams)) symbols)"

lemma pushes_subscriptions:
  "map snd (global_pushes streams @ symbol_pushes symbols streams) = subscriptions symbols streams"
proof -
  have "map snd (concat (map (\<lambda>(i, symbol). map (\<lambda>s. (i, f symbol s)) ss) (enumerate n symbols))) =
      concat (map (\<lambda>symbol. map (f symbol) ss) symbols)"
    for n :: nat and f :: "string \<Rightarrow> string \<Rightarrow> string" and ss
    by (induction symbols arbitrary: n) (simp_all add: comp_def)
  from this [of "\<lambda>symbol s. to_lowercase symbol @ ''@'' @ s"] show ?thesis
    by (simp add: global_pushes_def symbol_pushes_def subscriptions_def)
qed

lemma push_all_eq:
  assumes "0 < k" and "length shs = k"
  shows "push_all k ps shs =
    Some (map (\<lambda>j. shs ! j @ map snd (filter (\<lambda>(i, _). i mod k = j) ps)) [0..<k])"
  using assms(2)
proof (induction ps arbitrary: shs)
  case Nil
  then show ?case by (auto intro: nth_equalityI)
next
  case (Cons p ps)
  obtain i x where p: "p = (i, x)" by fastforce
  have "i mod k < length shs" using assms(1) Cons.prems by simp
  then show ?case
    using assms(1) Cons p by (auto simp: push_shard_def intro!: map_cong)
qed

lemma shards_eq:
  "0 < k \<Longrightarrow> shards symbols streams k =
     Some (map (\<lambda>j. map snd (filter (\<lambda>(i, _). i mod k = j)
       (global_pushes streams @ symbol_pushes symbols streams))) [0..<k])"
  by (simp add: shards_def push_all_eq del: filter_append map_append)

lemma mset_concat_residues:
  assumes "0 < k"
  shows "mset (concat (map (\<lambda>j. map snd (filter (\<lambda>(i, _). i mod k = j) ps)) [0..<k])) =
    mset (map snd ps)"
proof (induction ps)
  case Nil
  then show ?case by (induction k) auto
next
  case (Cons p ps)
  obtain i x where p: "p = (i, x)" by fastforce
  have split: "[0..<k] = [0..<i mod k] @ [i mod k] @ [Suc (i mod k)..<k]"
    using assms upt_add_eq_append [of 0 "i mod k" "k - i mod k"]
    by (simp add: upt_conv_Cons)
  have other: "map (\<lambda>j. map snd (filter (\<lambda>(i, _). i mod k = j) (p # ps))) js =
      map (\<lambda>j. map snd (filter (\<lambda>(i, _). i mod k = j) ps)) js" if "i mod k \<notin> set js" for js
    using that by (induction js) (auto simp: p)
  have left: "i mod k \<notin> set [0..<i mod k]" and right: "i mod k \<notin> set [Suc (i mod k)..<k]" by auto
  show ?case
    using Cons unfolding split map_append concat_append mset_append other [OF left] other [OF right]
    by (simp add: p)
qed

subsection \<open>The size of a shard\<close>

lemma count_residue:
  assumes "j < k"
  shows "length (filter (\<lambda>i. i mod k = j) [0..<n]) = (n + k - 1 - j) div k"
proof (induction n)
  case 0
  then show ?case using assms by simp
next
  case (Suc n)
  have "Suc n + k - 1 - j = Suc (n + k - 1 - j)" using assms by simp
  moreover have "Suc (n + k - 1 - j) mod k = 0 \<longleftrightarrow> n mod k = j"
  proof -
    have "Suc (n + k - 1 - j) = n + (k - j)" using assms by simp
    moreover have "(n + (k - j)) mod k = 0 \<longleftrightarrow> (n mod k + (k - j)) mod k = 0"
      by (simp add: mod_simps)
    moreover have "(n mod k + (k - j)) mod k = 0 \<longleftrightarrow> n mod k = j"
    proof -
      have "n mod k < k" using assms by simp
      then consider "n mod k = j" | "n mod k < j" | "j < n mod k" by linarith
      then show ?thesis
      proof cases
        case 3
        then have "n mod k + (k - j) = (n mod k - j) + k" and "n mod k - j < k"
          using assms \<open>n mod k < k\<close> by simp_all
        then have "(n mod k + (k - j)) mod k = n mod k - j" by (simp only: mod_add_self2) simp
        then show ?thesis using 3 by simp
      qed (use assms in auto)
    qed
    ultimately show ?thesis by simp
  qed
  ultimately show ?case using Suc by (simp add: div_Suc)
qed

lemma length_filter_enumerate:
  "length (filter (\<lambda>(i, _). P i) (enumerate m xs)) = length (filter P [m..<m + length xs])"
proof (induction xs arbitrary: m)
  case (Cons x xs)
  have "[m..<m + length (x # xs)] = m # [Suc m..<Suc m + length xs]" by (simp add: upt_rec)
  then show ?case using Cons by simp
qed simp

lemma length_filter_symbol_pushes:
  "length (filter (\<lambda>(i, _). P i) (symbol_pushes symbols streams)) =
   length (filter P [0..<length symbols]) * length (filter (\<lambda>s. \<not> is_global s) streams)"
proof -
  have "length (filter (\<lambda>(i, _). P i)
      (concat (map (\<lambda>(i, symbol). map (\<lambda>s. (i, f symbol s)) ss) (enumerate m symbols)))) =
    length (filter P [m..<m + length symbols]) * length ss"
    for m and f :: "string \<Rightarrow> string \<Rightarrow> string" and ss
  proof (induction symbols arbitrary: m)
    case (Cons x xs)
    have "filter (\<lambda>(i, _). P i) (map (\<lambda>s. (m, f x s)) ss) = (if P m then map (\<lambda>s. (m, f x s)) ss else [])"
      by (induction ss) auto
    moreover have "[m..<m + length (x # xs)] = m # [Suc m..<Suc m + length xs]" by (simp add: upt_rec)
    ultimately show ?case using Cons [of "Suc m"] by simp
  qed simp
  from this [of "\<lambda>symbol s. to_lowercase symbol @ ''@'' @ s" _ 0] show ?thesis
    by (simp add: symbol_pushes_def)
qed

lemma shard_length:
  assumes "shards symbols streams k = Some shs" and "j < k"
  shows "length (shs ! j) =
    (length (filter is_global streams) + k - 1 - j) div k +
    (length symbols + k - 1 - j) div k * length (filter (\<lambda>s. \<not> is_global s) streams)"
proof -
  have "shs ! j = map snd (filter (\<lambda>(i, _). i mod k = j)
      (global_pushes streams @ symbol_pushes symbols streams))"
  proof -
    have "0 < k" using assms(2) by simp
    from shards_eq [OF this, of symbols streams] assms(1)
    have "shs = map (\<lambda>j. map snd (filter (\<lambda>(i, _). i mod k = j)
        (global_pushes streams @ symbol_pushes symbols streams))) [0..<k]" by simp
    then show ?thesis using assms(2) by (simp del: filter_append map_append)
  qed
  then show ?thesis
    using assms(2)
    by (simp add: length_filter_symbol_pushes global_pushes_def length_filter_enumerate count_residue)
qed

lemma ceil_residue_le: "j < k \<Longrightarrow> (n + k - 1 - j) div k \<le> div_ceil n k" for n k :: nat
proof -
  assume "j < k"
  then have "(n + k - 1 - j) div k \<le> (n + (k - 1)) div k" by (intro div_le_mono) simp
  also have "\<dots> \<le> div_ceil n k"
  proof -
    have "n + (k - 1) < Suc (div_ceil n k) * k"
      using div_ceil_mult_ge [of k n] \<open>j < k\<close> by simp
    then have "(n + (k - 1)) div k < Suc (div_ceil n k)" by (rule less_mult_imp_div_less)
    then show ?thesis by simp
  qed
  finally show ?thesis .
qed

subsection \<open>Properties\<close>

lemma shard_bound:
  assumes "shards symbols streams k = Some shs" and "0 < k" and "sh \<in> set shs"
  shows "length sh \<le> div_ceil (length (filter is_global streams)) k +
    div_ceil (length symbols) k * length (filter (\<lambda>s. \<not> is_global s) streams)"
proof -
  have "length shs = k" using assms(1,2) by (auto simp: shards_eq)
  then obtain j where "j < k" "sh = shs ! j" using assms(3) by (auto simp: in_set_conv_nth)
  then show ?thesis
    unfolding \<open>sh = shs ! j\<close> shard_length [OF assms(1) \<open>j < k\<close>]
    by (intro add_mono mult_le_mono1 ceil_residue_le)
qed

lemma length_partition: "length (filter P xs) + length (filter (\<lambda>x. \<not> P x) xs) = length xs"
  by (induction xs) auto

lemma div_ceil_le_Suc: "div_ceil a b \<le> Suc (a div b)"
  by (simp add: div_ceil_def)

lemma even_shares:
  assumes "0 < k" and "div_ceil (n * p + g) limit \<le> k" and "0 < limit"
  shows "div_ceil g k + div_ceil n k * p \<le> limit + p + 1"
proof -
  have "n * p + g \<le> div_ceil (n * p + g) limit * limit" using assms(3) by (rule div_ceil_mult_ge)
  also have "\<dots> \<le> k * limit" using assms(2) by (rule mult_le_mono1)
  finally have all: "n * p + g \<le> k * limit" .
  have "k * (g div k + (n div k) * p) \<le> g + n * p"
  proof -
    have "k * (g div k) \<le> g" and "k * (n div k) \<le> n" by (simp_all add: mult.commute)
    then have "k * (g div k) + (k * (n div k)) * p \<le> g + n * p"
      by (intro add_mono mult_le_mono1)
    then show ?thesis by (simp add: algebra_simps)
  qed
  then have "k * (g div k + (n div k) * p) \<le> k * limit" using all by linarith
  then have "g div k + (n div k) * p \<le> limit"
    using assms(1) by (simp only: nat_mult_le_cancel1)
  moreover have "div_ceil g k + div_ceil n k * p \<le> Suc (g div k) + Suc (n div k) * p"
    by (intro add_mono mult_le_mono1 div_ceil_le_Suc)
  ultimately show ?thesis by simp
qed

text \<open>
  C31. Every subscription of a group is sent on exactly one connection: with at least one
  connection the shards together hold each global stream once and each symbol's streams once,
  no shard exceeds an even share of the global streams plus an even share of the symbols, and
  all streams of one symbol go to the shard of the symbol's index.
\<close>

theorem shards_cover_subscriptions:
  assumes "0 < k"
  shows "\<exists>shs. shards symbols streams k = Some shs \<and> length shs = k
    \<and> mset (concat shs) = mset (subscriptions symbols streams)
    \<and> (\<forall>sh\<in>set shs. length sh \<le> div_ceil (length (filter is_global streams)) k +
         div_ceil (length symbols) k * length (filter (\<lambda>s. \<not> is_global s) streams))
    \<and> (\<forall>i<length symbols. \<forall>s\<in>set streams. \<not> is_global s \<longrightarrow>
         to_lowercase (symbols ! i) @ ''@'' @ s \<in> set (shs ! (i mod k)))"
proof -
  let ?ps = "global_pushes streams @ symbol_pushes symbols streams"
  let ?shs = "map (\<lambda>j. map snd (filter (\<lambda>(i, _). i mod k = j) ?ps)) [0..<k]"
  have eq: "shards symbols streams k = Some ?shs" using assms by (rule shards_eq)
  have "mset (concat ?shs) = mset (map snd ?ps)" using assms by (rule mset_concat_residues)
  then have "mset (concat ?shs) = mset (subscriptions symbols streams)"
    by (simp only: pushes_subscriptions)
  moreover have "to_lowercase (symbols ! i) @ ''@'' @ s \<in> set (?shs ! (i mod k))"
    if "i < length symbols" "s \<in> set streams" "\<not> is_global s" for i s
  proof -
    have "(i, symbols ! i) \<in> set (enumerate 0 symbols)"
      using that(1) by (simp add: in_set_enumerate_eq)
    then have "(i, to_lowercase (symbols ! i) @ ''@'' @ s) \<in> set (symbol_pushes symbols streams)"
      unfolding symbol_pushes_def set_concat set_map using that(2,3) by (intro UN_I) auto
    moreover have "?shs ! (i mod k) = map snd (filter (\<lambda>(i', _). i' mod k = i mod k) ?ps)"
      using assms by simp
    moreover have "map snd (filter (\<lambda>(i', _). i' mod k = i mod k) ?ps) =
        map snd (filter (\<lambda>(i', _). i' mod k = i mod k) (global_pushes streams)) @
        map snd (filter (\<lambda>(i', _). i' mod k = i mod k) (symbol_pushes symbols streams))"
      by simp
    moreover have "x \<in> set (map snd (filter (\<lambda>(i', _). i' mod k = i mod k) ps))"
      if "(i, x) \<in> set ps" for x :: string and ps
      using that by force
    ultimately show ?thesis by simp
  qed
  ultimately show ?thesis
    using eq shard_bound [OF eq assms] assms by (intro exI [of _ ?shs]) simp
qed

theorem shards_cover_subscriptions_witness:
  "\<exists>shs. shards [''BTCUSDT'', ''ETHUSDT''] [''trade'', ''!miniTicker@arr''] 2 = Some shs
    \<and> length (concat shs) = 3"
proof -
  have "(0::nat) < 2" by simp
  from shards_cover_subscriptions [OF this, of "[''BTCUSDT'', ''ETHUSDT'']" "[''trade'', ''!miniTicker@arr'']"]
  obtain shs where "shards [''BTCUSDT'', ''ETHUSDT''] [''trade'', ''!miniTicker@arr''] 2 = Some shs"
      and "mset (concat shs) = mset (subscriptions [''BTCUSDT'', ''ETHUSDT''] [''trade'', ''!miniTicker@arr''])"
    by blast
  moreover have "length (subscriptions [''BTCUSDT'', ''ETHUSDT''] [''trade'', ''!miniTicker@arr'']) = 3"
    by code_simp
  ultimately show ?thesis by (metis size_mset)
qed

text \<open>
  C32. The loop that hands out connections ends with the most that were asked for: for a
  configuration with streams, every group gets at least what its subscriptions require and at
  most one connection per symbol, and the total is the larger of the requested and the required
  number, capped by one connection per group and symbol.
\<close>

theorem connection_counts_total:
  assumes "validate_config c symbols = Inr ()"
  shows "\<exists>counts. connection_counts c (length symbols) = Some counts
    \<and> list_all2 (\<lambda>g n. required_connection_count c (length symbols) g \<le> n \<and> n \<le> length symbols)
        (stream_groups c) counts
    \<and> connection_count c (length symbols) = Some
        (min (max (cfg_ws_connections c)
               (sum_list (map (required_connection_count c (length symbols)) (stream_groups c))))
            (length (stream_groups c) * length symbols))"
proof -
  have "config_streams c \<noteq> []" using assms by (auto simp: validate_config_def split: if_splits)
  from connection_counts_spec [OF this, of "length symbols"] show ?thesis
    by (auto simp: connection_count_def)
qed

lemma validated:
  assumes "validate_config c symbols = Inr ()"
  shows "cfg_exchange c = Binance" and "symbols \<noteq> []" and "config_streams c \<noteq> []"
  using assms by (auto simp: validate_config_def split: if_splits)

definition default_spot_group :: stream_group where
  "default_spot_group = \<lparr>group_name = ''market'', group_url = ''wss://data-stream.binance.vision/stream'',
     group_streams = [''depth@100ms'', ''aggTrade'', ''trade'', ''kline_1s'', ''!miniTicker@arr'', ''ticker'',
       ''!ticker_1h@arr'', ''!ticker_4h@arr'', ''!ticker_1d@arr'', ''bookTicker'', ''avgPrice'']\<rparr>"

lemma default_config_simps:
  "cfg_exchange default_config = Binance" "cfg_market default_config = Spot"
  "cfg_ws_url default_config = None" "cfg_ws_connections default_config = 4"
  "cfg_queue_capacity default_config = 20000" "cfg_parquet_queue_capacity default_config = 4"
  "cfg_buffer_mb default_config = 0" "cfg_min_retention_hours default_config = 2"
  "cfg_max_retention_hours default_config = 2" "cfg_min_free_disk_percent default_config = 20"
  "cfg_snapshot_interval_seconds default_config = 3600" "cfg_snapshot_depth_limit default_config = 500"
  "cfg_snapshot_concurrency default_config = 8"
  "config_streams default_config = csv default_streams False"
  by (simp_all add: default_config_def config_streams_def)

lemma default_streams_csv: "csv default_streams False = group_streams default_spot_group"
  by code_simp

lemma default_groups: "stream_groups default_config = [default_spot_group]"
  by (simp add: stream_groups_def default_config_simps default_streams_csv)
    (simp add: default_spot_group_def)

lemma default_config_valid:
  assumes "symbols \<noteq> []"
  shows "validate_config default_config symbols = Inr ()"
proof -
  have "config_streams default_config \<noteq> []"
    by (simp add: default_config_simps default_streams_csv) (simp add: default_spot_group_def)
  then show ?thesis using assms
    by (simp add: validate_config_def default_config_simps(1,2,4-13))
qed

theorem connection_counts_total_witness:
  "\<exists>counts. connection_counts default_config 2 = Some counts
     \<and> list_all2 (\<lambda>g n. required_connection_count default_config 2 g \<le> n \<and> n \<le> 2)
         (stream_groups default_config) counts
     \<and> connection_count default_config 2 = Some 2"
proof -
  have "connection_count default_config 2 = Some
      (min (max 4 (sum_list (map (required_connection_count default_config 2) (stream_groups default_config))))
        (length (stream_groups default_config) * 2)) \<and> length (stream_groups default_config) = 1"
    using connection_counts_total [OF default_config_valid, of "[''BTCUSDT'', ''ETHUSDT'']"]
    by (auto simp: default_config_simps(4) default_groups numeral_2_eq_2)
  moreover have "min (max 4 n) 2 = (2 :: nat)" for n by simp
  ultimately have "connection_count default_config 2 = Some 2" by simp
  then show ?thesis
    using connection_counts_total [OF default_config_valid, of "[''BTCUSDT'', ''ETHUSDT'']"]
    by (auto simp: numeral_2_eq_2)
qed

lemma default_group_streams:
  "length (filter (\<lambda>s. \<not> is_global s) (group_streams default_spot_group)) = 7"
  "length (filter is_global (group_streams default_spot_group)) = 4"
  "stream_limit default_config default_spot_group = 1024"
  by (simp_all add: default_spot_group_def is_global_def starts_with_def stream_limit_def
      default_config_def)

text \<open>
  C33. No connection that the planned counts produce carries more than the stream limit of its
  group plus the streams of one symbol and one global stream, as long as the group does not need
  more connections than there are symbols.
\<close>

theorem planned_shards_near_limit:
  assumes "validate_config c symbols = Inr ()"
    and "connection_counts c (length symbols) = Some counts"
    and "i < length (stream_groups c)"
    and "shards symbols (group_streams (stream_groups c ! i)) (counts ! i) = Some shs"
    and "sh \<in> set shs"
    and "div_ceil (length symbols * length (filter (\<lambda>s. \<not> is_global s) (group_streams (stream_groups c ! i)))
           + length (filter is_global (group_streams (stream_groups c ! i))))
         (stream_limit c (stream_groups c ! i)) \<le> length symbols"
  shows "length sh \<le> stream_limit c (stream_groups c ! i)
    + length (filter (\<lambda>s. \<not> is_global s) (group_streams (stream_groups c ! i))) + 1"
proof -
  let ?g = "stream_groups c ! i"
  note ok = validated [OF assms(1)]
  have "list_all2 (\<lambda>g n. required_connection_count c (length symbols) g \<le> n \<and> n \<le> length symbols)
      (stream_groups c) counts"
    using connection_counts_spec [OF ok(3), of "length symbols"] assms(2) by auto
  then have req: "required_connection_count c (length symbols) ?g \<le> counts ! i"
    using assms(3) by (auto dest: list_all2_nthD)
  have "0 < length symbols" using ok(2) by simp
  have "0 < required_connection_count c (length symbols) ?g"
    using \<open>0 < length symbols\<close> by (simp add: required_connection_count_def Let_def)
  with req have pos: "0 < counts ! i" by simp
  have "div_ceil (length symbols * length (filter (\<lambda>s. \<not> is_global s) (group_streams ?g))
      + length (filter is_global (group_streams ?g))) (stream_limit c ?g) \<le> counts ! i"
    using req assms(6) ok(1)
    by (auto simp: required_connection_count_def Let_def comp_def min_def max_def split: if_splits)
  from even_shares [OF pos this] have "div_ceil (length (filter is_global (group_streams ?g))) (counts ! i)
      + div_ceil (length symbols) (counts ! i) * length (filter (\<lambda>s. \<not> is_global s) (group_streams ?g))
      \<le> stream_limit c ?g + length (filter (\<lambda>s. \<not> is_global s) (group_streams ?g)) + 1"
    by (simp add: stream_limit_def)
  with shard_bound [OF assms(4) pos assms(5)] show ?thesis by linarith
qed

theorem planned_shards_near_limit_witness:
  "\<exists>counts shs. connection_counts default_config 2 = Some counts
    \<and> shards [''BTCUSDT'', ''ETHUSDT''] (group_streams (stream_groups default_config ! 0)) (counts ! 0) = Some shs
    \<and> length (shs ! 0) \<le> 1032"
proof -
  let ?symbols = "[''BTCUSDT'', ''ETHUSDT'']"
  have valid: "validate_config default_config ?symbols = Inr ()" by (rule default_config_valid) simp
  obtain counts where some: "connection_counts default_config 2 = Some counts"
      "list_all2 (\<lambda>g n. required_connection_count default_config 2 g \<le> n \<and> n \<le> 2)
        (stream_groups default_config) counts"
      "sum_list counts = min (max (cfg_ws_connections default_config)
         (sum_list (map (required_connection_count default_config 2) (stream_groups default_config))))
         (length (stream_groups default_config) * 2)"
    using connection_counts_spec [OF validated(3) [OF valid]] by blast
  moreover have "4 \<le> cfg_ws_connections default_config" by (simp add: default_config_def)
  ultimately have "counts = [2]" by (auto simp: default_groups list_all2_Cons1)
  with some(1) have counts: "connection_counts default_config (length ?symbols) = Some [2]"
    by (simp add: numeral_2_eq_2)
  have groups: "0 < length (stream_groups default_config)" by (simp add: default_groups)
  obtain shs where shs: "shards ?symbols (group_streams (stream_groups default_config ! 0)) ([2] ! 0) = Some shs"
    by (simp add: shards_eq)
  have "length shs = 2" using shs by (auto simp: shards_eq)
  then have mem: "shs ! 0 \<in> set shs" by simp
  have needed: "div_ceil (length ?symbols * length (filter (\<lambda>s. \<not> is_global s) (group_streams (stream_groups default_config ! 0)))
           + length (filter is_global (group_streams (stream_groups default_config ! 0))))
         (stream_limit default_config (stream_groups default_config ! 0)) \<le> length ?symbols"
    by (simp add: default_groups default_group_streams div_ceil_def)
  have "length (shs ! 0) \<le> 1032"
    using planned_shards_near_limit [OF valid counts groups shs mem needed]
    by (simp add: default_groups default_group_streams)
  moreover have "connection_counts default_config 2 = Some [2]" using some(1) \<open>counts = [2]\<close> by simp
  ultimately show ?thesis using shs by (intro exI [of _ "[2]"] exI [of _ shs]) simp
qed

lemma default_counts: "connection_counts default_config 1169 = Some [8]"
proof -
  have "required_connection_count default_config 1169 default_spot_group = 8"
    by (simp add: required_connection_count_def comp_def default_config_simps(1) default_group_streams
        div_ceil_def)
  then show ?thesis by (simp add: connection_counts_def default_groups default_config_simps(4))
qed

text \<open>
  C36. The slack is real: with the default configuration and any 1169 symbols the code plans 8
  connections, whose first subscribes to 1030 streams, more than the 1024 that its limit names,
  because the symbols are not spread evenly.
\<close>

theorem default_shard_exceeds_limit:
  assumes "length symbols = 1169"
  shows "\<exists>g shs. stream_groups default_config = [g]
    \<and> connection_counts default_config (length symbols) = Some [8]
    \<and> shards symbols (group_streams g) 8 = Some shs
    \<and> stream_limit default_config g = 1024 \<and> length (shs ! 0) = 1030"
proof -
  let ?g = default_spot_group
  obtain shs where shs: "shards symbols (group_streams ?g) 8 = Some shs"
    using shards_eq [of 8 symbols "group_streams ?g"] by (metis zero_less_numeral)
  have "length (shs ! 0) = 1030"
    using shard_length [OF shs, of 0] unfolding assms by (simp add: default_group_streams)
  then show ?thesis
    using shs default_groups default_counts default_group_streams assms
    by (intro exI [of _ ?g] exI [of _ shs]) simp
qed

theorem default_shard_exceeds_limit_witness:
  "\<exists>shs. connection_counts default_config 1169 = Some [8]
    \<and> shards (map show_nat [0..<1169]) (group_streams default_spot_group) 8 = Some shs
    \<and> length (shs ! 0) = 1030"
proof -
  have n: "length (map show_nat [0..<1169]) = 1169" by (simp only: length_map length_upt)
  show ?thesis
    using default_shard_exceeds_limit [OF n] unfolding n default_groups by blast
qed

end
