(* ===== verification/Symbol_Universe.thy ===== *)
theory Symbol_Universe
  imports Config Http "HOL-Library.Monad_Syntax"
begin

section \<open>The symbols of a market\<close>

text \<open>
  \<open>resolve_symbols\<close> of \<open>src/config.rs\<close>: the configured symbols, or for \<open>ALL\<close> the tradable
  instruments the exchange lists. The request is repeated until it succeeds; the loop returns
  \<open>None\<close> in the model when no attempt ever succeeds. Next to the value it returns how long it
  has slept, in seconds.
\<close>

definition fetch_json :: "'r http_client \<Rightarrow> nat \<Rightarrow> string \<Rightarrow> json result" where
  "fetch_json http moment url =
     result_bind (http_send http moment url []) (\<lambda>r.
       result_bind (error_for_status http r) (http_json http))"

definition next_delay :: "nat \<Rightarrow> nat" where
  "next_delay delay = min (delay * 2) 30"

partial_function (option) fetch_instruments ::
  "(nat \<Rightarrow> json result) \<Rightarrow> nat \<Rightarrow> nat \<Rightarrow> nat \<Rightarrow> (json \<times> nat) option" where
  "fetch_instruments fetch attempt delay slept =
     (case fetch attempt of
        Inr v \<Rightarrow> Some (v, slept)
      | Inl _ \<Rightarrow> fetch_instruments fetch (Suc attempt) (next_delay delay) (slept + delay))"

declare fetch_instruments.simps [code]

definition instrument_list :: "config \<Rightarrow> json \<Rightarrow> json option" where
  "instrument_list c response =
     (case cfg_exchange c of
        Binance \<Rightarrow> json_get response ''symbols''
      | Okx \<Rightarrow> json_get response ''data''
      | Bybit \<Rightarrow> json_pointer response [''result'', ''list''])"

definition is_tradable :: "config \<Rightarrow> json \<Rightarrow> bool" where
  "is_tradable c item =
     (case cfg_exchange c of
        Binance \<Rightarrow>
          (case cfg_market c of
             Spot \<Rightarrow> get_str item ''status'' = Some ''TRADING'' \<and>
                 Option.bind (json_get item ''isSpotTradingAllowed'') as_bool = Some True
           | _ \<Rightarrow> Option.bind (option_or (json_get item ''status'') (json_get item ''contractStatus'')) as_str
                 = Some ''TRADING'')
      | Okx \<Rightarrow> get_str item ''state'' = Some ''live''
      | Bybit \<Rightarrow> get_str item ''status'' = Some ''Trading'')"

definition symbol_of :: "config \<Rightarrow> json \<Rightarrow> json option" where
  "symbol_of c item =
     (case cfg_exchange c of Okx \<Rightarrow> json_get item ''instId'' | _ \<Rightarrow> json_get item ''symbol'')"

definition tradable_symbols :: "config \<Rightarrow> json \<Rightarrow> string list" where
  "tradable_symbols c response =
     (let items = (case Option.bind (instrument_list c response) as_array of None \<Rightarrow> [] | Some xs \<Rightarrow> xs);
          symbols = List.map_filter as_str (List.map_filter (symbol_of c) (filter (is_tradable c) items))
      in remdups_adj (sort symbols))"

definition resolve_symbols :: "config \<Rightarrow> 'r http_client \<Rightarrow> (string list result \<times> nat) option" where
  "resolve_symbols c http =
     (let configured = config_symbols c in
      if configured \<noteq> [''ALL''] then Some (Inr configured, 0)
      else do {
        (response, slept) \<leftarrow> fetch_instruments (\<lambda>moment. fetch_json http moment (instrument_url c)) 0 1 0;
        let symbols = tradable_symbols c response;
        Some (if symbols = [] then Inl ''exchangeInfo returned no tradable spot symbols''
              else Inr symbols, slept)
      })"

subsection \<open>The fetch loop\<close>

text \<open>The pause before attempt \<open>n + 1\<close>.\<close>

fun delay_after :: "nat \<Rightarrow> nat" where
  "delay_after 0 = 1"
| "delay_after (Suc n) = next_delay (delay_after n)"

lemma delay_after_eq: "delay_after n = min (2 ^ n) 30"
  by (induction n) (auto simp: next_delay_def min_def)

lemma fetch_instruments_first:
  assumes "\<forall>j<n. \<exists>e. fetch (i + j) = Inl e" and "fetch (i + n) = Inr v"
  shows "fetch_instruments fetch i (delay_after i) slept =
    Some (v, slept + sum_list (map delay_after [i..<i + n]))"
  using assms
proof (induction n arbitrary: i slept)
  case 0
  then show ?case by (subst fetch_instruments.simps) simp
next
  case (Suc n)
  from Suc.prems(1) obtain e where e: "fetch i = Inl e" by force
  have shifted: "\<forall>j<n. \<exists>e. fetch (Suc i + j) = Inl e"
  proof (intro allI impI)
    fix j assume "j < n"
    then have "Suc j < Suc n" by simp
    with Suc.prems(1) have "\<exists>e. fetch (i + Suc j) = Inl e" by blast
    then show "\<exists>e. fetch (Suc i + j) = Inl e" by simp
  qed
  have "fetch_instruments fetch (Suc i) (delay_after (Suc i)) (slept + delay_after i) =
      Some (v, slept + delay_after i + sum_list (map delay_after [Suc i..<Suc i + n]))"
    using Suc.IH [OF shifted] Suc.prems(2) by simp
  moreover have "[i..<i + Suc n] = i # [Suc i..<Suc i + n]" by (simp add: upt_conv_Cons)
  ultimately show ?case using e by (subst fetch_instruments.simps) simp
qed

lemma sum_delays_le: "sum_list (map delay_after ns) \<le> 30 * length ns"
  by (induction ns) (auto simp: delay_after_eq)

lemma first_success:
  fixes n :: nat
  assumes "fetch n = Inr v"
  obtains m w where "m \<le> n" and "\<forall>j<m. \<exists>e. fetch j = Inl e" and "fetch m = Inr w"
proof -
  define m where "m = (LEAST m. \<exists>w. fetch m = Inr w)"
  have "\<exists>w. fetch m = Inr w" unfolding m_def by (rule LeastI [of _ n]) (use assms in blast)
  moreover have "m \<le> n" unfolding m_def by (rule Least_le) (use assms in blast)
  moreover have "\<exists>e. fetch j = Inl e" if "j < m" for j
    using not_less_Least [OF that [unfolded m_def]] by (cases "fetch j") auto
  ultimately show thesis using that by blast
qed

lemma mem_map_filter: "y \<in> set (List.map_filter f xs) \<longleftrightarrow> (\<exists>x\<in>set xs. f x = Some y)"
  by (induction xs) (auto split: option.splits)

lemma tradable_symbols_set:
  "set (tradable_symbols c response) =
     {s. \<exists>items item. Option.bind (instrument_list c response) as_array = Some items
        \<and> item \<in> set items \<and> is_tradable c item \<and> symbol_of c item = Some (JString s)}"
proof -
  have str: "as_str x = Some s \<longleftrightarrow> x = JString s" for x s by (cases x) auto
  show ?thesis
  proof (cases "Option.bind (instrument_list c response) as_array")
    case (Some items)
    then show ?thesis by (auto simp: tradable_symbols_def Let_def mem_map_filter str)
  qed (simp add: tradable_symbols_def)
qed

lemma distinct_dedup_sorted: "sorted xs \<Longrightarrow> distinct (remdups_adj xs)"
  by (induction xs rule: remdups_adj.induct) (auto simp: less_le_not_le)

text \<open>
  C34. Resolving the symbols of a market returns as soon as an attempt succeeds, after pauses of
  at most 30 seconds each; for the pseudo symbol \<open>ALL\<close> the result is the ascending list, without
  repetition, of exactly the instruments that the answer marks as tradable, and an error when
  there is none.
\<close>

theorem resolve_symbols_returns:
  assumes "config_symbols c = [''ALL'']"
    and "fetch_json http n (instrument_url c) = Inr v"
  shows "\<exists>m slept response r. resolve_symbols c http = Some (r, slept)
    \<and> m \<le> n \<and> slept \<le> 30 * m
    \<and> fetch_json http m (instrument_url c) = Inr response
    \<and> (\<forall>symbols. r = Inr symbols \<longrightarrow> sorted symbols \<and> distinct symbols \<and> symbols \<noteq> []
         \<and> set symbols = {s. \<exists>items item. Option.bind (instrument_list c response) as_array = Some items
              \<and> item \<in> set items \<and> is_tradable c item \<and> symbol_of c item = Some (JString s)})
    \<and> (is_ok r \<longleftrightarrow> tradable_symbols c response \<noteq> [])"
proof -
  let ?fetch = "\<lambda>moment. fetch_json http moment (instrument_url c)"
  obtain m response where m: "m \<le> n" "\<forall>j<m. \<exists>e. ?fetch j = Inl e" "?fetch m = Inr response"
    using first_success [of ?fetch n v] assms(2) by blast
  let ?slept = "sum_list (map delay_after [0..<m])"
  have loop: "fetch_instruments ?fetch 0 1 0 = Some (response, ?slept)"
    using fetch_instruments_first [of m ?fetch 0 response 0] m(2,3) by simp
  let ?r = "if tradable_symbols c response = []
      then Inl ''exchangeInfo returned no tradable spot symbols'' else Inr (tradable_symbols c response)"
  have "resolve_symbols c http = Some (?r, ?slept)"
    by (simp add: resolve_symbols_def assms(1) loop [simplified] Let_def)
  moreover have "?slept \<le> 30 * m" using sum_delays_le [of "[0..<m]"] by simp
  moreover have "sorted (tradable_symbols c response)" "distinct (tradable_symbols c response)"
    by (simp_all add: tradable_symbols_def Let_def distinct_dedup_sorted)
  ultimately show ?thesis
    using m(1,3) tradable_symbols_set [of c response]
    by (intro exI [of _ m] exI [of _ ?slept] exI [of _ response] exI [of _ ?r]) auto
qed

definition two_symbols :: json where
  "two_symbols = JObject [(''symbols'', JArray
     [JObject [(''symbol'', JString ''ETHUSDT''), (''status'', JString ''TRADING''),
               (''isSpotTradingAllowed'', JBool True)],
      JObject [(''symbol'', JString ''LUNAUSDT''), (''status'', JString ''BREAK''),
               (''isSpotTradingAllowed'', JBool True)],
      JObject [(''symbol'', JString ''BTCUSDT''), (''status'', JString ''TRADING''),
               (''isSpotTradingAllowed'', JBool True)]])]"

text \<open>An exchange that is offline at the first attempt.\<close>

definition late_exchange :: "unit http_client" where
  "late_exchange = \<lparr>http_send = (\<lambda>moment _ _. if moment = 0 then Inl ''offline'' else Inr ()),
     http_status = (\<lambda>_. 200), http_headers = (\<lambda>_. []), http_json = (\<lambda>_. Inr two_symbols)\<rparr>"

theorem resolve_symbols_returns_witness:
  "\<exists>slept. resolve_symbols default_config late_exchange = Some (Inr [''BTCUSDT'', ''ETHUSDT''], slept)
     \<and> slept \<le> 30"
proof -
  have all: "config_symbols default_config = [''ALL'']"
    unfolding config_symbols_def default_config_def config.simps by code_simp
  have fetched: "fetch_json late_exchange m url = (if m = 0 then Inl ''offline'' else Inr two_symbols)"
    for m url by (simp add: fetch_json_def late_exchange_def error_for_status_def)
  have exchange: "cfg_exchange default_config = Binance" "cfg_market default_config = Spot"
    by (simp_all add: default_config_def)
  have symbols: "tradable_symbols default_config two_symbols = [''BTCUSDT'', ''ETHUSDT'']"
    unfolding tradable_symbols_def instrument_list_def is_tradable_def symbol_of_def exchange
    by code_simp
  from fetched have "fetch_json late_exchange 1 (instrument_url default_config) = Inr two_symbols" by simp
  from resolve_symbols_returns [OF all this] obtain m slept response r where
    r: "resolve_symbols default_config late_exchange = Some (r, slept)" "m \<le> 1" "slept \<le> 30 * m"
      "fetch_json late_exchange m (instrument_url default_config) = Inr response"
    by blast
  then have "response = two_symbols" by (auto simp: fetched split: if_splits)
  moreover have "r = Inr [''BTCUSDT'', ''ETHUSDT'']"
    using r(1) all fetched symbols
    by (auto simp: resolve_symbols_def fetch_instruments.simps [of _ 0]
        fetch_instruments.simps [of _ "Suc 0"] Let_def)
  ultimately show ?thesis using r by auto
qed

end
