(* ===== verification/Main_Program.thy ===== *)
theory Main_Program
  imports Connections Symbol_Universe Writer_System
begin

section \<open>Starting the program\<close>

text \<open>
  \<open>src/main.rs\<close>: the writer with the configured sizes, and for each dataset what is started:
  the poller, the snapshots and one task per connection. The tasks themselves are in
  \<open>Futures_Poll\<close>, \<open>Snapshot\<close> and \<open>Collector\<close>.
\<close>

text \<open>The settings that \<open>main\<close> gives to the writer; durations in nanoseconds.\<close>

definition writer_options :: "config \<Rightarrow> nat \<times> nat \<Rightarrow> worker_options" where
  "writer_options c sizes =
     \<lparr>opt_buffer_bytes = saturating_mul (fst sizes) (1024 * 1024),
      opt_segment_bytes = saturating_mul (snd sizes) (1024 * 1024),
      opt_flush_interval = int (flush_interval c) * 1000000000\<rparr>"

record shard_task =
  tk_id :: nat
  tk_group :: string
  tk_url :: string
  tk_streams :: "string list"

record dataset_plan =
  dp_poller :: bool
  dp_snapshots :: bool
  dp_shards :: "shard_task list"

text \<open>\<open>None\<close> is a panic: a group without connections, or a division by zero.\<close>

fun plan_groups ::
  "string list \<Rightarrow> (stream_group \<times> nat) list \<Rightarrow> nat \<Rightarrow> shard_task list option" where
  "plan_groups symbols [] next_id = Some []"
| "plan_groups symbols ((g, n) # gs) next_id =
     (case shards symbols (group_streams g) n of
        None \<Rightarrow> None
      | Some shs \<Rightarrow>
          map_option (\<lambda>tasks.
              map (\<lambda>(i, streams). \<lparr>tk_id = i, tk_group = group_name g, tk_url = group_url g,
                                   tk_streams = streams\<rparr>) (enumerate next_id shs) @ tasks)
            (plan_groups symbols gs (next_id + length shs)))"

definition plan_dataset :: "config \<Rightarrow> string list \<Rightarrow> dataset_plan result option" where
  "plan_dataset c symbols =
     (case validate_config c symbols of
        Inl e \<Rightarrow> Some (Inl e)
      | Inr _ \<Rightarrow>
          (case connection_counts c (length symbols) of
             None \<Rightarrow> None
           | Some counts \<Rightarrow>
               map_option (\<lambda>tasks. Inr
                   \<lparr>dp_poller = (cfg_exchange c = Binance \<and> cfg_market c \<noteq> Spot),
                    dp_snapshots = (cfg_exchange c = Binance \<and> cfg_snapshot_enabled c),
                    dp_shards = tasks\<rparr>)
                 (plan_groups symbols (zip (stream_groups c) counts) 0)))"

definition start_dataset :: "config \<Rightarrow> 'r http_client \<Rightarrow> dataset_plan result option" where
  "start_dataset c http =
     (case resolve_symbols c http of
        None \<Rightarrow> None
      | Some (Inl e, _) \<Rightarrow> Some (Inl e)
      | Some (Inr symbols, _) \<Rightarrow> plan_dataset c symbols)"

text \<open>\<open>main\<close> starts one dataset after the other and stops at the first error.\<close>

fun start_datasets :: "config list \<Rightarrow> (config \<Rightarrow> 'r http_client) \<Rightarrow> (string \<times> dataset_plan) list result option" where
  "start_datasets [] http = Some (Inr [])"
| "start_datasets (c # cs) http =
     (case start_dataset c (http c) of
        None \<Rightarrow> None
      | Some (Inl e) \<Rightarrow> Some (Inl e)
      | Some (Inr plan) \<Rightarrow>
          map_option (\<lambda>r. result_bind r (\<lambda>rest. Inr ((market_as_str (cfg_market c), plan) # rest)))
            (start_datasets cs http))"

subsection \<open>What is subscribed\<close>

lemma plan_groups_total:
  assumes "list_all (\<lambda>(g, n). 0 < n) gs"
  shows "\<exists>tasks. plan_groups symbols gs k = Some tasks
    \<and> map tk_id tasks = [k..<k + length tasks]
    \<and> mset (concat (map tk_streams tasks)) =
        mset (concat (map (\<lambda>(g, n). subscriptions symbols (group_streams g)) gs))
    \<and> length tasks = sum_list (map snd gs)
    \<and> (\<forall>t\<in>set tasks. \<exists>g n. (g, n) \<in> set gs \<and> tk_group t = group_name g \<and> tk_url t = group_url g)"
  using assms
proof (induction gs arbitrary: k)
  case (Cons p gs)
  obtain g n where p: "p = (g, n)" by fastforce
  have n: "0 < n" using Cons.prems p by simp
  let ?ps = "global_pushes (group_streams g) @ symbol_pushes symbols (group_streams g)"
  let ?shs = "map (\<lambda>j. map snd (filter (\<lambda>(i, _). i mod n = j) ?ps)) [0..<n]"
  have shs: "shards symbols (group_streams g) n = Some ?shs" using n by (rule shards_eq)
  have subs: "mset (concat ?shs) = mset (subscriptions symbols (group_streams g))"
    using mset_concat_residues [OF n, of ?ps] by (simp only: pushes_subscriptions)
  obtain shs where shs': "shards symbols (group_streams g) n = Some shs" "length shs = n"
      "mset (concat shs) = mset (subscriptions symbols (group_streams g))"
    using shs subs by simp
  obtain tasks where tasks: "plan_groups symbols gs (k + length shs) = Some tasks"
      "map tk_id tasks = [k + length shs..<k + length shs + length tasks]"
      "mset (concat (map tk_streams tasks)) =
        mset (concat (map (\<lambda>(g, n). subscriptions symbols (group_streams g)) gs))"
      "length tasks = sum_list (map snd gs)"
      "\<forall>t\<in>set tasks. \<exists>g n. (g, n) \<in> set gs \<and> tk_group t = group_name g \<and> tk_url t = group_url g"
    using Cons.IH Cons.prems by fastforce
  let ?new = "map (\<lambda>(i, streams). \<lparr>tk_id = i, tk_group = group_name g, tk_url = group_url g,
    tk_streams = streams\<rparr>) (enumerate k shs)"
  have new: "map tk_id ?new = [k..<k + length shs]" "map tk_streams ?new = shs" "length ?new = length shs"
    by (simp_all add: comp_def case_prod_beta flip: map_fst_enumerate)
  have "plan_groups symbols (p # gs) k = Some (?new @ tasks)"
    using shs'(1) tasks(1) by (simp add: p)
  moreover have "map tk_id (?new @ tasks) = [k..<k + length (?new @ tasks)]"
    using new tasks(2) upt_add_eq_append [of k "k + length shs" "length tasks"] by (simp add: add.assoc)
  moreover have "mset (concat (map tk_streams (?new @ tasks))) =
      mset (concat (map (\<lambda>(g, n). subscriptions symbols (group_streams g)) (p # gs)))"
    unfolding map_append new(2) using tasks(3) shs'(3) by (simp add: p)
  moreover have "\<forall>t\<in>set (?new @ tasks). \<exists>g n. (g, n) \<in> set (p # gs) \<and> tk_group t = group_name g \<and> tk_url t = group_url g"
    using tasks(5) by (auto simp: p)
  ultimately show ?case
    using tasks(4) new(3) shs'(2) by (intro exI [of _ "?new @ tasks"]) (simp add: p)
qed simp

lemma subscriptions_mset:
  "mset (subscriptions symbols streams) =
     filter_mset is_global (mset streams) +
     (\<Sum>symbol\<in>#mset symbols. image_mset (\<lambda>s. to_lowercase symbol @ ''@'' @ s)
        (filter_mset (\<lambda>s. \<not> is_global s) (mset streams)))"
  by (induction symbols) (simp_all add: subscriptions_def)

lemma subscriptions_append:
  "mset (subscriptions symbols (xs @ ys)) =
     mset (subscriptions symbols xs) + mset (subscriptions symbols ys)"
proof -
  have sum: "(\<Sum>x\<in>#M. f x + g x) = (\<Sum>x\<in>#M. f x) + (\<Sum>x\<in>#M. g x)"
    for f g :: "string \<Rightarrow> string multiset" and M
    by (induction M) (simp_all add: ac_simps)
  show ?thesis by (simp add: subscriptions_mset sum ac_simps)
qed

lemma subscriptions_concat:
  "mset (concat (map (\<lambda>g. subscriptions symbols (group_streams g)) gs)) =
     mset (subscriptions symbols (concat (map group_streams gs)))"
proof (induction gs)
  case Nil
  have "subscriptions symbols [] = []" by (simp add: subscriptions_def)
  then show ?case by simp
qed (simp add: subscriptions_append)

lemma subscriptions_cong: "mset xs = mset ys \<Longrightarrow> mset (subscriptions symbols xs) = mset (subscriptions symbols ys)"
  by (simp add: subscriptions_mset)

lemma stream_groups_partition:
  "mset (concat (map group_streams (stream_groups c))) = mset (config_streams c)"
proof -
  have nonempty: "concat (map group_streams (filter (\<lambda>g. group_streams g \<noteq> []) gs)) =
      concat (map group_streams gs)" for gs
    by (induction gs) auto
  have split: "mset (filter is_public xs) + mset (filter (\<lambda>s. \<not> is_public s) xs) = mset xs" for xs
    by (induction xs) auto
  show ?thesis
  proof (cases "cfg_ws_url c = None \<and> cfg_exchange c = Binance \<and> cfg_market c = Usdm")
    case True
    let ?gs = "[\<lparr>group_name = ''public'', group_url = ''wss://fstream.binance.com/public/stream'',
        group_streams = filter is_public (config_streams c)\<rparr>,
      \<lparr>group_name = ''market'', group_url = ''wss://fstream.binance.com/market/stream'',
        group_streams = filter (\<lambda>s. \<not> is_public s) (config_streams c)\<rparr>]"
    have "stream_groups c = filter (\<lambda>g. group_streams g \<noteq> []) ?gs"
      using True by (simp add: stream_groups_def Let_def)
    then have "concat (map group_streams (stream_groups c)) = concat (map group_streams ?gs)"
      by (simp only: nonempty)
    then show ?thesis using split [of "config_streams c"] by simp
  next
    case False
    then show ?thesis by (auto simp: stream_groups_def Let_def split: option.splits)
  qed
qed

lemma map_zip_fst:
  "length xs = length ys \<Longrightarrow> map (\<lambda>(x, y). f x) (zip xs ys) = map f xs"
  by (induction xs ys rule: list_induct2) simp_all

lemma required_positive: "0 < k \<Longrightarrow> 0 < required_connection_count c k g"
  by (simp add: required_connection_count_def Let_def)

text \<open>
  C15. A dataset that passes validation starts without a panic, and its connections together
  subscribe to exactly what is configured: each global stream once and each stream of each symbol
  once, over all groups; the tasks are numbered from 0 and are as many as the logged number of
  connections.
\<close>

theorem dataset_subscribes_everything:
  assumes "validate_config c symbols = Inr ()"
  shows "\<exists>plan. plan_dataset c symbols = Some (Inr plan)
    \<and> mset (concat (map tk_streams (dp_shards plan))) = mset (subscriptions symbols (config_streams c))
    \<and> map tk_id (dp_shards plan) = [0..<length (dp_shards plan)]
    \<and> connection_count c (length symbols) = Some (length (dp_shards plan))"
proof -
  note ok = validated [OF assms]
  obtain counts where counts: "connection_counts c (length symbols) = Some counts"
      "list_all2 (\<lambda>g n. required_connection_count c (length symbols) g \<le> n \<and> n \<le> length symbols)
        (stream_groups c) counts"
    using connection_counts_spec [OF ok(3), of "length symbols"] by blast
  let ?gs = "zip (stream_groups c) counts"
  have len: "length (stream_groups c) = length counts" using counts(2) by (rule list_all2_lengthD)
  have "0 < n" if "(g, n) \<in> set ?gs" for g n
  proof -
    have "required_connection_count c (length symbols) g \<le> n"
      using counts(2) that by (auto simp: list_all2_iff)
    moreover have "0 < length symbols" using ok(2) by simp
    ultimately show ?thesis using required_positive by (meson less_le_trans)
  qed
  then have "list_all (\<lambda>(g, n). 0 < n) ?gs" by (auto simp: list_all_iff)
  from plan_groups_total [OF this, of symbols 0] obtain tasks where
    tasks: "plan_groups symbols ?gs 0 = Some tasks" "map tk_id tasks = [0..<length tasks]"
      "mset (concat (map tk_streams tasks)) =
        mset (concat (map (\<lambda>(g, n). subscriptions symbols (group_streams g)) ?gs))"
      "length tasks = sum_list (map snd ?gs)"
    by auto
  have "map (\<lambda>(g, n). subscriptions symbols (group_streams g)) ?gs =
      map (\<lambda>g. subscriptions symbols (group_streams g)) (stream_groups c)"
    using len by (rule map_zip_fst)
  then have "mset (concat (map tk_streams tasks)) = mset (subscriptions symbols (config_streams c))"
    using tasks(3) subscriptions_concat subscriptions_cong [OF stream_groups_partition] by metis
  moreover have "connection_count c (length symbols) = Some (length tasks)"
    using counts(1) tasks(4) len by (simp add: connection_count_def)
  ultimately show ?thesis
    using assms counts(1) tasks(1,2) by (simp add: plan_dataset_def)
qed

theorem dataset_subscribes_everything_witness:
  "\<exists>plan. plan_dataset default_config [''BTCUSDT'', ''ETHUSDT''] = Some (Inr plan)
     \<and> length (concat (map tk_streams (dp_shards plan))) = 18"
proof -
  have valid: "validate_config default_config [''BTCUSDT'', ''ETHUSDT''] = Inr ()"
    by (rule default_config_valid) simp
  obtain plan where plan: "plan_dataset default_config [''BTCUSDT'', ''ETHUSDT''] = Some (Inr plan)"
      "mset (concat (map tk_streams (dp_shards plan))) =
        mset (subscriptions [''BTCUSDT'', ''ETHUSDT''] (config_streams default_config))"
    using dataset_subscribes_everything [OF valid] by blast
  have streams: "config_streams default_config = group_streams default_spot_group"
    by (simp add: default_config_simps default_streams_csv)
  have "length (subscriptions [''BTCUSDT'', ''ETHUSDT''] (config_streams default_config)) = 18"
    unfolding streams using default_group_streams(1,2) by (simp add: subscriptions_def)
  with plan show ?thesis by (metis size_mset)
qed

subsection \<open>The writer that is started\<close>

lemma buffer_sizes_bounds:
  assumes "buffer_sizes read c = Inr (b, s)"
  shows "0 < s" and "s \<le> b"
proof -
  have c: "16 \<le> clamp 16 64 x" "32 \<le> clamp 32 256 x" for x
    using clamp_bounds [of 16 64 x] clamp_bounds [of 32 256 x] by simp_all
  show "s \<le> b" using assms by (auto simp: buffer_sizes_def Let_def split: if_splits)
  show "0 < s"
  proof (cases "cfg_segment_mb c = 0")
    case True
    have "0 < clamp 16 64 x" "0 < clamp 32 256 x" for x using c [of x] by linarith+
    with True show ?thesis using assms by (auto simp: buffer_sizes_def Let_def split: if_splits)
  next
    case False
    then show ?thesis using assms by (auto simp: buffer_sizes_def Let_def split: if_splits)
  qed
qed

lemma mebibytes_positive: "0 < n \<Longrightarrow> 0 < saturating_mul n (1024 * 1024)"
  by (simp add: saturating_mul_def usize_max_def)

lemma mebibytes_mono: "m \<le> n \<Longrightarrow> saturating_mul m (1024 * 1024) \<le> saturating_mul n (1024 * 1024)"
  by (auto simp: saturating_mul_def min_le_iff_disj)

text \<open>
  With whatever sizes the configuration yields, a worker handles every batch to its end: the
  limits it runs with are positive, the segment limit does not exceed the buffer limit, and the
  batch is buffered or sent completely, leaving less than the buffer limit behind.
\<close>

lemma configured_writer_handles_records:
  assumes "buffer_sizes read c = Inr sizes"
    and "worker_ok l st" and "iteration_order order"
    and "ws_buffered st + batch_bytes l rs \<le> usize_max"
  shows "0 < opt_segment_bytes (writer_options c sizes)
    \<and> opt_segment_bytes (writer_options c sizes) \<le> opt_buffer_bytes (writer_options c sizes)
    \<and> (\<exists>st' jobs. handle_records (writer_options c sizes) l order True seen rs st = Some (st', jobs, Inr ())
        \<and> worker_ok l st' \<and> ws_buffered st' < opt_buffer_bytes (writer_options c sizes))"
proof -
  obtain b s where sizes: "sizes = (b, s)" by fastforce
  note bounds = buffer_sizes_bounds [OF assms(1) [unfolded sizes]]
  have "0 < opt_buffer_bytes (writer_options c sizes)"
    using bounds mebibytes_positive [of b] by (simp add: writer_options_def sizes)
  from handle_records_cases [OF assms(2,3) this assms(4), of seen]
  have "\<exists>st' jobs. handle_records (writer_options c sizes) l order True seen rs st = Some (st', jobs, Inr ())
      \<and> worker_ok l st' \<and> ws_buffered st' < opt_buffer_bytes (writer_options c sizes)" by blast
  moreover have "0 < opt_segment_bytes (writer_options c sizes)"
    using bounds mebibytes_positive [of s] by (simp add: writer_options_def sizes)
  moreover have "opt_segment_bytes (writer_options c sizes) \<le> opt_buffer_bytes (writer_options c sizes)"
    using mebibytes_mono [OF bounds(2)] by (simp add: writer_options_def sizes)
  ultimately show ?thesis by blast
qed

lemma configured_writer_handles_records_witness:
  "\<exists>sizes st' jobs. buffer_sizes (\<lambda>_. None) default_config = Inr sizes
     \<and> handle_records (writer_options default_config sizes) sample_layout (\<lambda>al. al) True (\<lambda>_. 0)
         [sample_record] sample_worker = Some (st', jobs, Inr ())"
proof -
  have "\<exists>sizes. buffer_sizes (\<lambda>_. None) default_config = Inr sizes"
    by (simp add: buffer_sizes_def Let_def) (simp add: default_config_def min_def)
  then obtain sizes where sizes: "buffer_sizes (\<lambda>_. None) default_config = Inr sizes" by blast
  have fits: "ws_buffered sample_worker + batch_bytes sample_layout [sample_record] \<le> usize_max"
    by (simp add: sample_worker_def sample_layout_def sample_record_def batch_bytes_def
        record_bytes_def usize_max_def)
  from configured_writer_handles_records [OF sizes sample_worker_ok iteration_order_id fits, of "\<lambda>_. 0"]
  show ?thesis using sizes by blast
qed

end
