(* ===== verification/Limiter.thy ===== *)
theory Limiter
  imports Complex_Main Config
begin

section \<open>The weighted limiter of the snapshots\<close>

text \<open>
  The token bucket of \<open>src/snapshot.rs\<close>. An instant is a number of nanoseconds and a duration a
  natural number of them; the \<open>f64\<close> values are exact rationals, so the rounding of single
  floating-point operations is left out, but not the rounding of \<open>Duration::from_secs_f64\<close> to
  nanoseconds.
\<close>

subsection \<open>Durations\<close>

text \<open>\<open>from_secs_f64\<close>: the nearest nanosecond, ties to even.\<close>

definition round_half_even :: "rat \<Rightarrow> int" where
  "round_half_even x =
     (let n = \<lfloor>x\<rfloor>; f = x - of_int n in
      if f < 1 / 2 then n else if f > 1 / 2 then n + 1 else if even n then n else n + 1)"

definition from_secs_f64 :: "rat \<Rightarrow> nat" where
  "from_secs_f64 s = nat (round_half_even (s * 1000000000))"

definition duration_since :: "int \<Rightarrow> int \<Rightarrow> nat" where
  "duration_since later earlier = nat (later - earlier)"

definition as_secs_f64 :: "nat \<Rightarrow> rat" where
  "as_secs_f64 d = of_nat d / 1000000000"

definition from_secs :: "nat \<Rightarrow> nat" where
  "from_secs s = s * 1000000000"

lemma round_half_even_close: "x - 1 / 2 \<le> of_int (round_half_even x)" "of_int (round_half_even x) \<le> x + 1 / 2"
proof -
  have f: "of_int \<lfloor>x\<rfloor> \<le> x" "x < of_int \<lfloor>x\<rfloor> + 1" by linarith+
  consider "x - of_int \<lfloor>x\<rfloor> < 1 / 2" | "x - of_int \<lfloor>x\<rfloor> > 1 / 2" | "x - of_int \<lfloor>x\<rfloor> = 1 / 2" by linarith
  then have "x - 1 / 2 \<le> of_int (round_half_even x) \<and> of_int (round_half_even x) \<le> x + 1 / 2"
  proof cases
    case 1
    then have "round_half_even x = \<lfloor>x\<rfloor>" by (simp only: round_half_even_def Let_def if_True)
    then show ?thesis using 1 f by (simp only:) linarith
  next
    case 2
    then have "\<not> x - of_int \<lfloor>x\<rfloor> < 1 / 2" by linarith
    with 2 have "round_half_even x = \<lfloor>x\<rfloor> + 1" by (simp only: round_half_even_def Let_def if_True if_False)
    then show ?thesis using 2 f by (simp only: of_int_add of_int_1) linarith
  next
    case 3
    then have "round_half_even x = (if even \<lfloor>x\<rfloor> then \<lfloor>x\<rfloor> else \<lfloor>x\<rfloor> + 1)"
      by (simp add: round_half_even_def Let_def)
    with 3 f show ?thesis by simp
  qed
  then show "x - 1 / 2 \<le> of_int (round_half_even x)" "of_int (round_half_even x) \<le> x + 1 / 2"
    by blast+
qed

lemma round_half_even_zero:
  assumes "x \<le> 1 / 2"
  shows "round_half_even x \<le> 0"
proof (cases "\<lfloor>x\<rfloor> = 0")
  case True
  then show ?thesis using assms by (simp add: round_half_even_def Let_def)
next
  case False
  moreover have "\<lfloor>x\<rfloor> \<le> 0" using assms by linarith
  ultimately have "\<lfloor>x\<rfloor> + 1 \<le> 0" by linarith
  then show ?thesis by (simp add: round_half_even_def Let_def)
qed

subsection \<open>The bucket\<close>

record limiter =
  lm_capacity :: rat
  lm_tokens :: rat
  lm_refill_per_second :: rat
  lm_last_refill :: int
  lm_paused_until :: "int option"

definition default_weight_fraction :: rat where
  "default_weight_fraction = 4 / 5"

definition limiter_new :: "nat \<Rightarrow> int \<Rightarrow> limiter" where
  "limiter_new weight_per_minute now =
     (let budget = of_nat weight_per_minute * default_weight_fraction in
      \<lparr>lm_capacity = budget, lm_tokens = budget, lm_refill_per_second = budget / 60,
       lm_last_refill = now, lm_paused_until = None\<rparr>)"

definition refill :: "int \<Rightarrow> limiter \<Rightarrow> limiter" where
  "refill now l =
     (let elapsed = as_secs_f64 (duration_since now (lm_last_refill l)) in
      l\<lparr>lm_tokens := min (lm_tokens l + elapsed * lm_refill_per_second l) (lm_capacity l),
        lm_last_refill := now\<rparr>)"

definition take_tokens :: "nat \<Rightarrow> limiter \<Rightarrow> limiter \<times> nat" where
  "take_tokens weight l =
     (let needed = of_nat weight - lm_tokens l in
      if needed \<le> 0 then (l\<lparr>lm_tokens := lm_tokens l - of_nat weight\<rparr>, 0)
      else (l, from_secs_f64 (needed / lm_refill_per_second l)))"

definition wait_for :: "int \<Rightarrow> nat \<Rightarrow> limiter \<Rightarrow> limiter \<times> nat" where
  "wait_for now weight l =
     (let l = refill now l in
      case lm_paused_until l of
        Some until \<Rightarrow>
          if until > now then (l, duration_since until now)
          else take_tokens weight (l\<lparr>lm_paused_until := None\<rparr>)
      | None \<Rightarrow> take_tokens weight l)"

definition pause :: "int \<Rightarrow> nat \<Rightarrow> limiter \<Rightarrow> limiter" where
  "pause now d l = l\<lparr>lm_paused_until := Some (now + int d)\<rparr>"

definition observe_used_weight :: "nat \<Rightarrow> limiter \<Rightarrow> limiter" where
  "observe_used_weight used l =
     l\<lparr>lm_tokens := min (lm_tokens l) (max (lm_capacity l - of_nat used) 0)\<rparr>"

subsection \<open>Weights\<close>

definition weight_limit :: "market \<Rightarrow> nat" where
  "weight_limit m = (case m of Spot \<Rightarrow> 6000 | _ \<Rightarrow> 2400)"

definition request_weight_for :: "market \<Rightarrow> nat \<Rightarrow> nat" where
  "request_weight_for m limit =
     (case m of
        Spot \<Rightarrow>
          if 1 \<le> limit \<and> limit \<le> 100 then 5
          else if 101 \<le> limit \<and> limit \<le> 500 then 25
          else if 501 \<le> limit \<and> limit \<le> 1000 then 50
          else 250
      | _ \<Rightarrow>
          if limit \<le> 50 then 2
          else if 51 \<le> limit \<and> limit \<le> 100 then 5
          else if 101 \<le> limit \<and> limit \<le> 500 then 10
          else 20)"

subsection \<open>The invariant\<close>

definition limiter_ok :: "market \<Rightarrow> limiter \<Rightarrow> bool" where
  "limiter_ok m l \<longleftrightarrow> lm_capacity l = of_nat (weight_limit m) * default_weight_fraction
     \<and> lm_refill_per_second l = lm_capacity l / 60 \<and> 0 \<le> lm_tokens l \<and> lm_tokens l \<le> lm_capacity l"

lemma limiter_positive:
  assumes "limiter_ok m l"
  shows "0 < lm_refill_per_second l" and "of_nat (request_weight_for m limit) \<le> lm_capacity l"
  using assms
  by (cases m; auto simp: limiter_ok_def weight_limit_def default_weight_fraction_def request_weight_for_def)+

lemma limiter_new_ok: "limiter_ok m (limiter_new (weight_limit m) now)"
  by (cases m) (simp_all add: limiter_ok_def limiter_new_def Let_def weight_limit_def default_weight_fraction_def)

lemma as_secs_nonneg [simp]: "0 \<le> as_secs_f64 d"
  by (simp add: as_secs_f64_def)

lemma refill_ok:
  assumes "limiter_ok m l"
  shows "limiter_ok m (refill now l)" and "lm_tokens l \<le> lm_tokens (refill now l)"
  using assms limiter_positive(1) [OF assms]
  by (auto simp: refill_def Let_def limiter_ok_def)

lemma take_tokens_ok:
  assumes "limiter_ok m l" and "take_tokens weight l = (l', d)"
  shows "limiter_ok m l'"
  using assms by (auto simp: take_tokens_def Let_def limiter_ok_def split: if_splits)

lemma paused_ok [simp]:
  "limiter_ok m (l\<lparr>lm_paused_until := x\<rparr>) \<longleftrightarrow> limiter_ok m l"
  by (simp add: limiter_ok_def)

lemma wait_for_ok:
  assumes "limiter_ok m l" and "wait_for now weight l = (l', d)"
  shows "limiter_ok m l'"
proof -
  have "limiter_ok m (refill now l)" using assms(1) by (rule refill_ok)
  then show ?thesis
    using assms(2) take_tokens_ok [of m "refill now l" weight l' d]
      take_tokens_ok [of m "(refill now l)\<lparr>lm_paused_until := None\<rparr>" weight l' d]
    by (auto simp: wait_for_def Let_def split: option.splits if_splits)
qed

lemma observe_used_weight_ok: "limiter_ok m l \<Longrightarrow> limiter_ok m (observe_used_weight used l)"
  by (auto simp: limiter_ok_def observe_used_weight_def)

subsection \<open>Waiting is enough\<close>

lemma take_tokens_granted:
  assumes "0 < lm_refill_per_second l"
    and "of_nat weight - lm_tokens l \<le> lm_refill_per_second l / 2000000000"
  shows "snd (take_tokens weight l) = 0"
proof (cases "of_nat weight - lm_tokens l \<le> 0")
  case False
  have "(of_nat weight - lm_tokens l) / lm_refill_per_second l * 1000000000 \<le> 1 / 2"
    using assms by (simp add: field_simps)
  from round_half_even_zero [OF this] False show ?thesis
    by (simp add: take_tokens_def Let_def from_secs_f64_def)
qed (simp add: take_tokens_def Let_def)

definition paused_at :: "int \<Rightarrow> limiter \<Rightarrow> bool" where
  "paused_at now l \<longleftrightarrow> (case lm_paused_until l of None \<Rightarrow> False | Some until \<Rightarrow> now < until)"

lemma wait_for_paused:
  "paused_at now l \<Longrightarrow>
   wait_for now w l = (refill now l, duration_since (the (lm_paused_until l)) now)"
  by (auto simp: paused_at_def wait_for_def refill_def Let_def split: option.splits)

lemma wait_for_unpaused:
  "\<not> paused_at now l \<Longrightarrow> wait_for now w l = take_tokens w ((refill now l)\<lparr>lm_paused_until := None\<rparr>)"
  by (cases l; cases "lm_paused_until l") (auto simp: paused_at_def wait_for_def refill_def Let_def)

lemma token_wait_is_enough:
  assumes "limiter_ok m l" and unpaused: "\<not> paused_at now l"
    and "wait_for now (request_weight_for m limit) l = (l', d)"
    and "0 < d" and "now + int d \<le> now'"
  shows "snd (wait_for now' (request_weight_for m limit) l') = 0"
proof -
  have d0: "d \<noteq> 0" using assms(4) by simp
  let ?w = "request_weight_for m limit" and ?r = "lm_refill_per_second l" and ?t = "lm_tokens (refill now l)"
  have ok: "limiter_ok m (refill now l)" using assms(1) by (rule refill_ok)
  have pos: "0 < ?r" and cap: "of_nat ?w \<le> lm_capacity l" using limiter_positive [OF assms(1)] by simp_all
  have same: "lm_refill_per_second (refill now l) = ?r" "lm_capacity (refill now l) = lm_capacity l"
      "lm_last_refill (refill now l) = now"
    by (simp_all add: refill_def Let_def)
  have take: "take_tokens ?w ((refill now l)\<lparr>lm_paused_until := None\<rparr>) = (l', d)"
    using assms(3) wait_for_unpaused [OF unpaused] by simp
  then have l': "l' = (refill now l)\<lparr>lm_paused_until := None\<rparr>" and d: "d = from_secs_f64 ((of_nat ?w - ?t) / ?r)"
    using d0 by (auto simp: take_tokens_def Let_def same split: if_splits)
  let ?x = "(of_nat ?w - ?t) / ?r * 1000000000"
  have "?x - 1 / 2 \<le> of_nat d"
  proof -
    have "?x - 1 / 2 \<le> of_int (round_half_even ?x)" by (rule round_half_even_close)
    also have "\<dots> \<le> of_int (int d)"
      unfolding d from_secs_f64_def by (simp only: of_int_le_iff)
    finally show ?thesis by simp
  qed
  then have "of_nat ?w - ?t \<le> (of_nat d + 1 / 2) / 1000000000 * ?r"
    using pos by (simp add: field_simps)
  moreover have "of_nat d \<le> (of_nat (duration_since now' now) :: rat)"
    using assms(5) by (simp add: duration_since_def)
  then have "(of_nat d + 1 / 2) / 1000000000 * ?r \<le> (of_nat (duration_since now' now) + 1 / 2) / 1000000000 * ?r"
    using pos by (intro mult_right_mono divide_right_mono) simp_all
  ultimately have need: "of_nat ?w - (?t + as_secs_f64 (duration_since now' now) * ?r) \<le> ?r / 2000000000"
    by (simp add: as_secs_f64_def field_simps)
  let ?l = "refill now' l'"
  have tokens: "lm_tokens ?l = min (?t + as_secs_f64 (duration_since now' now) * ?r) (lm_capacity l)"
    by (simp add: l' refill_def Let_def)
  have "snd (take_tokens ?w ?l) = 0"
  proof (rule take_tokens_granted)
    show "0 < lm_refill_per_second ?l" using pos by (simp add: l' refill_def Let_def)
    show "of_nat ?w - lm_tokens ?l \<le> lm_refill_per_second ?l / 2000000000"
      using need cap pos unfolding tokens by (auto simp: l' refill_def Let_def min_def)
  qed
  moreover have "lm_paused_until ?l = None" by (simp add: l' refill_def Let_def)
  ultimately show ?thesis by (simp add: wait_for_def Let_def)
qed

text \<open>
  C38. The waits that the limiter announces are enough, if nothing else is asked in between. A
  request that is turned away for lack of tokens is granted when it is asked again after the
  announced wait. One that is turned away because of a pause is granted then, or is turned away
  once more for lack of tokens and granted after that wait. No request is ever too heavy for its
  market's budget.
\<close>

theorem announced_wait_is_enough:
  assumes "limiter_ok m l"
    and "wait_for now (request_weight_for m limit) l = (l1, d)" and "0 < d" and "now + int d \<le> now1"
    and "wait_for now1 (request_weight_for m limit) l1 = (l2, d1)"
  shows "(\<not> paused_at now l \<longrightarrow> d1 = 0)
    \<and> (\<forall>now2. d1 \<noteq> 0 \<longrightarrow> now1 + int d1 \<le> now2 \<longrightarrow>
         snd (wait_for now2 (request_weight_for m limit) l2) = 0)"
proof (cases "paused_at now l")
  case False
  then have "d1 = 0" using token_wait_is_enough [OF assms(1) False assms(2-4)] assms(5) by simp
  then show ?thesis by simp
next
  case True
  have l1: "l1 = refill now l" and d: "d = duration_since (the (lm_paused_until l)) now"
    using assms(2) wait_for_paused [OF True] by simp_all
  have "\<not> paused_at now1 l1"
    using True assms(3,4) by (auto simp: paused_at_def l1 d refill_def Let_def duration_since_def split: option.splits)
  moreover have "limiter_ok m l1" using assms(1) unfolding l1 by (rule refill_ok)
  ultimately have "snd (wait_for now2 (request_weight_for m limit) l2) = 0"
    if "d1 \<noteq> 0" "now1 + int d1 \<le> now2" for now2
    using token_wait_is_enough [of m l1 now1 limit l2 d1 now2] assms(5) that by simp
  with True show ?thesis by blast
qed

definition drained_limiter :: limiter where
  "drained_limiter = (limiter_new 6000 0)\<lparr>lm_tokens := 0\<rparr>"

lemma drained_limiter_simps:
  "lm_capacity drained_limiter = 4800" "lm_tokens drained_limiter = 0"
  "lm_refill_per_second drained_limiter = 80" "lm_last_refill drained_limiter = 0"
  "lm_paused_until drained_limiter = None"
  by (simp_all add: drained_limiter_def limiter_new_def Let_def default_weight_fraction_def)

theorem announced_wait_is_enough_witness:
  "\<exists>l1 l2. wait_for 0 (request_weight_for Spot 500) (pause 0 100000000 drained_limiter) = (l1, 100000000)
     \<and> wait_for 100000000 (request_weight_for Spot 500) l1 = (l2, 212500000)
     \<and> snd (wait_for 312500000 (request_weight_for Spot 500) l2) = 0"
proof -
  let ?w = "request_weight_for Spot 500"
  let ?l = "pause 0 100000000 drained_limiter"
  have simps: "lm_capacity ?l = 4800" "lm_tokens ?l = 0" "lm_refill_per_second ?l = 80" "lm_last_refill ?l = 0"
      "lm_paused_until ?l = Some 100000000"
    by (simp_all add: pause_def drained_limiter_simps)
  have first: "wait_for 0 ?w ?l = (refill 0 ?l, 100000000)"
    by (simp add: wait_for_def refill_def Let_def simps duration_since_def)
  obtain l2 where second: "wait_for 100000000 ?w (refill 0 ?l) = (l2, 212500000)"
    by (simp add: wait_for_def take_tokens_def refill_def Let_def simps request_weight_for_def
        from_secs_f64_def round_half_even_def duration_since_def as_secs_f64_def)
  have ok: "limiter_ok Spot ?l"
    by (simp add: limiter_ok_def simps weight_limit_def default_weight_fraction_def)
  have "snd (wait_for 312500000 ?w l2) = 0"
    using announced_wait_is_enough [OF ok first _ _ second] by simp
  with first second show ?thesis by blast
qed

subsection \<open>The rate\<close>

text \<open>What is done to a limiter: requests at an instant, pauses, and reports of used weight.\<close>

datatype limiter_event = Request int nat | Pause int nat | Used nat

fun event_time :: "int \<Rightarrow> limiter_event \<Rightarrow> int" where
  "event_time t (Request now w) = now"
| "event_time t (Pause now d) = t"
| "event_time t (Used u) = t"

text \<open>
  The tokens that requests take. A request that is let through because its wait rounds to zero
  nanoseconds takes none.
\<close>

fun spent :: "limiter_event list \<Rightarrow> limiter \<Rightarrow> rat" where
  "spent [] l = 0"
| "spent (Request now w # es) l =
     (let l' = fst (wait_for now w l) in
      (lm_tokens (refill now l) - lm_tokens l') + spent es l')"
| "spent (Pause now d # es) l = spent es (pause now d l)"
| "spent (Used u # es) l = spent es (observe_used_weight u l)"

fun in_order :: "int \<Rightarrow> limiter_event list \<Rightarrow> bool" where
  "in_order t [] = True"
| "in_order t (e # es) = (t \<le> event_time t e \<and> in_order (event_time t e) es)"

fun end_time :: "int \<Rightarrow> limiter_event list \<Rightarrow> int" where
  "end_time t [] = t"
| "end_time t (e # es) = end_time (event_time t e) es"

lemma end_time_le: "in_order t es \<Longrightarrow> t \<le> end_time t es"
  by (induction es arbitrary: t) (auto intro: order_trans)

lemma refill_le:
  assumes "0 \<le> lm_refill_per_second l" and "lm_last_refill l \<le> now"
  shows "lm_tokens (refill now l) \<le> lm_tokens l + lm_refill_per_second l * of_int (now - lm_last_refill l) / 1000000000"
  using assms by (simp add: refill_def Let_def as_secs_f64_def duration_since_def min_le_iff_disj algebra_simps)

lemma wait_for_frame:
  "lm_refill_per_second (fst (wait_for now w l)) = lm_refill_per_second l"
  "lm_last_refill (fst (wait_for now w l)) = now"
  by (auto simp: wait_for_def take_tokens_def refill_def Let_def split: option.splits)

lemma spent_bound:
  assumes "limiter_ok m l" and "in_order (lm_last_refill l) es"
  shows "spent es l \<le> lm_tokens l + lm_refill_per_second l *
    of_int (end_time (lm_last_refill l) es - lm_last_refill l) / 1000000000"
  using assms
proof (induction es arbitrary: l)
  case Nil
  then show ?case by (simp add: limiter_ok_def)
next
  case (Cons e es)
  have pos: "0 \<le> lm_refill_per_second l" using limiter_positive(1) [OF Cons.prems(1)] by simp
  show ?case
  proof (cases e)
    case (Request now w)
    let ?l = "fst (wait_for now w l)"
    have ok: "limiter_ok m ?l" using wait_for_ok [OF Cons.prems(1), of now w] by (cases "wait_for now w l") simp
    have order: "lm_last_refill l \<le> now" "in_order now es" using Cons.prems(2) Request by simp_all
    have "spent es ?l \<le> lm_tokens ?l + lm_refill_per_second l * of_int (end_time now es - now) / 1000000000"
      using Cons.IH [OF ok] order(2) by (simp add: wait_for_frame)
    moreover have "lm_tokens (refill now l) \<le>
        lm_tokens l + lm_refill_per_second l * of_int (now - lm_last_refill l) / 1000000000"
      using pos order(1) by (rule refill_le)
    ultimately have "spent (e # es) l \<le> lm_tokens l
        + lm_refill_per_second l * of_int (now - lm_last_refill l) / 1000000000
        + lm_refill_per_second l * of_int (end_time now es - now) / 1000000000"
      by (simp add: Request Let_def)
    moreover have "(of_int (end_time now es - lm_last_refill l) :: rat) =
        of_int (now - lm_last_refill l) + of_int (end_time now es - now)" by simp
    ultimately show ?thesis
      unfolding Request end_time.simps event_time.simps
      by (simp only: distrib_left add_divide_distrib add.assoc)
  next
    case (Pause now d)
    have ok: "limiter_ok m (pause now d l)" using Cons.prems(1) by (simp add: pause_def)
    show ?thesis using Cons.IH [OF ok] Cons.prems(2) by (simp add: Pause pause_def)
  next
    case (Used u)
    have ok: "limiter_ok m (observe_used_weight u l)" using Cons.prems(1) by (rule observe_used_weight_ok)
    have "lm_tokens (observe_used_weight u l) \<le> lm_tokens l" by (simp add: observe_used_weight_def)
    then show ?thesis
      using Cons.IH [OF ok] Cons.prems(2) by (simp add: Used observe_used_weight_def)
  qed
qed

text \<open>
  The weight of the requests that are granted, and of those among them that are granted although
  tokens are missing, because these would be refilled within half a nanosecond and the wait
  rounds to zero.
\<close>

fun granted :: "limiter_event list \<Rightarrow> limiter \<Rightarrow> rat" where
  "granted [] l = 0"
| "granted (Request now w # es) l =
     (case wait_for now w l of (l', d) \<Rightarrow> (if d = 0 then of_nat w else 0) + granted es l')"
| "granted (Pause now d # es) l = granted es (pause now d l)"
| "granted (Used u # es) l = granted es (observe_used_weight u l)"

definition nearly_enough :: "int \<Rightarrow> nat \<Rightarrow> limiter \<Rightarrow> bool" where
  "nearly_enough now w l \<longleftrightarrow> lm_tokens (refill now l) < of_nat w
     \<and> of_nat w - lm_tokens (refill now l) \<le> lm_refill_per_second l / 2000000000"

fun rounded :: "limiter_event list \<Rightarrow> limiter \<Rightarrow> rat" where
  "rounded [] l = 0"
| "rounded (Request now w # es) l =
     (case wait_for now w l of (l', d) \<Rightarrow>
        (if d = 0 \<and> nearly_enough now w l then of_nat w else 0) + rounded es l')"
| "rounded (Pause now d # es) l = rounded es (pause now d l)"
| "rounded (Used u # es) l = rounded es (observe_used_weight u l)"

lemma request_granted:
  assumes "0 < lm_refill_per_second l" and "wait_for now w l = (l', d)"
  shows "(if d = 0 then of_nat w else 0) =
    (lm_tokens (refill now l) - lm_tokens l') + (if d = 0 \<and> nearly_enough now w l then of_nat w else 0)"
proof (cases "paused_at now l")
  case True
  then have "l' = refill now l" "d \<noteq> 0"
    using assms(2) wait_for_paused [OF True, of w]
    by (auto simp: paused_at_def duration_since_def split: option.splits)
  then show ?thesis by simp
next
  case False
  let ?l = "refill now l"
  have take: "take_tokens w (?l\<lparr>lm_paused_until := None\<rparr>) = (l', d)"
    using assms(2) wait_for_unpaused [OF False] by simp
  have rate: "lm_refill_per_second ?l = lm_refill_per_second l" by (simp add: refill_def Let_def)
  show ?thesis
  proof (cases "of_nat w - lm_tokens ?l \<le> 0")
    case True
    then have "d = 0" "lm_tokens l' = lm_tokens ?l - of_nat w" "\<not> nearly_enough now w l"
      using take by (auto simp: take_tokens_def Let_def nearly_enough_def)
    then show ?thesis by simp
  next
    case short: False
    let ?x = "(of_nat w - lm_tokens ?l) / lm_refill_per_second l * 1000000000"
    have l': "lm_tokens l' = lm_tokens ?l" and d: "d = nat (round_half_even ?x)"
      using short take by (auto simp: take_tokens_def Let_def from_secs_f64_def rate)
    have "nearly_enough now w l" if "d = 0"
    proof -
      have "round_half_even ?x \<le> 0" using that d by simp
      then have "of_int (round_half_even ?x) \<le> (0 :: rat)" by simp
      with round_half_even_close(1) [of ?x] have "?x \<le> 1 / 2" by linarith
      then show ?thesis using short assms(1) by (simp add: nearly_enough_def field_simps)
    qed
    then show ?thesis using l' by simp
  qed
qed

lemma granted_spent:
  assumes "0 < lm_refill_per_second l"
  shows "granted es l = spent es l + rounded es l"
  using assms
proof (induction es arbitrary: l)
  case (Cons e es)
  show ?case
  proof (cases e)
    case (Request now w)
    obtain l' d where w: "wait_for now w l = (l', d)" by fastforce
    have "0 < lm_refill_per_second l'" using Cons.prems wait_for_frame(1) [of now w l] w by simp
    from Cons.IH [OF this] request_granted [OF Cons.prems w] show ?thesis
      by (simp add: Request w Let_def)
  next
    case (Pause now d)
    then show ?thesis using Cons.IH [of "pause now d l"] Cons.prems by (simp add: pause_def)
  next
    case (Used u)
    then show ?thesis using Cons.IH [of "observe_used_weight u l"] Cons.prems by (simp add: observe_used_weight_def)
  qed
qed simp

text \<open>
  C39. The limiter keeps the rate: from a fresh limiter, over any sequence of requests, pauses and
  reports in order of time, the weight granted is at most one minute's budget plus the budget of
  the time that has passed, where the budget is 80 percent of the market's limit per minute; only
  the requests that lack no more tokens than half a nanosecond refills come on top of it.
\<close>

theorem limiter_keeps_rate:
  assumes "in_order t es"
  shows "granted es (limiter_new (weight_limit m) t) \<le>
    of_nat (weight_limit m) * (4 / 5) * (1 + of_int (end_time t es - t) / 60000000000)
    + rounded es (limiter_new (weight_limit m) t)"
proof -
  let ?l = "limiter_new (weight_limit m) t"
  have "spent es ?l \<le> lm_tokens ?l + lm_refill_per_second ?l * of_int (end_time t es - t) / 1000000000"
    using spent_bound [OF limiter_new_ok, of m t es] assms by (simp add: limiter_new_def Let_def)
  also have "\<dots> = of_nat (weight_limit m) * (4 / 5) * (1 + of_int (end_time t es - t) / 60000000000)"
    by (simp add: limiter_new_def Let_def default_weight_fraction_def field_simps)
  finally show ?thesis
    using granted_spent [OF limiter_positive(1) [OF limiter_new_ok], of es m t] by simp
qed

theorem limiter_keeps_rate_witness:
  "granted [Request 5 4800, Used 4790, Request 9 25] (limiter_new (weight_limit Spot) 5) \<le> 4801"
proof -
  let ?es = "[Request 5 4800, Used 4790, Request 9 25]"
  let ?l = "limiter_new (weight_limit Spot) 5"
  have order: "in_order 5 ?es" and time: "end_time 5 ?es - 5 = 4" by simp_all
  have "rounded ?es ?l = 0"
    by (simp add: limiter_new_def weight_limit_def default_weight_fraction_def wait_for_def take_tokens_def refill_def
        observe_used_weight_def nearly_enough_def duration_since_def as_secs_f64_def Let_def split: prod.split)
  moreover have "of_nat (weight_limit Spot) * (4 / 5) * (1 + of_int 4 / 60000000000) \<le> (4801 :: rat)"
    by (simp add: weight_limit_def)
  ultimately show ?thesis using limiter_keeps_rate [OF order, of Spot] unfolding time by linarith
qed

end
