(* ===== verification/Object_Store.thy ===== *)
theory Object_Store
  imports Rust_Str "HOL-Library.AList"
begin

section \<open>The object store behind the archive and the compactor\<close>

text \<open>
  The requests that \<open>src/compactor.rs\<close> and \<open>src/archive.rs\<close> send to S3. The store is not
  part of the sources: it is the parameter \<open>client\<close>, a record with one function per request,
  over a state of any type, every request bound to one bucket. \<open>s3_laws\<close> collects the
  documented behaviour that the proofs use, through the abstraction \<open>view\<close> of a state to the
  objects it holds. A request that reports an error may or may not have taken effect, since the
  answer can be lost.
\<close>

subsection \<open>Requests and answers\<close>

datatype s3_error = No_Such_Key | Not_Found | Request_Failed string

record s3_object =
  obj_body :: string
  obj_modified :: int

record head_output =
  head_length :: "int option"
  head_modified :: "int option"

record put_input =
  put_key :: string
  put_body :: string
  put_if_none_match :: bool
  put_tiering :: bool

record listed_object =
  lo_key :: "string option"
  lo_size :: "int option"

record list_page =
  page_contents :: "listed_object list"
  page_prefixes :: "string option list"

text \<open>
  \<open>get_object\<close> answers with the body, or with the error of reading its stream. A listing is
  the list of its pages; \<open>delete_objects\<close> answers with the keys it rejected.
\<close>

record 's s3_client =
  get_object :: "'s \<Rightarrow> string \<Rightarrow> 's \<times> (s3_error + string result)"
  head_object :: "'s \<Rightarrow> string \<Rightarrow> 's \<times> (s3_error + head_output)"
  put_object :: "'s \<Rightarrow> put_input \<Rightarrow> 's \<times> (s3_error + unit)"
  copy_object :: "'s \<Rightarrow> string \<Rightarrow> string \<Rightarrow> 's \<times> (s3_error + unit)"
  delete_object :: "'s \<Rightarrow> string \<Rightarrow> 's \<times> (s3_error + unit)"
  delete_objects :: "'s \<Rightarrow> string list \<Rightarrow> 's \<times> (s3_error + string list)"
  list_objects :: "'s \<Rightarrow> string \<Rightarrow> char option \<Rightarrow> 's \<times> (s3_error + list_page) list"

subsection \<open>What the code relies on\<close>

type_synonym s3_view = "string \<rightharpoonup> s3_object"

definition get_law :: "'s s3_client \<Rightarrow> ('s \<Rightarrow> s3_view) \<Rightarrow> bool" where
  "get_law c view \<longleftrightarrow> (\<forall>s k s' r. get_object c s k = (s', r) \<longrightarrow>
     view s' = view s
     \<and> (\<forall>body. r = Inr (Inr body) \<longrightarrow> map_option obj_body (view s k) = Some body)
     \<and> (r = Inl No_Such_Key \<longrightarrow> view s k = None))"

definition head_law :: "'s s3_client \<Rightarrow> ('s \<Rightarrow> s3_view) \<Rightarrow> bool" where
  "head_law c view \<longleftrightarrow> (\<forall>s k s' r. head_object c s k = (s', r) \<longrightarrow>
     view s' = view s
     \<and> (\<forall>h. r = Inr h \<longrightarrow> (\<exists>x. view s k = Some x
          \<and> h = \<lparr>head_length = Some (int (length (obj_body x))), head_modified = Some (obj_modified x)\<rparr>))
     \<and> (r = Inl Not_Found \<longrightarrow> view s k = None))"

definition put_law :: "'s s3_client \<Rightarrow> ('s \<Rightarrow> s3_view) \<Rightarrow> bool" where
  "put_law c view \<longleftrightarrow> (\<forall>s p s' r. put_object c s p = (s', r) \<longrightarrow>
     (view s' = view s \<and> r \<noteq> Inr ())
     \<or> ((put_if_none_match p \<longrightarrow> view s (put_key p) = None)
        \<and> (\<exists>t. view s' = (view s)(put_key p \<mapsto> \<lparr>obj_body = put_body p, obj_modified = t\<rparr>))))"

definition copy_law :: "string \<Rightarrow> 's s3_client \<Rightarrow> ('s \<Rightarrow> s3_view) \<Rightarrow> bool" where
  "copy_law bucket c view \<longleftrightarrow> (\<forall>s k d s' r. copy_object c s (bucket @ CHR ''/'' # k) d = (s', r) \<longrightarrow>
     (view s' = view s \<and> r \<noteq> Inr ())
     \<or> (\<exists>x t. view s k = Some x \<and> view s' = (view s)(d \<mapsto> x\<lparr>obj_modified := t\<rparr>)))"

definition delete_law :: "'s s3_client \<Rightarrow> ('s \<Rightarrow> s3_view) \<Rightarrow> bool" where
  "delete_law c view \<longleftrightarrow> (\<forall>s k s' r. delete_object c s k = (s', r) \<longrightarrow>
     (view s' = view s \<and> r \<noteq> Inr ()) \<or> view s' = (view s)(k := None))"

definition delete_all_law :: "'s s3_client \<Rightarrow> ('s \<Rightarrow> s3_view) \<Rightarrow> bool" where
  "delete_all_law c view \<longleftrightarrow> (\<forall>s ks s' r. delete_objects c s ks = (s', r) \<longrightarrow>
     (\<exists>gone. gone \<subseteq> set ks \<and> view s' = view s |` (- gone) \<and> (r = Inr [] \<longrightarrow> gone = set ks)))"

definition page_listed :: "list_page \<Rightarrow> string \<Rightarrow> nat \<Rightarrow> bool" where
  "page_listed p k n \<longleftrightarrow> \<lparr>lo_key = Some k, lo_size = Some (int n)\<rparr> \<in> set (page_contents p)"

definition list_law :: "'s s3_client \<Rightarrow> ('s \<Rightarrow> s3_view) \<Rightarrow> bool" where
  "list_law c view \<longleftrightarrow> (\<forall>s pre d s' rs. list_objects c s pre d = (s', rs) \<longrightarrow>
     view s' = view s
     \<and> (\<forall>p x k. Inr p \<in> set rs \<longrightarrow> x \<in> set (page_contents p) \<longrightarrow> lo_key x = Some k \<longrightarrow>
          starts_with k pre \<and> (\<exists>y. view s k = Some y \<and> lo_size x = Some (int (length (obj_body y)))))
     \<and> (\<forall>p q. Inr p \<in> set rs \<longrightarrow> Some q \<in> set (page_prefixes p) \<longrightarrow> starts_with q pre))"

definition s3_laws :: "string \<Rightarrow> 's s3_client \<Rightarrow> ('s \<Rightarrow> s3_view) \<Rightarrow> bool" where
  "s3_laws bucket c view \<longleftrightarrow> get_law c view \<and> head_law c view \<and> put_law c view
     \<and> copy_law bucket c view \<and> delete_law c view \<and> delete_all_law c view \<and> list_law c view"

lemma law_get:
  assumes "s3_laws b c view" and "get_object c s k = (s', r)"
  shows "view s' = view s"
    and "r = Inr (Inr body) \<Longrightarrow> map_option obj_body (view s k) = Some body"
    and "r = Inl No_Such_Key \<Longrightarrow> view s k = None"
  using assms by (auto simp: s3_laws_def get_law_def)

lemma law_head:
  assumes "s3_laws b c view" and "head_object c s k = (s', r)"
  shows "view s' = view s"
    and "r = Inr h \<Longrightarrow> \<exists>x. view s k = Some x
      \<and> h = \<lparr>head_length = Some (int (length (obj_body x))), head_modified = Some (obj_modified x)\<rparr>"
    and "r = Inl Not_Found \<Longrightarrow> view s k = None"
  using assms unfolding s3_laws_def head_law_def by blast+

lemma law_put:
  assumes "s3_laws b c view" and "put_object c s p = (s', r)"
  shows "(view s' = view s \<and> r \<noteq> Inr ())
     \<or> ((put_if_none_match p \<longrightarrow> view s (put_key p) = None)
        \<and> (\<exists>t. view s' = (view s)(put_key p \<mapsto> \<lparr>obj_body = put_body p, obj_modified = t\<rparr>)))"
  using assms unfolding s3_laws_def put_law_def by blast

lemma law_copy:
  assumes "s3_laws b c view" and "copy_object c s (b @ CHR ''/'' # k) d = (s', r)"
  shows "(view s' = view s \<and> r \<noteq> Inr ())
     \<or> (\<exists>x t. view s k = Some x \<and> view s' = (view s)(d \<mapsto> x\<lparr>obj_modified := t\<rparr>))"
  using assms unfolding s3_laws_def copy_law_def by blast

lemma law_delete:
  assumes "s3_laws b c view" and "delete_object c s k = (s', r)"
  shows "(view s' = view s \<and> r \<noteq> Inr ()) \<or> view s' = (view s)(k := None)"
  using assms unfolding s3_laws_def delete_law_def by blast

lemma law_delete_all:
  assumes "s3_laws b c view" and "delete_objects c s ks = (s', r)"
  shows "\<exists>gone. gone \<subseteq> set ks \<and> view s' = view s |` (- gone) \<and> (r = Inr [] \<longrightarrow> gone = set ks)"
  using assms unfolding s3_laws_def delete_all_law_def by blast

lemma law_list:
  assumes "s3_laws b c view" and "list_objects c s pre d = (s', rs)"
  shows "view s' = view s"
    and "Inr p \<in> set rs \<Longrightarrow> x \<in> set (page_contents p) \<Longrightarrow> lo_key x = Some k \<Longrightarrow>
      starts_with k pre \<and> (\<exists>y. view s k = Some y \<and> lo_size x = Some (int (length (obj_body y))))"
    and "Inr p \<in> set rs \<Longrightarrow> Some q \<in> set (page_prefixes p) \<Longrightarrow> starts_with q pre"
  using assms unfolding s3_laws_def list_law_def by blast+

subsection \<open>A store in memory\<close>

text \<open>
  An instance that the laws hold of, with which the witnesses compute: the objects, and the
  outcomes of the coming requests (\<open>False\<close> or an empty list of them lets a request succeed).
\<close>

record mem_store =
  mem_table :: "(string \<times> s3_object) list"
  mem_faults :: "bool list"

definition mem_objects :: "mem_store \<Rightarrow> s3_view" where
  "mem_objects s = map_of (mem_table s)"

definition mem_fails :: "mem_store \<Rightarrow> bool" where
  "mem_fails s = (case mem_faults s of [] \<Rightarrow> False | f # _ \<Rightarrow> f)"

definition mem_next :: "mem_store \<Rightarrow> mem_store" where
  "mem_next s = s\<lparr>mem_faults := tl (mem_faults s)\<rparr>"

definition mem_remove :: "string list \<Rightarrow> mem_store \<Rightarrow> mem_store" where
  "mem_remove ks s = s\<lparr>mem_table := filter (\<lambda>(k, _). \<not> List.member ks k) (mem_table s)\<rparr>"

definition mem_insert :: "string \<Rightarrow> s3_object \<Rightarrow> mem_store \<Rightarrow> mem_store" where
  "mem_insert k x s = s\<lparr>mem_table := (k, x) # mem_table (mem_remove [k] s)\<rparr>"

text \<open>A listing shows every key once.\<close>

definition mem_dedup :: "mem_store \<Rightarrow> mem_store" where
  "mem_dedup s = s\<lparr>mem_table := AList.clearjunk (mem_table s)\<rparr>"

definition mem_request :: "mem_store \<Rightarrow> mem_store \<times> (s3_error + 'a) \<Rightarrow> mem_store \<times> (s3_error + 'a)" where
  "mem_request s r = (if mem_fails s then (mem_next s, Inl (Request_Failed ''fault''))
     else (mem_next (fst r), snd r))"

text \<open>With a delimiter, the keys that have one after the prefix are grouped into a common prefix.\<close>

definition common_prefix :: "string \<Rightarrow> char option \<Rightarrow> string \<Rightarrow> string option" where
  "common_prefix pre d k =
     (case d of
        None \<Rightarrow> None
      | Some c \<Rightarrow>
          (let rest = drop (length pre) k in
           if List.member rest c then Some (pre @ takeWhile (\<lambda>x. x \<noteq> c) rest @ [c]) else None))"

lemma common_prefix_starts: "common_prefix pre d k = Some q \<Longrightarrow> starts_with q pre"
  by (auto simp: common_prefix_def starts_with_def Let_def split: option.splits if_splits)

definition memory_s3 :: "string \<Rightarrow> mem_store s3_client" where
  "memory_s3 bucket =
    \<lparr>get_object = (\<lambda>s k. mem_request s (case mem_objects s k of
         None \<Rightarrow> (s, Inl No_Such_Key) | Some x \<Rightarrow> (s, Inr (Inr (obj_body x))))),
     head_object = (\<lambda>s k. mem_request s (case mem_objects s k of
         None \<Rightarrow> (s, Inl Not_Found)
       | Some x \<Rightarrow> (s, Inr \<lparr>head_length = Some (int (length (obj_body x))),
                            head_modified = Some (obj_modified x)\<rparr>))),
     put_object = (\<lambda>s p. mem_request s
         (if put_if_none_match p \<and> mem_objects s (put_key p) \<noteq> None
          then (s, Inl (Request_Failed ''PreconditionFailed''))
          else (mem_insert (put_key p) \<lparr>obj_body = put_body p, obj_modified = 0\<rparr> s, Inr ()))),
     copy_object = (\<lambda>s k d. mem_request s
         (case strip_prefix k (bucket @ ''/'') of
            None \<Rightarrow> (s, Inl No_Such_Key)
          | Some k \<Rightarrow> (case mem_objects s k of
              None \<Rightarrow> (s, Inl No_Such_Key)
            | Some x \<Rightarrow> (mem_insert d (x\<lparr>obj_modified := 0\<rparr>) s, Inr ())))),
     delete_object = (\<lambda>s k. mem_request s (mem_remove [k] s, Inr ())),
     delete_objects = (\<lambda>s ks. mem_request s (mem_remove ks s, Inr [])),
     list_objects = (\<lambda>s pre d. (s,
         if mem_fails s then [Inl (Request_Failed ''fault'')]
         else
           (let found = filter (\<lambda>(k, _). starts_with k pre) (mem_table (mem_dedup s)) in
            [Inr \<lparr>page_contents =
               map (\<lambda>(k, x). \<lparr>lo_key = Some k, lo_size = Some (int (length (obj_body x)))\<rparr>)
                 (filter (\<lambda>(k, _). common_prefix pre d k = None) found),
             page_prefixes = remdups (filter (\<lambda>q. q \<noteq> None) (map (\<lambda>(k, _). common_prefix pre d k) found))\<rparr>])))\<rparr>"

lemma map_of_filter_key: "map_of (filter (\<lambda>(k, _). P k) xs) = map_of xs |` {k. P k}"
  by (induction xs) (auto simp: restrict_map_def fun_eq_iff)

lemma mem_objects_simps [simp]:
  "mem_objects (mem_next s) = mem_objects s"
  "mem_objects (mem_remove ks s) = mem_objects s |` (- set ks)"
  "mem_objects (mem_insert k x s) = (mem_objects s)(k \<mapsto> x)"
  by (simp_all add: mem_next_def mem_insert_def mem_remove_def mem_objects_def map_of_filter_key
      Compl_eq) (simp add: restrict_map_def fun_eq_iff)

lemma mem_objects_dedup: "(k, x) \<in> set (mem_table (mem_dedup s)) \<Longrightarrow> mem_objects s k = Some x"
  by (simp add: mem_dedup_def mem_objects_def)
    (metis distinct_clearjunk map_of_clearjunk map_of_eq_Some_iff)

lemma memory_s3_laws: "s3_laws bucket (memory_s3 bucket) mem_objects"
  unfolding s3_laws_def
proof (intro conjI)
  show "get_law (memory_s3 bucket) mem_objects"
    by (auto simp: get_law_def memory_s3_def mem_request_def split: option.splits if_splits)
  show "head_law (memory_s3 bucket) mem_objects"
    by (auto simp: head_law_def memory_s3_def mem_request_def split: option.splits if_splits)
  show "put_law (memory_s3 bucket) mem_objects"
    by (auto simp: put_law_def memory_s3_def mem_request_def split: if_splits)
  show "copy_law bucket (memory_s3 bucket) mem_objects"
    by (auto simp: copy_law_def memory_s3_def mem_request_def strip_prefix_def
        simp del: append_Cons split: option.splits if_splits)
  show "delete_law (memory_s3 bucket) mem_objects"
    unfolding delete_law_def
  proof (intro allI impI)
    fix s k s' and r :: "s3_error + unit"
    assume d: "delete_object (memory_s3 bucket) s k = (s', r)"
    have m: "mem_objects (mem_next (mem_remove [k] s)) = (mem_objects s)(k := None)"
      by (simp add: restrict_map_def fun_eq_iff)
    show "(mem_objects s' = mem_objects s \<and> r \<noteq> Inr ())
        \<or> mem_objects s' = (mem_objects s)(k := None)"
    proof (cases "mem_fails s")
      case True
      with d show ?thesis by (auto simp: memory_s3_def mem_request_def)
    next
      case False
      with d have "s' = mem_next (mem_remove [k] s)" by (simp add: memory_s3_def mem_request_def)
      with m show ?thesis by blast
    qed
  qed
  show "delete_all_law (memory_s3 bucket) mem_objects"
    unfolding delete_all_law_def
  proof (intro allI impI)
    fix s ks s' and r :: "s3_error + string list"
    assume d: "delete_objects (memory_s3 bucket) s ks = (s', r)"
    let ?gone = "if mem_fails s then {} else set ks"
    have "mem_objects s' = mem_objects s |` (- ?gone)" and "r = Inr [] \<longrightarrow> ?gone = set ks"
      using d by (cases "mem_fails s"; simp add: memory_s3_def mem_request_def; fastforce)+
    then show "\<exists>gone. gone \<subseteq> set ks \<and> mem_objects s' = mem_objects s |` (- gone)
        \<and> (r = Inr [] \<longrightarrow> gone = set ks)"
      by (intro exI [of _ ?gone]) simp
  qed
  show "list_law (memory_s3 bucket) mem_objects"
    by (auto simp: list_law_def memory_s3_def Let_def dest: mem_objects_dedup common_prefix_starts [OF sym]
        split: if_splits)
qed

end
