(* ===== verification/Snapshot.thy ===== *)
theory Snapshot
  imports Limiter Http Object_Store
begin

section \<open>Depth snapshots\<close>

text \<open>
  \<open>SnapshotSyncer\<close> of \<open>src/snapshot.rs\<close>: the scheduler that keeps one job per symbol, and the
  request of one snapshot. The limiter is in \<open>Limiter\<close>. Clock readings, the order in which
  jobs due at the same instant are sorted, and the outcome of the requests are arguments; so are
  \<open>serde_json::to_vec\<close>, \<open>zstd\<close> and chrono's formatting.
\<close>

subsection \<open>Jobs\<close>

record snapshot_job =
  sj_symbol :: string
  sj_next_run :: int

definition initial_jobs :: "string list \<Rightarrow> nat \<Rightarrow> int \<Rightarrow> snapshot_job list" where
  "initial_jobs symbols interval_seconds now =
     (let n = max (length symbols) 1 in
      map (\<lambda>(i, symbol). \<lparr>sj_symbol = symbol,
             sj_next_run = now + int (from_secs_f64 (of_nat interval_seconds * (of_nat i / of_nat n)))\<rparr>)
        (enumerate 0 symbols))"

type_synonym job_order = "snapshot_job list \<Rightarrow> snapshot_job list"

text \<open>\<open>sort_unstable_by_key\<close>: some order by the time of the next run.\<close>

definition sorting_order :: "job_order \<Rightarrow> bool" where
  "sorting_order order \<longleftrightarrow> (\<forall>js. mset (order js) = mset js \<and> sorted (map sj_next_run (order js)))"

subsection \<open>The scheduler\<close>

record scheduler =
  sn_limiter :: limiter
  sn_jobs :: "snapshot_job list"
  sn_active :: "snapshot_job list"
  sn_successes :: u64
  sn_reported :: u64

definition scheduler_start :: "market \<Rightarrow> string list \<Rightarrow> nat \<Rightarrow> int \<Rightarrow> int \<Rightarrow> scheduler" where
  "scheduler_start m symbols interval_seconds now now' =
     \<lparr>sn_limiter = limiter_new (weight_limit m) now,
      sn_jobs = initial_jobs symbols interval_seconds now', sn_active = [],
      sn_successes = 0, sn_reported = 0\<rparr>"

text \<open>
  The inner loop, which starts requests until enough are active, no job is due or the limiter
  asks to wait; the second result is that wait. \<open>clock i\<close> is the pair of instants read in the
  \<open>i\<close>-th round.
\<close>

fun launch ::
  "nat \<Rightarrow> nat \<Rightarrow> (nat \<Rightarrow> int \<times> int) \<Rightarrow> nat \<Rightarrow> limiter \<Rightarrow> snapshot_job list \<Rightarrow> snapshot_job list \<Rightarrow>
   limiter \<times> snapshot_job list \<times> snapshot_job list \<times> nat" where
  "launch concurrency weight clock i l [] active = (l, [], active, 0)"
| "launch concurrency weight clock i l (job # jobs) active =
     (if length active < concurrency then
        if sj_next_run job > fst (clock i) then (l, job # jobs, active, 0)
        else
          (case wait_for (snd (clock i)) weight l of
             (l', wait) \<Rightarrow>
               if wait \<noteq> 0 then (l', job # jobs, active, wait)
               else launch concurrency weight clock (Suc i) l' jobs (active @ [job]))
      else (l, job # jobs, active, 0))"

text \<open>
  A finished request: the reported weight of an answer, or the two readings of the time that
  remains until the rate limit lifts.
\<close>

datatype outcome = Stored "nat option" | Rejected nat nat

definition u64_saturating_succ :: "u64 \<Rightarrow> u64" where
  "u64_saturating_succ n = (if n = - 1 then n else n + 1)"

definition complete ::
  "nat \<Rightarrow> int \<Rightarrow> int \<Rightarrow> snapshot_job \<Rightarrow> outcome \<Rightarrow> scheduler \<Rightarrow> scheduler" where
  "complete interval_seconds now now' job out s =
     (let s = (case out of
          Stored used \<Rightarrow>
            s\<lparr>sn_limiter := (case used of None \<Rightarrow> sn_limiter s | Some w \<Rightarrow> observe_used_weight w (sn_limiter s)),
              sn_successes := u64_saturating_succ (sn_successes s),
              sn_jobs := sn_jobs s @ [job\<lparr>sj_next_run := now + int (from_secs interval_seconds)\<rparr>]\<rparr>
        | Rejected r r' \<Rightarrow>
            (let retry = (if r > 0 then r' else 30) in
             s\<lparr>sn_jobs := sn_jobs s @ [job\<lparr>sj_next_run := now + int (from_secs (min retry 300))\<rparr>],
               sn_limiter := pause now' (from_secs (min retry 60)) (sn_limiter s)\<rparr>))
      in if sn_successes s div 100 > sn_reported s
         then s\<lparr>sn_reported := sn_successes s div 100\<rparr> else s)"

definition idle_wait :: "int \<Rightarrow> nat \<Rightarrow> snapshot_job \<Rightarrow> nat" where
  "idle_wait now limiter_wait job =
     (let due_wait = duration_since (sj_next_run job) now;
          wait = (if limiter_wait = 0 then due_wait
                  else if due_wait = 0 then limiter_wait else min due_wait limiter_wait)
      in min wait (from_secs 5))"

text \<open>
  One round of the outer loop: sort, launch, then either take the request that finishes first
  (\<open>pick\<close> among the active ones) or sleep. The second result is the sleep.
\<close>

record round_input =
  ri_order :: job_order
  ri_clock :: "nat \<Rightarrow> int \<times> int"
  ri_pick :: nat
  ri_outcome :: outcome
  ri_done :: "int \<times> int"

definition snapshot_round ::
  "nat \<Rightarrow> nat \<Rightarrow> nat \<Rightarrow> round_input \<Rightarrow> scheduler \<Rightarrow> scheduler \<times> nat" where
  "snapshot_round concurrency weight interval_seconds r s =
     (case launch concurrency weight (ri_clock r) 0 (sn_limiter s) (ri_order r (sn_jobs s)) (sn_active s) of
        (l, jobs, active, limiter_wait) \<Rightarrow>
          (let s = s\<lparr>sn_limiter := l, sn_jobs := jobs, sn_active := active\<rparr> in
           if active \<noteq> [] then
             (let i = ri_pick r mod length active; job = active ! i in
              (complete interval_seconds (fst (ri_done r)) (snd (ri_done r)) job (ri_outcome r)
                 (s\<lparr>sn_active := take i active @ drop (Suc i) active\<rparr>), 0))
           else
             (case jobs of
                [] \<Rightarrow> (s, 0)
              | job # _ \<Rightarrow> (s, idle_wait (fst (ri_done r)) limiter_wait job))))"

fun snapshot_run ::
  "nat \<Rightarrow> nat \<Rightarrow> nat \<Rightarrow> round_input list \<Rightarrow> scheduler \<Rightarrow> scheduler" where
  "snapshot_run concurrency weight interval_seconds [] s = s"
| "snapshot_run concurrency weight interval_seconds (r # rs) s =
     snapshot_run concurrency weight interval_seconds rs
       (fst (snapshot_round concurrency weight interval_seconds r s))"

subsection \<open>One snapshot\<close>

definition depth_endpoint :: "market \<Rightarrow> string" where
  "depth_endpoint m =
     (case m of Spot \<Rightarrow> ''api/v3/depth'' | Usdm \<Rightarrow> ''fapi/v1/depth'' | Coinm \<Rightarrow> ''dapi/v1/depth'')"

definition used_weight :: "'r http_client \<Rightarrow> 'r \<Rightarrow> nat option" where
  "used_weight http r =
     find_map (\<lambda>(name, v).
       if to_lowercase name = ''x-mbx-used-weight-1m''
       then map_option unat (Option.bind v parse_u64) else None) (http_headers http r)"

record snapshot_lib =
  sl_format :: "datetime \<Rightarrow> string \<Rightarrow> string"
  sl_serialize_time :: "datetime \<Rightarrow> json"
  sl_to_vec :: "json \<Rightarrow> string result"
  sl_zstd :: "string \<Rightarrow> string result"

definition snapshot_envelope ::
  "snapshot_lib \<Rightarrow> market \<Rightarrow> string \<Rightarrow> datetime \<Rightarrow> datetime \<Rightarrow> u64 \<Rightarrow> nat \<Rightarrow> json \<Rightarrow> json" where
  "snapshot_envelope lib m symbol captured requested update_id limit body = JObject
     [(''exchange'', JString ''binance''), (''market'', JString (market_as_str m)),
      (''symbol'', JString symbol), (''captured_at'', sl_serialize_time lib captured),
      (''requested_at'', sl_serialize_time lib requested), (''last_update_id'', JInt (uint update_id)),
      (''limit'', JInt (int limit)), (''payload'', body)]"

definition snapshot_key ::
  "snapshot_lib \<Rightarrow> string \<Rightarrow> market \<Rightarrow> string \<Rightarrow> datetime \<Rightarrow> u64 \<Rightarrow> string" where
  "snapshot_key lib pre m symbol captured update_id =
     trim_matches CHR ''/'' pre @ ''/binance/'' @ market_as_str m @ ''/'' @ to_uppercase symbol @
     ''/date='' @ sl_format lib captured ''%Y-%m-%d'' @ ''/hour='' @ sl_format lib captured ''%H'' @
     ''/snapshot-'' @ sl_format lib captured ''%Y%m%dT%H%M%S%.3fZ'' @
     ''-u'' @ show_nat (unat update_id) @ ''.json.zst''"

text \<open>\<open>result.context(message)\<close>\<close>

definition or_message :: "'a result \<Rightarrow> error \<Rightarrow> 'a result" where
  "or_message r message = (case r of Inl _ \<Rightarrow> Inl message | Inr x \<Rightarrow> Inr x)"

text \<open>From an accepted response to the object to store. \<open>stamps\<close> are the instants before and after the request.\<close>

definition snapshot_object ::
  "'r http_client \<Rightarrow> snapshot_lib \<Rightarrow> config \<Rightarrow> market \<Rightarrow> datetime \<times> datetime \<Rightarrow> string \<Rightarrow> 'r \<Rightarrow> put_input result" where
  "snapshot_object http lib c m stamps symbol r =
     result_bind (or_message (error_for_status http r) ''depth snapshot rejected'') (\<lambda>r.
     result_bind (or_message (http_json http r) ''decode depth snapshot'') (\<lambda>body.
     result_bind (with_context (Option.bind (json_get body ''lastUpdateId'') as_u64)
       ''depth snapshot has no lastUpdateId'') (\<lambda>update_id.
     result_bind (or_message (sl_to_vec lib (snapshot_envelope lib m symbol (snd stamps) (fst stamps)
       update_id (cfg_snapshot_depth_limit c) body)) ''encode snapshot'') (\<lambda>encoded.
     result_bind (or_message (sl_zstd lib encoded) ''compress snapshot'') (\<lambda>compressed.
     Inr \<lparr>put_key = snapshot_key lib (cfg_snapshot_prefix c) m symbol (snd stamps) update_id,
          put_body = compressed, put_if_none_match = False, put_tiering = False\<rparr>)))))"

text \<open>
  \<open>fetch_and_store\<close>: the store, the rate limit and the result. \<open>now\<close> is the second at which the
  rate limit is updated.
\<close>

definition fetch_and_store ::
  "'r http_client \<Rightarrow> 's s3_client \<Rightarrow> snapshot_lib \<Rightarrow> config \<Rightarrow> market \<Rightarrow> nat \<Rightarrow> int \<Rightarrow>
   datetime \<times> datetime \<Rightarrow> string \<Rightarrow> 's \<times> int \<Rightarrow> ('s \<times> int) \<times> nat option result" where
  "fetch_and_store http s3 lib c m moment now stamps symbol st =
     (let endpoint = trim_end_matches CHR ''/'' (config_rest_url c) @ ''/'' @ depth_endpoint m;
          query = [(''symbol'', symbol), (''limit'', show_nat (cfg_snapshot_depth_limit c))] in
      case http_send http moment endpoint query of
        Inl _ \<Rightarrow> (st, Inl ''request depth snapshot'')
      | Inr r \<Rightarrow>
          (case observe_response http now r (snd st) of (blocked_until, blocked) \<Rightarrow>
             if blocked
             then ((fst st, blocked_until),
                   Inl (''Binance REST rate limit response: '' @ show_nat (http_status http r)))
             else
               (case snapshot_object http lib c m stamps symbol r of
                  Inl e \<Rightarrow> ((fst st, blocked_until), Inl e)
                | Inr object \<Rightarrow>
                    (case put_object s3 (fst st) object of
                       (store, Inl _) \<Rightarrow> ((store, blocked_until), Inl ''upload depth snapshot'')
                     | (store, Inr _) \<Rightarrow> ((store, blocked_until), Inr (used_weight http r))))))"

subsection \<open>No symbol is lost\<close>

definition tracked :: "scheduler \<Rightarrow> string multiset" where
  "tracked s = mset (map sj_symbol (sn_jobs s)) + mset (map sj_symbol (sn_active s))"

definition scheduler_ok :: "nat \<Rightarrow> market \<Rightarrow> scheduler \<Rightarrow> bool" where
  "scheduler_ok concurrency m s \<longleftrightarrow> limiter_ok m (sn_limiter s) \<and> length (sn_active s) \<le> concurrency"

lemma launch_keeps:
  assumes "launch concurrency weight clock i l jobs active = (l', jobs', active', wait)"
  shows "mset jobs' + mset active' = mset jobs + mset active"
    and "limiter_ok m l \<Longrightarrow> limiter_ok m l'"
    and "length active \<le> concurrency \<Longrightarrow> length active' \<le> concurrency"
proof -
  have "mset jobs' + mset active' = mset jobs + mset active
      \<and> (limiter_ok m l \<longrightarrow> limiter_ok m l')
      \<and> (length active \<le> concurrency \<longrightarrow> length active' \<le> concurrency)"
    using assms
  proof (induction concurrency weight clock i l jobs active rule: launch.induct)
    case (2 concurrency weight clock i l job jobs active)
    obtain l1 w where wait: "wait_for (snd (clock i)) weight l = (l1, w)" by fastforce
    have ok: "limiter_ok m l \<longrightarrow> limiter_ok m l1" using wait_for_ok [OF _ wait] by blast
    show ?case
    proof (cases "length active < concurrency \<and> \<not> sj_next_run job > fst (clock i) \<and> w = 0")
      case True
      with "2.prems" wait have "launch concurrency weight clock (Suc i) l1 jobs (active @ [job]) = (l', jobs', active', wait)"
        by simp
      from "2.IH" [OF _ _ wait [symmetric] _ this] True ok show ?thesis by simp
    next
      case False
      with "2.prems" wait ok show ?thesis by (auto split: if_splits)
    qed
  qed simp
  then show "mset jobs' + mset active' = mset jobs + mset active"
    and "limiter_ok m l \<Longrightarrow> limiter_ok m l'"
    and "length active \<le> concurrency \<Longrightarrow> length active' \<le> concurrency" by blast+
qed

lemma complete_keeps:
  "tracked (complete interval now now' job out s) = tracked s + {#sj_symbol job#}"
  "limiter_ok m (sn_limiter s) \<Longrightarrow> limiter_ok m (sn_limiter (complete interval now now' job out s))"
  "sn_active (complete interval now now' job out s) = sn_active s"
  by (auto simp: complete_def Let_def tracked_def pause_def observe_used_weight_ok
      split: outcome.splits option.splits)

lemma mset_take_drop_nth:
  "i < length xs \<Longrightarrow> mset (take i xs @ drop (Suc i) xs) + {#xs ! i#} = mset xs"
  by (metis add.commute id_take_nth_drop mset_append mset.simps(2) union_mset_add_mset_left
      add_mset_add_single union_assoc)

lemma snapshot_round_keeps:
  assumes "sorting_order (ri_order r)" and "scheduler_ok concurrency m s"
  shows "tracked (fst (snapshot_round concurrency weight interval r s)) = tracked s
    \<and> scheduler_ok concurrency m (fst (snapshot_round concurrency weight interval r s))"
proof -
  obtain l jobs active wait where launch: "launch concurrency weight (ri_clock r) 0 (sn_limiter s)
      (ri_order r (sn_jobs s)) (sn_active s) = (l, jobs, active, wait)"
    using prod_cases4 by blast
  note L = launch_keeps [OF launch]
  have "mset (ri_order r (sn_jobs s)) = mset (sn_jobs s)" using assms(1) by (simp add: sorting_order_def)
  then have all: "mset jobs + mset active = mset (sn_jobs s) + mset (sn_active s)" using L(1) by simp
  have ok: "limiter_ok m l" "length active \<le> concurrency"
    using L(2,3) assms(2) by (simp_all add: scheduler_ok_def)
  let ?s = "s\<lparr>sn_limiter := l, sn_jobs := jobs, sn_active := active\<rparr>"
  have same: "tracked ?s = tracked s"
    using arg_cong [OF all, of "image_mset sj_symbol"] by (simp add: tracked_def)
  show ?thesis
  proof (cases "active = []")
    case True
    then show ?thesis
      using launch same ok by (auto simp: snapshot_round_def Let_def scheduler_ok_def split: list.splits)
  next
    case False
    let ?i = "ri_pick r mod length active"
    have i: "?i < length active" using False by simp
    let ?t = "?s\<lparr>sn_active := take ?i active @ drop (Suc ?i) active\<rparr>"
    have "tracked ?t + {#sj_symbol (active ! ?i)#} = tracked ?s"
      unfolding tracked_def using arg_cong [OF mset_take_drop_nth [OF i], of "image_mset sj_symbol"]
      by (simp add: ac_simps)
    moreover have "fst (snapshot_round concurrency weight interval r s) =
        complete interval (fst (ri_done r)) (snd (ri_done r)) (active ! ?i) (ri_outcome r) ?t"
      using launch False by (simp add: snapshot_round_def Let_def)
    ultimately show ?thesis
      using same ok i by (simp add: complete_keeps scheduler_ok_def)
  qed
qed

lemma snapshot_run_keeps:
  assumes "\<forall>r\<in>set rs. sorting_order (ri_order r)" and "scheduler_ok concurrency m s"
  shows "tracked (snapshot_run concurrency weight interval rs s) = tracked s
    \<and> scheduler_ok concurrency m (snapshot_run concurrency weight interval rs s)"
  using assms by (induction rs arbitrary: s) (simp_all add: snapshot_round_keeps)

text \<open>
  C40. The scheduler keeps every symbol for ever: after any number of rounds, whatever the
  requests come to and in whatever order they finish, the jobs that wait and the requests under
  way are together exactly one per symbol, and never more requests are under way than allowed.
\<close>

theorem snapshot_keeps_symbols:
  assumes "\<forall>r\<in>set rs. sorting_order (ri_order r)"
  shows "tracked (snapshot_run concurrency weight interval rs
      (scheduler_start m symbols interval now now')) = mset symbols
    \<and> length (sn_active (snapshot_run concurrency weight interval rs
        (scheduler_start m symbols interval now now'))) \<le> concurrency"
proof -
  let ?s = "scheduler_start m symbols interval now now'"
  have "map sj_symbol (map (\<lambda>(i, symbol). \<lparr>sj_symbol = symbol, sj_next_run = f i\<rparr>) (enumerate n symbols)) = symbols"
    for n and f :: "nat \<Rightarrow> int"
    by (induction symbols arbitrary: n) simp_all
  from this [of "\<lambda>i. now' + int (from_secs_f64 (of_nat interval * (of_nat i / of_nat (max (length symbols) 1))))"]
  have start: "tracked ?s = mset symbols"
    unfolding tracked_def scheduler_start_def initial_jobs_def Let_def by simp
  have "scheduler_ok concurrency m ?s"
    by (simp add: scheduler_ok_def scheduler_start_def limiter_new_ok)
  from snapshot_run_keeps [OF assms this]
  have "tracked (snapshot_run concurrency weight interval rs ?s) = tracked ?s
      \<and> scheduler_ok concurrency m (snapshot_run concurrency weight interval rs ?s)" .
  then show ?thesis by (simp add: start scheduler_ok_def)
qed

lemma sorting_order_sort: "sorting_order (sort_key sj_next_run)"
  by (simp add: sorting_order_def)

theorem snapshot_keeps_symbols_witness:
  "tracked (snapshot_run 2 25 3600
      [\<lparr>ri_order = sort_key sj_next_run, ri_clock = (\<lambda>_. (9, 9)), ri_pick = 1,
        ri_outcome = Rejected 60 59, ri_done = (10, 11)\<rparr>]
      (scheduler_start Spot [''BTCUSDT'', ''ETHUSDT''] 3600 0 1)) = {#''BTCUSDT'', ''ETHUSDT''#}"
  using snapshot_keeps_symbols [of "[\<lparr>ri_order = sort_key sj_next_run, ri_clock = (\<lambda>_. (9, 9)), ri_pick = 1,
        ri_outcome = Rejected 60 59, ri_done = (10, 11)\<rparr>]" 2 25 3600 Spot "[''BTCUSDT'', ''ETHUSDT'']" 0 1]
  by (simp add: sorting_order_sort del: snapshot_run.simps)

subsection \<open>The pause after a rejection\<close>

text \<open>
  A rejection pauses the limiter for at most a minute, and nothing but the limiter holds back the
  other symbols. After a response with status 418 that announces 300 seconds, the request for the
  next symbol is sent after 61 seconds, although every caller sees 239 seconds remaining.
\<close>

definition timed_round :: "nat \<Rightarrow> outcome \<Rightarrow> round_input" where
  "timed_round t out = \<lparr>ri_order = sort_key sj_next_run, ri_clock = (\<lambda>_. (int (from_secs t), int (from_secs t))),
     ri_pick = 0, ri_outcome = out, ri_done = (int (from_secs t), int (from_secs t))\<rparr>"

lemma requests_resume_while_blocked:
  "fst (observe_response text_client 0 (418, ''soon'') 0) = 300"
  "remaining_seconds 300 0 = 300" "remaining_seconds 300 61 = 239"
  "sn_successes (snapshot_run 1 250 60 [timed_round 0 (Rejected 300 300), timed_round 61 (Stored None)]
     (scheduler_start Spot [''BTCUSDT'', ''ETHUSDT''] 60 0 0)) = 1"
proof -
  have "parse_u64 ''soon'' = None" by code_simp
  then show "fst (observe_response text_client 0 (418, ''soon'') 0) = 300"
    by (simp add: observe_response_def retry_seconds_def header_text_def text_client_def clamp_def
        block_for_def i64_saturating_add_def int_bounds)
  show "remaining_seconds 300 0 = 300" "remaining_seconds 300 61 = 239"
    by (simp_all add: remaining_seconds_def i64_saturating_sub_def int_bounds)
  show "sn_successes (snapshot_run 1 250 60 [timed_round 0 (Rejected 300 300), timed_round 61 (Stored None)]
     (scheduler_start Spot [''BTCUSDT'', ''ETHUSDT''] 60 0 0)) = 1"
    by (simp add: timed_round_def snapshot_round_def scheduler_start_def initial_jobs_def limiter_new_def
        default_weight_fraction_def weight_limit_def wait_for_def refill_def take_tokens_def complete_def
        pause_def duration_since_def as_secs_f64_def from_secs_def from_secs_f64_def round_half_even_def
        u64_saturating_succ_def Let_def)
qed

end
