(* ===== verification/Notify.thy ===== *)
theory Notify
  imports Complex_Main Config Runtime Limiter
begin

section \<open>Notifications\<close>

text \<open>
  The contents of the Telegram report of \<open>src/notify.rs\<close>. \<open>read\<close> reads a file; sizes are \<open>f64\<close>
  values, here exact rationals: dividing by 1024 is exact in \<open>f64\<close>, and so is the conversion of
  a size below \<open>2 ^ 53\<close>.
\<close>

definition parse_u64_nat :: "string \<Rightarrow> nat option" where
  "parse_u64_nat s = map_option unat (parse_u64 s)"

fun memory_fields :: "string list list \<Rightarrow> nat option \<times> nat option \<Rightarrow> nat option \<times> nat option" where
  "memory_fields [] ta = ta"
| "memory_fields (fs # rest) (physical, available) =
     (let v = (case fs of _ # w # _ \<Rightarrow> parse_u64_nat w | _ \<Rightarrow> None) in
      case fs of
        [] \<Rightarrow> memory_fields rest (physical, available)
      | k # _ \<Rightarrow>
          if k = ''MemTotal:'' then memory_fields rest (v, available)
          else if k = ''MemAvailable:'' then memory_fields rest (physical, v)
          else memory_fields rest (physical, available))"

definition memory_usage :: "(string \<Rightarrow> string option) \<Rightarrow> (nat \<times> nat) result" where
  "memory_usage read =
     result_bind (with_context (read ''/proc/meminfo'') ''read meminfo'') (\<lambda>content.
       (case memory_fields (map split_whitespace (str_lines content)) (None, None) of
          (physical, available) \<Rightarrow>
            result_bind (with_context physical ''MemTotal missing'') (\<lambda>physical.
            result_bind (with_context available ''MemAvailable missing'') (\<lambda>available.
              (let physical = saturating_mul physical 1024; available = saturating_mul available 1024 in
               Inr (saturating_sub physical available, physical))))))"

text \<open>\<open>{:.1}\<close>: one decimal, half to even.\<close>

definition show_tenths :: "rat \<Rightarrow> string" where
  "show_tenths x =
     (let n = nat (round_half_even (x * 10)) in show_nat (n div 10) @ ''.'' @ show_nat (n mod 10))"

definition units :: "string list" where
  "units = [''B'', ''KiB'', ''MiB'', ''GiB'', ''TiB'']"

function scale_unit :: "rat \<Rightarrow> nat \<Rightarrow> rat \<times> nat" where
  "scale_unit value unit =
     (if value \<ge> 1024 \<and> unit < length units - 1 then scale_unit (value / 1024) (unit + 1)
      else (value, unit))"
  by auto
termination by (relation "measure (\<lambda>(value, unit). length units - 1 - unit)") auto

definition human_bytes :: "nat \<Rightarrow> string" where
  "human_bytes bytes =
     (case scale_unit (of_nat bytes) 0 of (value, unit) \<Rightarrow> show_tenths value @ '' '' @ units ! unit)"

text \<open>The report is sent only where both a token and a chat are configured.\<close>

record notifier =
  nt_endpoint :: "string option"
  nt_chat_id :: "string option"
  nt_dataset :: string

definition notifier_from_env :: "(string \<Rightarrow> string option) \<Rightarrow> string \<Rightarrow> notifier" where
  "notifier_from_env env dataset =
     \<lparr>nt_endpoint = map_option (\<lambda>token. ''https://api.telegram.org/bot'' @ token @ ''/sendMessage'')
        (env ''TELEGRAM_BOT_TOKEN''),
      nt_chat_id = env ''TELEGRAM_CHAT_ID'', nt_dataset = dataset\<rparr>"

record archive_notification =
  an_status :: string
  an_hour :: string
  an_files :: nat
  an_bytes :: nat
  an_elapsed :: rat
  an_error :: "error option"

definition report_text ::
  "notifier \<Rightarrow> metrics \<Rightarrow> (string \<Rightarrow> string option) \<Rightarrow> nat option \<times> nat option \<Rightarrow> archive_notification \<Rightarrow> string" where
  "report_text nt ms read disk report =
     (let load = (case Option.bind (read ''/proc/loadavg'')
                    (\<lambda>v. case split_whitespace v of [] \<Rightarrow> None | w # _ \<Rightarrow> Some w) of
                   None \<Rightarrow> ''unknown'' | Some w \<Rightarrow> w);
          memory = (case memory_usage read of Inl _ \<Rightarrow> (0, 0) | Inr m \<Rightarrow> m);
          disk_total = (case fst disk of None \<Rightarrow> 0 | Some n \<Rightarrow> n);
          disk_available = (case snd disk of None \<Rightarrow> 0 | Some n \<Rightarrow> n);
          num = (\<lambda>w :: u64. show_nat (unat w)) in
      ''Parquet '' @ an_status report @ ''\<newline>dataset: '' @ nt_dataset nt
      @ ''\<newline>hour: '' @ an_hour report @ ''\<newline>files: '' @ show_nat (an_files report)
      @ ''\<newline>data: '' @ human_bytes (an_bytes report)
      @ ''\<newline>elapsed: '' @ show_tenths (an_elapsed report) @ ''s''
      @ ''\<newline>records: received='' @ num (received_messages ms) @ '' parsed='' @ num (parsed_records ms)
      @ '' written='' @ num (written_records ms) @ '' dropped='' @ num (dropped_messages ms)
      @ '' errors='' @ num (parse_errors ms) @ '' reconnects='' @ num (reconnects ms)
      @ ''\<newline>writer queue: current='' @ num (writer_queue_depth ms)
      @ '' peak='' @ num (writer_queue_high_watermark ms)
      @ ''\<newline>last message: '' @ num (last_message_unix_ms ms) @ ''\<newline>load1: '' @ load
      @ ''\<newline>memory: '' @ human_bytes (fst memory) @ '' / '' @ human_bytes (snd memory)
      @ ''\<newline>disk: '' @ human_bytes disk_available @ '' free / '' @ human_bytes disk_total
      @ (case an_error report of None \<Rightarrow> [] | Some e \<Rightarrow> ''\<newline>error: '' @ take 1000 e))"

text \<open>\<open>post\<close> sends the chat and the text to an endpoint and says whether it was accepted.\<close>

definition send_archive_report ::
  "(string \<Rightarrow> string \<Rightarrow> string \<Rightarrow> unit result) \<Rightarrow> notifier \<Rightarrow> metrics \<Rightarrow> (string \<Rightarrow> string option) \<Rightarrow>
   nat option \<times> nat option \<Rightarrow> archive_notification \<Rightarrow> unit result" where
  "send_archive_report post nt ms read disk report =
     (case (nt_endpoint nt, nt_chat_id nt) of
        (Some endpoint, Some chat) \<Rightarrow> post endpoint chat (report_text nt ms read disk report)
      | _ \<Rightarrow> Inr ())"

lemma memory_usage_bound:
  assumes "memory_usage read = Inr (used, physical)"
  shows "used \<le> physical"
proof -
  obtain a b where "memory_fields (map split_whitespace (str_lines (the (read ''/proc/meminfo''))))
      (None, None) = (a, b)" by fastforce
  then show ?thesis
    using assms
    by (auto simp: memory_usage_def result_bind_Inr with_context_Inr Let_def saturating_sub_def)
qed

lemma scale_unit_bounds:
  assumes "k \<le> 4"
  shows "snd (scale_unit v k) \<le> 4
     \<and> (snd (scale_unit v k) < 4 \<longrightarrow> fst (scale_unit v k) < 1024)
     \<and> fst (scale_unit v k) * 1024 ^ snd (scale_unit v k) = v * 1024 ^ k"
  using assms
proof (induction v k rule: scale_unit.induct)
  case (1 v k)
  show ?case
  proof (cases "v \<ge> 1024 \<and> k < length units - 1")
    case True
    then have "scale_unit v k = scale_unit (v / 1024) (k + 1)"
      by (subst scale_unit.simps) simp
    moreover have "k + 1 \<le> 4" using True by (simp add: units_def)
    ultimately show ?thesis using 1 True by simp
  next
    case False
    then have "scale_unit v k = (v, k)" by (subst scale_unit.simps) auto
    then show ?thesis using False 1 by (auto simp: units_def)
  qed
qed

end
