(* ===== verification/Compactor_Keys.thy ===== *)
theory Compactor_Keys
  imports Parquet_Store "HOL-Library.Char_ord" "HOL-Library.List_Lexorder"
begin

section \<open>Compaction: keys, partitions and the order of rows\<close>

text \<open>
  The pure half of \<open>src/compactor.rs\<close>: its options and data, the classification of object
  keys, the grouping of sources into hourly partitions, the decision which partitions to
  compact, and the reordering of a batch. A \<open>DateTime\<close> counts nanoseconds. chrono's parsers
  and the arrow kernels are parameters.
\<close>

subsection \<open>Data\<close>

record compactor_options =
  co_bucket :: string
  co_prefix :: string
  co_retention_prefix :: string
  co_region :: string
  co_minimum_files :: nat
  co_minimum_small_files :: nat
  co_small_file_mb :: nat
  co_settle_minutes :: int
  co_lookback_hours :: int
  co_checkpoint_key :: string
  co_batch_rows :: nat
  co_execute :: bool
  co_max_partitions :: nat

definition default_compactor_options :: compactor_options where
  "default_compactor_options =
     \<lparr>co_bucket = ''coin-data-196920285698-ap-southeast-1-an'', co_prefix = ''parquet/rust'',
      co_retention_prefix = ''parquet/compaction-source'', co_region = ''ap-southeast-1'',
      co_minimum_files = 20, co_minimum_small_files = 10, co_small_file_mb = 8, co_settle_minutes = 10,
      co_lookback_hours = 48, co_checkpoint_key = ''parquet/compaction-source-control/checkpoint.json'',
      co_batch_rows = 262144, co_execute = False, co_max_partitions = 0\<rparr>"

record source =
  src_key :: string
  src_bytes :: nat

record partition =
  part_prefix :: string
  part_hour :: datetime
  part_sources :: "source list"

record partition_checkpoint =
  pc_hour :: datetime
  pc_source_keys :: "string list"
  pc_source_bytes :: nat
  pc_completed_at :: datetime

record checkpoint =
  ck_version :: nat
  ck_updated_at :: "datetime option"
  ck_partitions :: "string \<rightharpoonup> partition_checkpoint"

record completion =
  cm_completed_at :: datetime
  cm_output_key :: string
  cm_input_files :: nat
  cm_input_bytes :: nat
  cm_rows :: nat

definition output_name :: string where
  "output_name = ''compacted.parquet''"

definition success_name :: string where
  "success_name = ''_COMPACTION_SUCCESS.json''"

definition minutes :: "int \<Rightarrow> int" where
  "minutes n = n * 60000000000"

definition hours :: "int \<Rightarrow> int" where
  "hours n = n * 3600000000000"

definition partition_bytes :: "partition \<Rightarrow> nat" where
  "partition_bytes p = sum_list (map src_bytes (part_sources p))"

definition checkpoint_entry :: "datetime \<Rightarrow> partition \<Rightarrow> partition_checkpoint" where
  "checkpoint_entry now p =
     \<lparr>pc_hour = part_hour p, pc_source_keys = sort (map src_key (part_sources p)),
      pc_source_bytes = partition_bytes p, pc_completed_at = now\<rparr>"

definition matches :: "partition_checkpoint \<Rightarrow> partition \<Rightarrow> bool" where
  "matches e p \<longleftrightarrow>
     (let keys = sort (map src_key (part_sources p)) in
      pc_hour e = part_hour p \<and> pc_source_bytes e = partition_bytes p \<and> pc_source_keys e = keys)"

definition validate_options :: "compactor_options \<Rightarrow> unit result" where
  "validate_options opts =
     (if co_bucket opts = [] \<or> trim_matches CHR ''/'' (co_prefix opts) = []
      then Inl ''bucket and prefix must not be empty''
      else if co_minimum_files opts = 0 \<or> co_minimum_small_files opts = 0
           \<or> co_small_file_mb opts = 0 \<or> co_batch_rows opts = 0
           \<or> co_settle_minutes opts < 0 \<or> co_lookback_hours opts \<le> 0
           \<or> trim_matches CHR ''/'' (co_checkpoint_key opts) = []
      then Inl ''compaction limits must be positive''
      else Inr ())"

subsection \<open>Keys\<close>

definition is_source_key :: "string \<Rightarrow> bool" where
  "is_source_key key \<longleftrightarrow>
     ends_with key ''.parquet'' \<and> starts_with (last_component CHR ''/'' key) ''segment-''"

record chrono = calendar +
  parse_date :: "string \<Rightarrow> int option"
  date_naive :: "datetime \<Rightarrow> int"

definition parse_date_component :: "chrono \<Rightarrow> string \<Rightarrow> int option" where
  "parse_date_component ch component =
     parse_date ch (case strip_prefix component ''date='' of None \<Rightarrow> component | Some v \<Rightarrow> v)"

text \<open>The text \<open>"{day} {hour}:00:00"\<close> that the archiver and the compactor parse.\<close>

definition hour_text :: "string \<Rightarrow> string \<Rightarrow> string" where
  "hour_text d h = d @ '' '' @ h @ '':00:00''"

definition partition_from_key :: "('a calendar_scheme) \<Rightarrow> string \<Rightarrow> (string \<times> datetime) option" where
  "partition_from_key cal key =
     Option.bind (rsplit_once CHR ''/'' key) (\<lambda>(partition, _).
     Option.bind (rsplit_once CHR ''/'' partition) (\<lambda>(d, h).
     Option.bind (rsplit_once CHR ''/'' d) (\<lambda>(_, d).
     Option.bind (cal_parse_naive cal (hour_text d h)) (\<lambda>parsed. Some (partition, parsed)))))"

subsection \<open>Grouping\<close>

text \<open>A \<open>BTreeMap\<close> is an association list sorted by its keys.\<close>

fun group_source :: "string \<Rightarrow> datetime \<Rightarrow> source \<Rightarrow> (string \<times> partition) list \<Rightarrow> (string \<times> partition) list" where
  "group_source k h s [] = [(k, \<lparr>part_prefix = k, part_hour = h, part_sources = [s]\<rparr>)]"
| "group_source k h s ((k', p) # ps) =
     (if k = k' then (k', p\<lparr>part_sources := part_sources p @ [s]\<rparr>) # ps
      else if k < k' then (k, \<lparr>part_prefix = k, part_hour = h, part_sources = [s]\<rparr>) # (k', p) # ps
      else (k', p) # group_source k h s ps)"

text \<open>One listed object: \<open>cutoff\<close> is the settling time.\<close>

definition scan_object ::
  "('a calendar_scheme) \<Rightarrow> datetime \<Rightarrow> string option \<times> int option \<Rightarrow>
   (string \<times> partition) list \<Rightarrow> (string \<times> partition) list" where
  "scan_object cal cutoff obj grouped =
     (case fst obj of
        None \<Rightarrow> grouped
      | Some key \<Rightarrow>
          if \<not> is_source_key key then grouped
          else (case partition_from_key cal key of
             None \<Rightarrow> grouped
           | Some (pre, h) \<Rightarrow>
               if h + hours 1 > cutoff then grouped
               else (let sz = (case snd obj of None \<Rightarrow> 0 | Some n \<Rightarrow> n);
                         bytes = (if 0 \<le> sz then nat sz else 0)
                     in group_source pre h \<lparr>src_key = key, src_bytes = bytes\<rparr> grouped)))"

definition scan_objects ::
  "('a calendar_scheme) \<Rightarrow> datetime \<Rightarrow> (string option \<times> int option) list \<Rightarrow>
   (string \<times> partition) list \<Rightarrow> (string \<times> partition) list" where
  "scan_objects cal cutoff objs grouped = fold (scan_object cal cutoff) objs grouped"

definition worth_compacting :: "compactor_options \<Rightarrow> partition \<Rightarrow> bool" where
  "worth_compacting opts p \<longleftrightarrow>
     (let small_limit = saturating_mul (co_small_file_mb opts) (1024 * 1024);
          small = length (filter (\<lambda>s. src_bytes s < small_limit) (part_sources p))
      in length (part_sources p) \<ge> co_minimum_files opts \<or> small \<ge> co_minimum_small_files opts)"

definition already_done :: "checkpoint \<Rightarrow> partition \<Rightarrow> bool" where
  "already_done ck p =
     (case ck_partitions ck (part_prefix p) of None \<Rightarrow> False | Some e \<Rightarrow> matches e p)"

definition select_partitions :: "compactor_options \<Rightarrow> checkpoint \<Rightarrow> (string \<times> partition) list \<Rightarrow> partition list" where
  "select_partitions opts ck grouped =
     filter (\<lambda>p. \<not> already_done ck p) (filter (worth_compacting opts) (map snd grouped))"

definition prune_checkpoint :: "compactor_options \<Rightarrow> datetime \<Rightarrow> checkpoint \<Rightarrow> checkpoint" where
  "prune_checkpoint opts now ck =
     (let cutoff = now - hours (co_lookback_hours opts + 24) in
      ck\<lparr>ck_partitions := (\<lambda>k. case ck_partitions ck k of
           None \<Rightarrow> None | Some e \<Rightarrow> if pc_hour e \<ge> cutoff then Some e else None)\<rparr>)"

subsection \<open>Facts about keys\<close>

lemma matches_entry: "matches (checkpoint_entry now p) p"
  by (simp add: matches_def checkpoint_entry_def)

lemma rsplit_once_rebuild: "rsplit_once c s = Some (a, b) \<Longrightarrow> s = a @ c # b"
  by (simp add: rsplit_once_Some)

lemma partition_from_key_layout:
  assumes "CHR ''/'' \<notin> set name" and "CHR ''/'' \<notin> set h" and "CHR ''/'' \<notin> set d"
  shows "partition_from_key cal (base @ CHR ''/'' # d @ CHR ''/'' # h @ CHR ''/'' # name) =
    map_option (\<lambda>t. (base @ CHR ''/'' # d @ CHR ''/'' # h, t)) (cal_parse_naive cal (hour_text d h))"
proof -
  have "rsplit_once CHR ''/'' ((base @ CHR ''/'' # d @ CHR ''/'' # h) @ CHR ''/'' # name) =
      Some (base @ CHR ''/'' # d @ CHR ''/'' # h, name)"
    by (rule rsplit_once_append [OF assms(1)])
  moreover have "rsplit_once CHR ''/'' ((base @ CHR ''/'' # d) @ CHR ''/'' # h) =
      Some (base @ CHR ''/'' # d, h)"
    by (rule rsplit_once_append [OF assms(2)])
  moreover have "rsplit_once CHR ''/'' (base @ CHR ''/'' # d) = Some (base, d)"
    by (rule rsplit_once_append [OF assms(3)])
  ultimately show ?thesis
    by (simp add: partition_from_key_def bind_map_option [symmetric] map_conv_bind_option comp_def)
qed

lemma partition_from_key_Some:
  assumes "partition_from_key cal key = Some (p, t)"
  shows "\<exists>base d h name. key = p @ CHR ''/'' # name \<and> p = base @ CHR ''/'' # d @ CHR ''/'' # h
      \<and> CHR ''/'' \<notin> set name \<and> CHR ''/'' \<notin> set h \<and> CHR ''/'' \<notin> set d
      \<and> cal_parse_naive cal (hour_text d h) = Some t"
  using assms by (auto simp: partition_from_key_def bind_eq_Some_conv rsplit_once_Some) blast

lemma group_source_keys: "fst ` set (group_source k h s g) = insert k (fst ` set g)"
proof (induction g)
  case (Cons q g)
  then show ?case by (cases q) (auto simp: insert_commute)
qed simp

lemma group_source_sorted:
  "sorted_wrt (<) (map fst g) \<Longrightarrow> sorted_wrt (<) (map fst (group_source k h s g))"
proof (induction g)
  case (Cons q g)
  obtain k' p where q: "q = (k', p)" by fastforce
  have rest: "\<forall>x \<in> set (map fst (group_source k h s g)). k' < x" if "k' < k"
    using Cons.prems that by (simp only: set_map group_source_keys) (simp add: q)
  show ?case
  proof (cases k k' rule: linorder_cases)
    case less
    then show ?thesis using Cons.prems q by (auto intro: less_trans)
  next
    case equal
    then show ?thesis using Cons.prems q by simp
  next
    case greater
    have "sorted_wrt (<) (map fst (group_source k h s g))"
      using Cons by (simp add: q)
    with rest greater show ?thesis by (simp add: q less_imp_not_eq2 less_not_sym)
  qed
qed simp

definition grouped_sources :: "(string \<times> partition) list \<Rightarrow> source list" where
  "grouped_sources g = concat (map (\<lambda>(k, p). part_sources p) g)"

lemma group_source_mset:
  "mset (grouped_sources (group_source k h s g)) = add_mset s (mset (grouped_sources g))"
  by (induction g) (auto simp: grouped_sources_def)

subsection \<open>Facts about the grouping\<close>

text \<open>The source that a listed object stands for, specified without the map.\<close>

definition source_of :: "('a calendar_scheme) \<Rightarrow> datetime \<Rightarrow> string option \<times> int option \<Rightarrow> source option" where
  "source_of cal cutoff obj =
     (case obj of
        (Some key, sz) \<Rightarrow>
          if is_source_key key
             \<and> (case partition_from_key cal key of Some (_, h) \<Rightarrow> h + hours 1 \<le> cutoff | None \<Rightarrow> False)
          then Some \<lparr>src_key = key, src_bytes = nat (case sz of None \<Rightarrow> 0 | Some n \<Rightarrow> n)\<rparr>
          else None
      | _ \<Rightarrow> None)"

definition partition_ok :: "('a calendar_scheme) \<Rightarrow> datetime \<Rightarrow> string \<times> partition \<Rightarrow> bool" where
  "partition_ok cal cutoff kp = (case kp of (k, p) \<Rightarrow>
     part_prefix p = k \<and> part_sources p \<noteq> [] \<and> part_hour p + hours 1 \<le> cutoff
     \<and> list_all (\<lambda>s. is_source_key (src_key s)
          \<and> partition_from_key cal (src_key s) = Some (k, part_hour p)) (part_sources p))"

definition grouping_ok :: "('a calendar_scheme) \<Rightarrow> datetime \<Rightarrow> (string \<times> partition) list \<Rightarrow> bool" where
  "grouping_ok cal cutoff g \<longleftrightarrow> sorted_wrt (<) (map fst g) \<and> list_all (partition_ok cal cutoff) g"

text \<open>The hour of a partition is a function of its prefix.\<close>

lemma partition_hour_unique:
  assumes "partition_from_key cal k = Some (p, h)" and "partition_from_key cal k' = Some (p, h')"
  shows "h = h'"
proof -
  have tail: "h = h' \<and> d = d' " if "base @ CHR ''/'' # d @ CHR ''/'' # h = base' @ CHR ''/'' # d' @ CHR ''/'' # h'"
    "CHR ''/'' \<notin> set h" "CHR ''/'' \<notin> set h'" "CHR ''/'' \<notin> set d" "CHR ''/'' \<notin> set d'"
    for base base' d d' h h' :: string
  proof -
    have "rsplit_once CHR ''/'' ((base @ CHR ''/'' # d) @ CHR ''/'' # h) =
        rsplit_once CHR ''/'' ((base' @ CHR ''/'' # d') @ CHR ''/'' # h')"
      using that(1) by simp
    then have e: "base @ CHR ''/'' # d = base' @ CHR ''/'' # d'" "h = h'"
      by (simp_all only: rsplit_once_append [OF that(2)] rsplit_once_append [OF that(3)] option.inject prod.inject)
    have "rsplit_once CHR ''/'' (base @ CHR ''/'' # d) = rsplit_once CHR ''/'' (base' @ CHR ''/'' # d')"
      using e(1) by simp
    with e(2) show ?thesis
      by (simp only: rsplit_once_append [OF that(4)] rsplit_once_append [OF that(5)] option.inject prod.inject)
  qed
  from partition_from_key_Some [OF assms(1)] partition_from_key_Some [OF assms(2)] tail
  show ?thesis by (metis option.inject)
qed

lemma group_source_ok:
  assumes "list_all (partition_ok cal cutoff) g" and "is_source_key (src_key s)"
    and "partition_from_key cal (src_key s) = Some (k, h)" and "h + hours 1 \<le> cutoff"
  shows "list_all (partition_ok cal cutoff) (group_source k h s g)"
  using assms
proof (induction g)
  case (Cons q g)
  obtain k' p where q: "q = (k', p)" by fastforce
  have p: "partition_ok cal cutoff (k', p)" using Cons.prems(1) q by simp
  have "h = part_hour p" if "k = k'"
  proof -
    obtain r where "r \<in> set (part_sources p)" using p
      by (cases "part_sources p") (auto simp: partition_ok_def)
    then have "partition_from_key cal (src_key r) = Some (k, part_hour p)"
      using p that by (auto simp: partition_ok_def list_all_iff)
    with Cons.prems(3) show ?thesis by (rule partition_hour_unique)
  qed
  with Cons p q show ?case by (auto simp: partition_ok_def)
qed (simp add: partition_ok_def)

lemma scan_object_ok:
  assumes "grouping_ok cal cutoff g"
  shows "grouping_ok cal cutoff (scan_object cal cutoff obj g)"
    and "mset (grouped_sources (scan_object cal cutoff obj g)) =
      mset (grouped_sources g) + mset (case source_of cal cutoff obj of None \<Rightarrow> [] | Some s \<Rightarrow> [s])"
proof -
  obtain key sz where obj: "obj = (key, sz)" by fastforce
  show "grouping_ok cal cutoff (scan_object cal cutoff obj g)"
    using assms unfolding obj
    by (auto simp: scan_object_def grouping_ok_def Let_def
        intro!: group_source_sorted group_source_ok split: option.splits)
  show "mset (grouped_sources (scan_object cal cutoff obj g)) =
      mset (grouped_sources g) + mset (case source_of cal cutoff obj of None \<Rightarrow> [] | Some s \<Rightarrow> [s])"
    unfolding obj
    by (auto simp: scan_object_def source_of_def group_source_mset Let_def split: option.splits prod.splits)
qed

lemma scan_objects_ok:
  assumes "grouping_ok cal cutoff g"
  shows "grouping_ok cal cutoff (scan_objects cal cutoff objs g)
    \<and> mset (grouped_sources (scan_objects cal cutoff objs g)) =
      mset (grouped_sources g) + mset (List.map_filter (source_of cal cutoff) objs)"
  using assms
proof (induction objs arbitrary: g)
  case (Cons obj objs)
  note one = scan_object_ok [OF Cons.prems, of obj]
  from Cons.IH [OF one(1)] one(2) show ?case
    by (auto simp: scan_objects_def map_filter_simps split: option.splits)
qed (simp add: scan_objects_def map_filter_simps)

text \<open>
  C23. Scanning the listed objects groups exactly the settled segment files: no object is
  dropped or counted twice, the partitions come in the order of their prefixes, and every source
  of a partition lies in the hour directory that the partition names.
\<close>

theorem scan_groups_settled_segments:
  "mset (grouped_sources (scan_objects cal cutoff objs [])) =
     mset (List.map_filter (source_of cal cutoff) objs)
   \<and> sorted_wrt (<) (map fst (scan_objects cal cutoff objs []))
   \<and> list_all (partition_ok cal cutoff) (scan_objects cal cutoff objs [])"
  using scan_objects_ok [of cal cutoff "[]" objs]
  by (simp add: grouping_ok_def grouped_sources_def)

subsection \<open>Reordering a batch\<close>

text \<open>
  \<open>lexsort_to_indices\<close> and \<open>take\<close> are arrow kernels. Their documented behaviour is
  \<open>kernel_laws\<close>: the indices are a permutation of the rows that no later row should precede
  (ascending, nulls first, column by column), and \<open>take\<close> picks the rows of the indices.
\<close>

record arrow_kernels = arrow_lib +
  lexsort_to_indices :: "arrow_array list \<Rightarrow> nat list result"
  take_array :: "arrow_array \<Rightarrow> nat list \<Rightarrow> arrow_array result"

fun array_length :: "arrow_array \<Rightarrow> nat" where
  "array_length (TimestampMicrosecondArray xs _) = length xs"
| "array_length (StringArray xs) = length xs"
| "array_length (UInt64Array xs) = length xs"
| "array_length (Int64Array xs) = length xs"
| "array_length (Int32Array xs) = length xs"
| "array_length (Decimal128Array xs _ _) = length xs"
| "array_length (BooleanArray xs) = length xs"

fun array_take :: "nat list \<Rightarrow> arrow_array \<Rightarrow> arrow_array" where
  "array_take is (TimestampMicrosecondArray xs tz) = TimestampMicrosecondArray (map ((!) xs) is) tz"
| "array_take is (StringArray xs) = StringArray (map ((!) xs) is)"
| "array_take is (UInt64Array xs) = UInt64Array (map ((!) xs) is)"
| "array_take is (Int64Array xs) = Int64Array (map ((!) xs) is)"
| "array_take is (Int32Array xs) = Int32Array (map ((!) xs) is)"
| "array_take is (Decimal128Array xs p s) = Decimal128Array (map ((!) xs) is) p s"
| "array_take is (BooleanArray xs) = BooleanArray (map ((!) xs) is)"

fun index_of :: "schema \<Rightarrow> string \<Rightarrow> nat option" where
  "index_of [] name = None"
| "index_of (f # fs) name = (if field_name f = name then Some 0 else map_option Suc (index_of fs name))"

definition time_columns :: "schema \<Rightarrow> nat list" where
  "time_columns schema =
     List.map_filter (index_of schema) [''event_time'', ''observed_at'', ''received_at'']"

definition sort_columns :: "record_batch \<Rightarrow> nat \<Rightarrow> arrow_array list" where
  "sort_columns batch symbol =
     batch_columns batch ! symbol #
     map ((!) (batch_columns batch)) (time_columns (batch_schema batch))"

definition reorder_batch :: "arrow_kernels \<Rightarrow> record_batch \<Rightarrow> record_batch result" where
  "reorder_batch lib batch =
     (case index_of (batch_schema batch) ''symbol'' of
        None \<Rightarrow> Inr batch
      | Some symbol \<Rightarrow>
          result_bind (lexsort_to_indices lib (sort_columns batch symbol)) (\<lambda>indices.
          result_bind (result_map (\<lambda>column. take_array lib column indices) (batch_columns batch)) (\<lambda>columns.
            if try_new_ok lib (batch_schema batch) columns
            then Inr (batch\<lparr>batch_columns := columns\<rparr>)
            else Inl ''RecordBatch::try_new'')))"

fun cell_less :: "data_value \<Rightarrow> data_value \<Rightarrow> bool" where
  "cell_less Null b = (b \<noteq> Null)"
| "cell_less (TimestampMicros a) (TimestampMicros b) = (a < b)"
| "cell_less (Text a) (Text b) = (a < b)"
| "cell_less (U64 a) (U64 b) = (a < b)"
| "cell_less (I64 a) (I64 b) = (a < b)"
| "cell_less (Decimal a) (Decimal b) = (a < b)"
| "cell_less (Boolean a) (Boolean b) = (a < b)"
| "cell_less _ _ = False"

fun row_less :: "arrow_array list \<Rightarrow> nat \<Rightarrow> nat \<Rightarrow> bool" where
  "row_less [] i j = False"
| "row_less (c # cs) i j =
     (cell_less (read_cell c i) (read_cell c j)
      \<or> (\<not> cell_less (read_cell c j) (read_cell c i) \<and> row_less cs i j))"

definition rows_sorted :: "arrow_array list \<Rightarrow> nat list \<Rightarrow> bool" where
  "rows_sorted cs is = sorted_wrt (\<lambda>i j. \<not> row_less cs j i) is"

definition kernel_laws :: "arrow_kernels \<Rightarrow> bool" where
  "kernel_laws lib \<longleftrightarrow>
     (\<forall>c cs is. lexsort_to_indices lib (c # cs) = Inr is \<longrightarrow>
        mset is = mset [0..<array_length c] \<and> rows_sorted (c # cs) is)
     \<and> (\<forall>c is c'. take_array lib c is = Inr c' \<longrightarrow> c' = array_take is c)"

definition batch_num_rows :: "record_batch \<Rightarrow> nat" where
  "batch_num_rows b = (case batch_columns b of [] \<Rightarrow> 0 | c # _ \<Rightarrow> array_length c)"

definition batch_row :: "record_batch \<Rightarrow> nat \<Rightarrow> data_value list" where
  "batch_row b i = map (\<lambda>c. read_cell c i) (batch_columns b)"

definition batch_rows :: "record_batch \<Rightarrow> data_value list multiset" where
  "batch_rows b = mset (map (batch_row b) [0..<batch_num_rows b])"

definition batch_ok :: "record_batch \<Rightarrow> bool" where
  "batch_ok b \<longleftrightarrow> length (batch_columns b) = length (batch_schema b)
     \<and> list_all (\<lambda>c. array_length c = batch_num_rows b) (batch_columns b)"

lemma read_cell_take: "i < length is \<Longrightarrow> read_cell (array_take is c) i = read_cell c (is ! i)"
  by (cases c) simp_all

lemma array_length_take [simp]: "array_length (array_take is c) = length is"
  by (cases c) simp_all

lemma row_less_take:
  "i < length is \<Longrightarrow> j < length is \<Longrightarrow>
   row_less (map (array_take is) cs) i j = row_less cs (is ! i) (is ! j)"
  by (induction cs) (simp_all add: read_cell_take)

lemma index_of_bound: "index_of fs name = Some i \<Longrightarrow> i < length fs"
  by (induction fs arbitrary: i) (auto split: if_splits)

lemma map_filter_index_bound: "i \<in> set (List.map_filter (index_of fs) names) \<Longrightarrow> i < length fs"
  by (auto simp: map_filter_def dest: index_of_bound)

lemma time_columns_bound: "i \<in> set (time_columns fs) \<Longrightarrow> i < length fs"
  unfolding time_columns_def by (rule map_filter_index_bound)

lemma batch_rows_take:
  assumes "batch_ok b" and "set is \<subseteq> {0..<batch_num_rows b}"
  shows "map (batch_row (b\<lparr>batch_columns := map (array_take is) (batch_columns b)\<rparr>)) [0..<length is] =
    map (batch_row b) is"
  by (rule nth_equalityI) (simp_all add: batch_row_def read_cell_take)

lemma sort_columns_take:
  assumes "batch_ok b" and "symbol < length (batch_schema b)"
  shows "sort_columns (b\<lparr>batch_columns := map (array_take is) (batch_columns b)\<rparr>) symbol =
    map (array_take is) (sort_columns b symbol)"
  using assms by (auto simp: sort_columns_def batch_ok_def dest!: time_columns_bound)

lemma rows_sorted_take:
  "rows_sorted cs is \<Longrightarrow> rows_sorted (map (array_take is) cs) [0..<length is]"
  by (simp add: rows_sorted_def sorted_wrt_iff_nth_less row_less_take)

lemma result_map_take:
  assumes "kernel_laws lib" and "result_map (\<lambda>c. take_array lib c is) cs = Inr cs'"
  shows "cs' = map (array_take is) cs"
  using assms
  by (auto simp: result_map_Inr kernel_laws_def list_all2_conv_all_nth list_eq_iff_nth_eq)

lemma reorder_batch_Inr:
  assumes laws: "kernel_laws lib" and ok: "batch_ok b" and r: "reorder_batch lib b = Inr b'"
    and symbol: "index_of (batch_schema b) ''symbol'' = Some symbol"
  shows "\<exists>is. mset is = mset [0..<batch_num_rows b] \<and> rows_sorted (sort_columns b symbol) is
    \<and> b' = b\<lparr>batch_columns := map (array_take is) (batch_columns b)\<rparr>"
proof -
  have bound: "symbol < length (batch_columns b)"
    using ok index_of_bound [OF symbol] by (simp add: batch_ok_def)
  then have len: "array_length (batch_columns b ! symbol) = batch_num_rows b"
    using ok by (simp add: batch_ok_def list_all_length)
  from r symbol obtain "is" cs where i: "lexsort_to_indices lib (sort_columns b symbol) = Inr is"
      and t: "result_map (\<lambda>c. take_array lib c is) (batch_columns b) = Inr cs"
      and b': "b' = b\<lparr>batch_columns := cs\<rparr>"
    by (auto simp: reorder_batch_def result_bind_Inr split: if_splits)
  have "mset is = mset [0..<array_length (batch_columns b ! symbol)]
      \<and> rows_sorted (sort_columns b symbol) is"
    using laws [unfolded kernel_laws_def, THEN conjunct1, rule_format, OF i [unfolded sort_columns_def]]
    unfolding sort_columns_def .
  then have "mset is = mset [0..<batch_num_rows b] \<and> rows_sorted (sort_columns b symbol) is"
    unfolding len .
  with b' result_map_take [OF laws t] show ?thesis by blast
qed

lemma batch_num_rows_take:
  "batch_columns b \<noteq> [] \<Longrightarrow>
   batch_num_rows (b\<lparr>batch_columns := map (array_take is) (batch_columns b)\<rparr>) = length is"
  by (cases "batch_columns b") (simp_all add: batch_num_rows_def)

lemma reorder_batch_keeps:
  assumes laws: "kernel_laws lib" and ok: "batch_ok b" and r: "reorder_batch lib b = Inr b'"
  shows "batch_schema b' = batch_schema b \<and> batch_num_rows b' = batch_num_rows b
    \<and> batch_rows b' = batch_rows b \<and> batch_ok b'"
proof (cases "index_of (batch_schema b) ''symbol''")
  case None
  with r ok show ?thesis by (simp add: reorder_batch_def)
next
  case (Some symbol)
  obtain "is" where i: "mset is = mset [0..<batch_num_rows b]"
      and b': "b' = b\<lparr>batch_columns := map (array_take is) (batch_columns b)\<rparr>"
    using reorder_batch_Inr [OF laws ok r Some] by blast
  have ne: "batch_columns b \<noteq> []"
    using ok index_of_bound [OF Some] by (auto simp: batch_ok_def)
  have len: "length is = batch_num_rows b" using i by (metis length_upt minus_nat.diff_0 size_mset)
  have set: "set is \<subseteq> {0..<batch_num_rows b}" using i by (metis mset_eq_setD set_upt subset_refl)
  have n: "batch_num_rows b' = length is" unfolding b' by (rule batch_num_rows_take [OF ne])
  have "map (batch_row b') [0..<length is] = map (batch_row b) is"
    unfolding b' by (rule batch_rows_take [OF ok set])
  then have "batch_rows b' = image_mset (batch_row b) (mset is)"
    by (simp add: batch_rows_def n flip: mset_map)
  then have "batch_rows b' = batch_rows b" by (simp add: i batch_rows_def)
  moreover have "batch_ok b'"
    using ok n unfolding batch_ok_def by (simp add: b' list_all_iff)
  ultimately show ?thesis using n len by (simp add: b')
qed

text \<open>
  What the reordering is for, in terms of field names: a row comes before another when its value of
  the first named field that differs is smaller. A name that the schema does not have counts for
  nothing.
\<close>

definition field_column :: "record_batch \<Rightarrow> string \<Rightarrow> arrow_array option" where
  "field_column b name = map_of (zip (map field_name (batch_schema b)) (batch_columns b)) name"

fun row_before :: "record_batch \<Rightarrow> string list \<Rightarrow> nat \<Rightarrow> nat \<Rightarrow> bool" where
  "row_before b [] i j = False"
| "row_before b (name # names) i j =
     (case field_column b name of
        None \<Rightarrow> row_before b names i j
      | Some column \<Rightarrow>
          cell_less (read_cell column i) (read_cell column j)
          \<or> \<not> cell_less (read_cell column j) (read_cell column i) \<and> row_before b names i j)"

lemma row_before_less: "row_before b names i j = row_less (List.map_filter (field_column b) names) i j"
  by (induction names) (simp_all add: map_filter_simps split: option.splits)

lemma map_of_index_of:
  "length fs = length cs \<Longrightarrow>
   map_of (zip (map field_name fs) cs) name = map_option ((!) cs) (index_of fs name)"
proof (induction fs arbitrary: cs)
  case (Cons f fs)
  then show ?case by (cases cs) (auto simp: option.map_comp comp_def)
qed simp

lemma field_column_index:
  "batch_ok b \<Longrightarrow> field_column b name = map_option ((!) (batch_columns b)) (index_of (batch_schema b) name)"
  by (simp add: field_column_def batch_ok_def map_of_index_of)

lemma map_filter_field_column:
  "batch_ok b \<Longrightarrow> List.map_filter (field_column b) names =
   map ((!) (batch_columns b)) (List.map_filter (index_of (batch_schema b)) names)"
  by (induction names) (simp_all add: map_filter_simps field_column_index split: option.splits)

lemma sort_columns_fields:
  assumes "batch_ok b" and "index_of (batch_schema b) ''symbol'' = Some symbol"
  shows "sort_columns b symbol =
    List.map_filter (field_column b) [''symbol'', ''event_time'', ''observed_at'', ''received_at'']"
  unfolding map_filter_field_column [OF assms(1)]
  by (simp add: sort_columns_def time_columns_def map_filter_simps assms(2))

lemma reorder_batch_sorted:
  assumes "kernel_laws lib" and "batch_ok b" and "reorder_batch lib b = Inr b'"
    and "index_of (batch_schema b) ''symbol'' = Some symbol"
  shows "rows_sorted (sort_columns b' symbol) [0..<batch_num_rows b']"
proof -
  obtain "is" where i: "rows_sorted (sort_columns b symbol) is"
      and b': "b' = b\<lparr>batch_columns := map (array_take is) (batch_columns b)\<rparr>"
    using reorder_batch_Inr [OF assms] by blast
  have bound: "symbol < length (batch_schema b)" by (rule index_of_bound [OF assms(4)])
  then have "batch_num_rows b' = length is"
    using assms(2) unfolding b' by (intro batch_num_rows_take) (auto simp: batch_ok_def)
  moreover have "sort_columns b' symbol = map (array_take is) (sort_columns b symbol)"
    unfolding b' by (rule sort_columns_take [OF assms(2) bound])
  ultimately show ?thesis using rows_sorted_take [OF i] by simp
qed

text \<open>
  C24. Reordering a batch keeps the schema and exactly the same rows. With a symbol column no row
  comes after one that it should precede: the rows ascend by symbol, rows of the same symbol by
  event time, then by observation time, then by time of receipt, as far as the schema has these
  fields. Without a symbol column the batch is left as it is.
\<close>

theorem reorder_batch_sorts:
  assumes "kernel_laws lib" and "batch_ok b" and "reorder_batch lib b = Inr b'"
  shows "batch_schema b' = batch_schema b \<and> batch_rows b' = batch_rows b
    \<and> (if field_column b ''symbol'' = None then b' = b
       else \<forall>j < batch_num_rows b. \<forall>i < j.
         \<not> row_before b' [''symbol'', ''event_time'', ''observed_at'', ''received_at''] j i)"
proof (cases "index_of (batch_schema b) ''symbol''")
  case None
  then have "field_column b ''symbol'' = None" by (simp add: field_column_index [OF assms(2)])
  with None show ?thesis using assms(3) by (simp add: reorder_batch_def)
next
  case (Some symbol)
  note keeps = reorder_batch_keeps [OF assms]
  have "rows_sorted (sort_columns b' symbol) [0..<batch_num_rows b]"
    using reorder_batch_sorted [OF assms Some] keeps by simp
  then have "rows_sorted (List.map_filter (field_column b')
      [''symbol'', ''event_time'', ''observed_at'', ''received_at'']) [0..<batch_num_rows b]"
    using sort_columns_fields [of b' symbol] keeps Some by simp
  then show ?thesis
    using keeps Some unfolding rows_sorted_def sorted_wrt_iff_nth_less
    by (simp add: row_before_less field_column_index [OF assms(2)] del: row_before.simps)
qed

text \<open>Kernels that compute, for the witnesses: insertion of row numbers.\<close>

fun insert_row :: "arrow_array list \<Rightarrow> nat \<Rightarrow> nat list \<Rightarrow> nat list" where
  "insert_row cs i [] = [i]"
| "insert_row cs i (j # js) = (if row_less cs j i then j # insert_row cs i js else i # j # js)"

definition sample_kernels :: arrow_kernels where
  "sample_kernels = \<lparr>precision_and_scale_ok = (\<lambda>_ _. True), try_new_ok = (\<lambda>_ _. True),
     encode_parquet = (\<lambda>_. []),
     lexsort_to_indices = (\<lambda>cs. case cs of
         [] \<Rightarrow> Inl ''no columns''
       | c # _ \<Rightarrow> (let is = foldr (insert_row cs) [0..<array_length c] [] in
           if rows_sorted cs is then Inr is else Inl ''order'')),
     take_array = (\<lambda>c is. Inr (array_take is c))\<rparr>"

lemma mset_insert_row [simp]: "mset (insert_row cs i js) = add_mset i (mset js)"
  by (induction js) auto

lemma mset_foldr_insert_row [simp]: "mset (foldr (insert_row cs) xs []) = mset xs"
  by (induction xs) auto

lemma sample_kernels_laws: "kernel_laws sample_kernels"
  by (auto simp: kernel_laws_def sample_kernels_def Let_def split: if_splits)

definition sample_batch :: record_batch where
  "sample_batch = \<lparr>batch_schema = [new_field ''symbol'' Utf8 True, new_field ''event_time'' Int64 True],
     batch_columns = [StringArray [Some ''B'', Some ''A'', Some ''A''], Int64Array [Some 1, Some 2, None]]\<rparr>"

definition sorted_sample_batch :: record_batch where
  "sorted_sample_batch = sample_batch\<lparr>batch_columns :=
     [StringArray [Some ''A'', Some ''A'', Some ''B''], Int64Array [None, Some 2, Some 1]]\<rparr>"

lemma reorder_sample_batch: "reorder_batch sample_kernels sample_batch = Inr sorted_sample_batch"
  by code_simp

theorem reorder_batch_sorts_witness:
  "batch_rows sorted_sample_batch = batch_rows sample_batch
   \<and> \<not> row_before sorted_sample_batch [''symbol'', ''event_time'', ''observed_at'', ''received_at''] 1 0
   \<and> \<not> row_before sorted_sample_batch [''symbol'', ''event_time'', ''observed_at'', ''received_at''] 2 1"
proof -
  have "batch_ok sample_batch" and n: "batch_num_rows sample_batch = 3"
      and "field_column sample_batch ''symbol'' \<noteq> None"
    by code_simp+
  then show ?thesis
    using reorder_batch_sorts [OF sample_kernels_laws _ reorder_sample_batch]
    by (simp del: row_before.simps)
qed

end
