(* ===== verification/Archive.thy ===== *)
theory Archive
  imports Compactor_Keys Object_Store Writer
begin

section \<open>Uploading segments and freeing the disk\<close>

text \<open>
  \<open>src/archive.rs\<close>: the uploads of finished segments, their markers on disk, and the cleanup
  that deletes what is uploaded and old. A path is the list of its components. The local disk is
  the list of its files and directories; a directory is listed in an order of the operating
  system (\<open>os_order\<close>), and each system call succeeds or fails as \<open>os_ok\<close> says. One upload
  holds the lock, so uploads and cleanups are sequential.
\<close>

subsection \<open>The local disk\<close>

record local_fs =
  lf_files :: "(path \<times> string) list"
  lf_dirs :: "path list"

datatype system_call =
    Read_Dir path | Read_File path | Write_File path | Remove_File path | File_Metadata path

record os =
  os_order :: "path list \<Rightarrow> path list"
  os_ok :: "system_call \<Rightarrow> bool"
  os_total_space :: "nat option"
  os_available_space :: "nat option"

definition file_at :: "local_fs \<Rightarrow> path \<Rightarrow> string option" where
  "file_at fs p = map_of (lf_files fs) p"

definition is_file :: "local_fs \<Rightarrow> path \<Rightarrow> bool" where
  "is_file fs p \<longleftrightarrow> file_at fs p \<noteq> None"

definition is_dir :: "local_fs \<Rightarrow> path \<Rightarrow> bool" where
  "is_dir fs p \<longleftrightarrow> List.member (lf_dirs fs) p"

definition path_exists :: "local_fs \<Rightarrow> path \<Rightarrow> bool" where
  "path_exists fs p \<longleftrightarrow> is_file fs p \<or> is_dir fs p"

definition write_file :: "os \<Rightarrow> local_fs \<Rightarrow> path \<Rightarrow> string \<Rightarrow> local_fs \<times> unit result" where
  "write_file os fs p b =
     (if os_ok os (Write_File p) then (fs\<lparr>lf_files := AList.update p b (lf_files fs)\<rparr>, Inr ())
      else (fs, Inl ''write upload marker''))"

definition remove_file :: "os \<Rightarrow> local_fs \<Rightarrow> path \<Rightarrow> local_fs \<times> unit result" where
  "remove_file os fs p =
     (if os_ok os (Remove_File p) \<and> is_file fs p
      then (fs\<lparr>lf_files := AList.delete p (lf_files fs)\<rparr>, Inr ())
      else (fs, Inl ''remove file''))"

definition read_dir :: "os \<Rightarrow> local_fs \<Rightarrow> path \<Rightarrow> path list result" where
  "read_dir os fs d =
     (if os_ok os (Read_Dir d)
      then Inr (os_order os (filter (\<lambda>p. p \<noteq> [] \<and> butlast p = d) (lf_dirs fs @ map fst (lf_files fs))))
      else Inl ''read_dir'')"

definition path_extension :: "path \<Rightarrow> string option" where
  "path_extension p = (if p = [] then None else file_extension (last p))"

definition is_parquet :: "path \<Rightarrow> bool" where
  "is_parquet p \<longleftrightarrow> path_extension p = Some ''parquet''"

text \<open>
  \<open>parquet_files\<close>: the loop over the stack of directories (its top is the head of the list).
  \<open>None\<close> means that it does not end.
\<close>

partial_function (option) find_parquet ::
  "os \<Rightarrow> local_fs \<Rightarrow> path list \<Rightarrow> path list \<Rightarrow> path list result option" where
  "find_parquet os fs directories files =
     (case directories of
        [] \<Rightarrow> Some (Inr files)
      | d # ds \<Rightarrow>
          if \<not> path_exists fs d then find_parquet os fs ds files
          else (case read_dir os fs d of
                  Inl e \<Rightarrow> Some (Inl e)
                | Inr entries \<Rightarrow>
                    find_parquet os fs (rev (filter (is_dir fs) entries) @ ds)
                      (files @ filter (\<lambda>p. \<not> is_dir fs p \<and> is_parquet p) entries)))"

declare find_parquet.simps [code]

definition parquet_files :: "os \<Rightarrow> local_fs \<Rightarrow> path \<Rightarrow> path list result option" where
  "parquet_files os fs root = find_parquet os fs [root] []"

definition upload_marker :: "path \<Rightarrow> path" where
  "upload_marker p = butlast p @ [last p @ ''.uploaded'']"

definition parent :: "path \<Rightarrow> path option" where
  "parent p = (if p = [] then None else Some (butlast p))"

definition file_name :: "path \<Rightarrow> string option" where
  "file_name p = (if p = [] then None else Some (last p))"

definition hour_from_path :: "('a calendar_scheme) \<Rightarrow> path \<Rightarrow> datetime option" where
  "hour_from_path cal p =
     Option.bind (Option.bind (parent p) file_name) (\<lambda>h.
     Option.bind (Option.bind (Option.bind (parent p) parent) file_name) (\<lambda>d.
       cal_parse_naive cal (hour_text d h)))"

subsection \<open>The archiver\<close>

record 's archiver =
  ar_directory :: path
  ar_prefix :: string
  ar_min_retention_hours :: nat
  ar_max_retention_hours :: nat
  ar_min_free_disk_percent :: nat
  ar_client :: "'s s3_client"
  ar_calendar :: calendar
  ar_timelike :: timelike
  ar_os :: os
  ar_elapsed :: "string \<Rightarrow> bool"
  ar_info_enabled :: bool

record 's archive_state =
  as_fs :: local_fs
  as_store :: 's
  as_last_cleanup :: int

text \<open>The readings of the clocks during one upload.\<close>

record archive_clock =
  now_utc :: datetime
  now_instant :: int

text \<open>\<open>await_s3\<close>: the timer may fire although the request was served.\<close>

definition await_s3 :: "string \<Rightarrow> bool \<Rightarrow> s3_error + 'a \<Rightarrow> 'a result" where
  "await_s3 label elapsed r =
     (if elapsed then Inl (''S3 '' @ label @ '' timed out after 90 seconds'')
      else (case r of Inl _ \<Rightarrow> Inl (''S3 '' @ label @ '' failed'') | Inr x \<Rightarrow> Inr x))"

fun cleanup_files :: "'s archiver \<Rightarrow> datetime \<Rightarrow> path list \<Rightarrow> local_fs \<Rightarrow> local_fs \<times> unit result" where
  "cleanup_files a cutoff [] fs = (fs, Inr ())"
| "cleanup_files a cutoff (p # ps) fs =
     (case hour_from_path (ar_calendar a) p of
        None \<Rightarrow> cleanup_files a cutoff ps fs
      | Some h \<Rightarrow>
          if h \<le> cutoff \<and> path_exists fs (upload_marker p)
          then (case remove_file (ar_os a) fs p of
                  (fs, Inl e) \<Rightarrow> (fs, Inl e)
                | (fs, Inr _) \<Rightarrow>
                    (case remove_file (ar_os a) fs (upload_marker p) of
                       (fs, Inl e) \<Rightarrow> (fs, Inl e)
                     | (fs, Inr _) \<Rightarrow> cleanup_files a cutoff ps fs))
          else cleanup_files a cutoff ps fs)"

definition free_percent :: "nat \<Rightarrow> nat \<Rightarrow> nat" where
  "free_percent available total_bytes =
     (if total_bytes = 0 then 100 else saturating_mul available 100 div total_bytes)"

definition retention_hours :: "'s archiver \<Rightarrow> nat \<Rightarrow> nat" where
  "retention_hours a free =
     (if free < ar_min_free_disk_percent a then ar_min_retention_hours a else ar_max_retention_hours a)"

definition cleanup :: "'s archiver \<Rightarrow> datetime \<Rightarrow> local_fs \<Rightarrow> (local_fs \<times> unit result) option" where
  "cleanup a now fs =
     (case (os_total_space (ar_os a), os_available_space (ar_os a)) of
        (Some total_bytes, Some available) \<Rightarrow>
          (let retention = retention_hours a (free_percent available total_bytes) in
           case floor_hour (ar_timelike a) now of
             Inl e \<Rightarrow> Some (fs, Inl e)
           | Inr this_hour \<Rightarrow>
               if \<not> in_i64 (int retention) then Some (fs, Inl ''out of range integral type conversion'')
               else (case parquet_files (ar_os a) fs (ar_directory a) of
                       None \<Rightarrow> None
                     | Some (Inl e) \<Rightarrow> Some (fs, Inl e)
                     | Some (Inr ps) \<Rightarrow>
                         Some (cleanup_files a (this_hour - hours (int retention)) ps fs)))
      | _ \<Rightarrow> Some (fs, Inl ''disk space''))"

definition cleanup_interval :: int where
  "cleanup_interval = 60000000000"

definition cleanup_if_due ::
  "'s archiver \<Rightarrow> archive_clock \<Rightarrow> 's archive_state \<Rightarrow> ('s archive_state \<times> unit result) option" where
  "cleanup_if_due a clk st =
     (if now_instant clk - as_last_cleanup st < cleanup_interval then Some (st, Inr ())
      else (case cleanup a (now_utc clk) (as_fs st) of
              None \<Rightarrow> None
            | Some (fs, Inl e) \<Rightarrow> Some (st\<lparr>as_fs := fs\<rparr>, Inl e)
            | Some (fs, Inr _) \<Rightarrow>
                Some (st\<lparr>as_fs := fs, as_last_cleanup := now_instant clk\<rparr>, Inr ())))"

definition object_key :: "'s archiver \<Rightarrow> path \<Rightarrow> string option" where
  "object_key a p =
     (if take (length (ar_directory a)) p = ar_directory a
      then Some (ar_prefix a @ CHR ''/'' # join_on CHR ''/'' (drop (length (ar_directory a)) p))
      else None)"

definition upload ::
  "'s archiver \<Rightarrow> archive_clock \<Rightarrow> 's archive_state \<Rightarrow> path \<Rightarrow> bool \<Rightarrow>
   ('s archive_state \<times> string result) option" where
  "upload a clk st p force =
     (let fs = as_fs st; os = ar_os a; marker = upload_marker p in
      if \<not> is_file fs p \<or> path_extension p \<noteq> Some ''parquet''
      then Some (st, Inl ''Parquet segment does not exist'')
      else if path_exists fs marker \<and> \<not> force
      then Some (st, if os_ok os (Read_File marker)
                     then with_context (map_option trim (file_at fs marker)) ''read marker''
                     else Inl ''read marker'')
      else (case object_key a p of
              None \<Rightarrow> Some (st, Inl ''segment is outside data directory'')
            | Some key \<Rightarrow>
      if \<not> os_ok os (Read_File p) then Some (st, Inl ''read Parquet segment'')
      else (case put_object (ar_client a) (as_store st)
                 \<lparr>put_key = key, put_body = the (file_at fs p), put_if_none_match = False,
                  put_tiering = False\<rparr> of
              (store, r) \<Rightarrow>
      (case await_s3 ''put Parquet segment'' (ar_elapsed a key) r of
         Inl e \<Rightarrow> Some (st\<lparr>as_store := store\<rparr>, Inl e)
       | Inr _ \<Rightarrow>
      (case write_file os fs marker (key @ ''\<newline>'') of
         (fs, Inl e) \<Rightarrow> Some (st\<lparr>as_store := store, as_fs := fs\<rparr>, Inl e)
       | (fs, Inr _) \<Rightarrow>
      (case cleanup_if_due a clk (st\<lparr>as_store := store, as_fs := fs\<rparr>) of
         None \<Rightarrow> None
       | Some (st, Inl e) \<Rightarrow> Some (st, Inl e)
       | Some (st, Inr _) \<Rightarrow>
           if ar_info_enabled a \<and> \<not> (os_ok os (File_Metadata p) \<and> path_exists (as_fs st) p)
           then Some (st, Inl ''metadata'')
           else Some (st, Inr key)))))))"

text \<open>
  \<open>upload_with_retry\<close>: up to four attempts, the \<open>i\<close>-th with the clock \<open>clks i\<close>.
\<close>

fun attempt_upload ::
  "'s archiver \<Rightarrow> (nat \<Rightarrow> archive_clock) \<Rightarrow> nat \<Rightarrow> 's archive_state \<Rightarrow> path \<Rightarrow>
   's archive_state option" where
  "attempt_upload a clks 0 st p = Some st"
| "attempt_upload a clks (Suc left) st p =
     (case upload a (clks (4 - left)) st p False of
        None \<Rightarrow> None
      | Some (st, Inr _) \<Rightarrow> Some st
      | Some (st, Inl _) \<Rightarrow> attempt_upload a clks left st p)"

definition upload_with_retry ::
  "'s archiver \<Rightarrow> (nat \<Rightarrow> archive_clock) \<Rightarrow> 's archive_state \<Rightarrow> path \<Rightarrow> 's archive_state option" where
  "upload_with_retry a clks st p = attempt_upload a clks 4 st p"

fun upload_each ::
  "'s archiver \<Rightarrow> (path \<Rightarrow> nat \<Rightarrow> archive_clock) \<Rightarrow> path list \<Rightarrow> 's archive_state \<Rightarrow> 's archive_state option" where
  "upload_each a clks [] st = Some st"
| "upload_each a clks (p # ps) st =
     (if path_exists (as_fs st) (upload_marker p) then upload_each a clks ps st
      else (case hour_from_path (ar_calendar a) p of
              None \<Rightarrow> upload_each a clks ps st
            | Some _ \<Rightarrow>
                (case upload_with_retry a (clks p) st p of
                   None \<Rightarrow> None
                 | Some st \<Rightarrow> upload_each a clks ps st)))"

definition upload_pending ::
  "'s archiver \<Rightarrow> (path \<Rightarrow> nat \<Rightarrow> archive_clock) \<Rightarrow> 's archive_state \<Rightarrow>
   ('s archive_state \<times> unit result) option" where
  "upload_pending a clks st =
     (case parquet_files (ar_os a) (as_fs st) (ar_directory a) of
        None \<Rightarrow> None
      | Some (Inl e) \<Rightarrow> Some (st, Inl e)
      | Some (Inr ps) \<Rightarrow> map_option (\<lambda>st. (st, Inr ())) (upload_each a clks ps st))"

text \<open>
  \<open>export\<close> of one hour: the writer is flushed first (\<open>flushing\<close> is its result), then every segment of the
  hour is uploaded; the first error ends it. \<open>bytes\<close> and \<open>keys\<close> feed the notification.
\<close>

fun export_each ::
  "'s archiver \<Rightarrow> (path \<Rightarrow> archive_clock) \<Rightarrow> datetime \<Rightarrow> bool \<Rightarrow> path list \<Rightarrow>
   's archive_state \<Rightarrow> nat \<Rightarrow> string list \<Rightarrow> ('s archive_state \<times> nat \<times> string list \<times> unit result) option" where
  "export_each a clks h force [] st bytes keys =
     Some (st, bytes, keys, if keys = [] then Inl ''no Parquet segments found'' else Inr ())"
| "export_each a clks h force (p # ps) st bytes keys =
     (if hour_from_path (ar_calendar a) p \<noteq> Some h then export_each a clks h force ps st bytes keys
      else if \<not> (os_ok (ar_os a) (File_Metadata p) \<and> is_file (as_fs st) p)
      then Some (st, bytes, keys, Inl ''metadata'')
      else (let bytes = saturating_add bytes (length (the (file_at (as_fs st) p))) in
            case upload a (clks p) st p force of
              None \<Rightarrow> None
            | Some (st, Inl e) \<Rightarrow> Some (st, bytes, keys, Inl e)
            | Some (st, Inr key) \<Rightarrow> export_each a clks h force ps st bytes (keys @ [key])))"

definition export_hour ::
  "'s archiver \<Rightarrow> (path \<Rightarrow> archive_clock) \<Rightarrow> unit result \<Rightarrow> datetime \<Rightarrow> bool \<Rightarrow> 's archive_state \<Rightarrow>
   ('s archive_state \<times> string list result) option" where
  "export_hour a clks flushing t force st =
     (case floor_hour (ar_timelike a) t of
        Inl e \<Rightarrow> Some (st, Inl e)
      | Inr h \<Rightarrow>
          (case flushing of
             Inl e \<Rightarrow> Some (st, Inl e)
           | Inr _ \<Rightarrow>
               (case parquet_files (ar_os a) (as_fs st) (ar_directory a) of
                  None \<Rightarrow> None
                | Some (Inl e) \<Rightarrow> Some (st, Inl e)
                | Some (Inr ps) \<Rightarrow>
                    map_option (\<lambda>(st, bytes, keys, r). (st, result_bind r (\<lambda>_. Inr keys)))
                      (export_each a clks h force ps st 0 []))))"

subsection \<open>Where a segment is and under which key\<close>

lemma path_extension_append [simp]: "path_extension (d @ [n]) = file_extension n"
  by (simp add: path_extension_def)

lemma hour_from_path_layout:
  "hour_from_path cal (base @ [d, h, n]) = cal_parse_naive cal (hour_text d h)"
  by (simp add: hour_from_path_def parent_def file_name_def butlast_append)

lemma join_on_append:
  "xs \<noteq> [] \<Longrightarrow> ys \<noteq> [] \<Longrightarrow> join_on c (xs @ ys) = join_on c xs @ c # join_on c ys"
proof (induction xs rule: join_on.induct)
  case (2 c w)
  then show ?case by (cases ys) auto
qed auto

lemma digits_no_char: "list_all is_ascii_digit s \<Longrightarrow> \<not> is_ascii_digit c \<Longrightarrow> c \<notin> set s"
  by (auto simp: list_all_iff)

lemma show_padded_no_char: "\<not> is_ascii_digit c \<Longrightarrow> c \<notin> set (show_padded w n)"
  using show_padded_digits by (rule digits_no_char)

lemma slash_not_digit: "\<not> is_ascii_digit CHR ''/''" "\<not> is_ascii_digit CHR ''.''"
  by code_simp+

lemma no_slash_names:
  "CHR ''/'' \<notin> set (day_directory cal h)" "CHR ''/'' \<notin> set (hour_directory cal h)"
  "CHR ''/'' \<notin> set (segment_name n)"
  by (auto simp: day_directory_def hour_directory_def segment_name_def show_year_def
      show_padded_no_char [OF slash_not_digit(1)])

lemma segment_name_shape:
  "starts_with (segment_name n) ''segment-''" "ends_with (segment_name n) ''.parquet''"
  by (simp_all add: segment_name_def starts_with_def ends_with_def suffix_def)

lemma ends_with_append: "ends_with s w \<Longrightarrow> ends_with (r @ s) w"
  by (auto simp: ends_with_def suffix_def)

text \<open>
  chrono's documented round trip: parsing the text of a day and an hour gives the start of that
  hour.
\<close>

definition calendar_roundtrip :: "('a calendar_scheme) \<Rightarrow> datetime \<Rightarrow> bool" where
  "calendar_roundtrip cal h \<longleftrightarrow>
     cal_parse_naive cal (hour_text (show_year (cal_year cal h) @ ''-'' @ show_padded 2 (cal_month cal h)
       @ ''-'' @ show_padded 2 (cal_day cal h)) (show_padded 2 (cal_hour cal h))) = Some h"

lemma calendar_roundtrip_directories:
  "calendar_roundtrip cal h \<Longrightarrow>
   cal_parse_naive cal (hour_text (day_directory cal h) (hour_directory cal h)) = Some h"
  by (simp add: calendar_roundtrip_def day_directory_def hour_directory_def)

lemma written_path:
  assumes "calendar_roundtrip cal h"
  shows "hour_from_path cal (segment_path cal dir exch m h sequence table) = Some h"
    and "is_parquet (segment_path cal dir exch m h sequence table)"
proof -
  have p: "segment_path cal dir exch m h sequence table =
      (dir @ [exch, market_as_str m, table]) @ [day_directory cal h, hour_directory cal h, segment_name sequence]"
    by (simp add: segment_path_def segment_directory_def)
  show "hour_from_path cal (segment_path cal dir exch m h sequence table) = Some h"
    unfolding p hour_from_path_layout by (rule calendar_roundtrip_directories [OF assms])
  show "is_parquet (segment_path cal dir exch m h sequence table)"
    unfolding is_parquet_def p using segment_name_extension [of sequence] by (simp add: path_extension_def)
qed

text \<open>The key of a written segment, and the partition that the compactor reads from it.\<close>

lemma written_key:
  assumes "calendar_roundtrip (ar_calendar a) h"
  shows "\<exists>key. object_key a (segment_path (ar_calendar a) (ar_directory a) exch m h sequence table) = Some key
    \<and> is_source_key key
    \<and> partition_from_key (ar_calendar a) key = Some (ar_prefix a @ CHR ''/'' # join_on CHR ''/''
        [exch, market_as_str m, table, day_directory (ar_calendar a) h, hour_directory (ar_calendar a) h], h)"
proof -
  let ?cal = "ar_calendar a" and ?n = "segment_name sequence"
  let ?d = "day_directory ?cal h" and ?h = "hour_directory ?cal h"
  let ?rel = "[exch, market_as_str m, table]"
  let ?base = "ar_prefix a @ CHR ''/'' # join_on CHR ''/'' ?rel"
  let ?key = "?base @ CHR ''/'' # ?d @ CHR ''/'' # ?h @ CHR ''/'' # ?n"
  have "join_on CHR ''/'' (?rel @ [?d, ?h, ?n]) = join_on CHR ''/'' ?rel @ CHR ''/'' # join_on CHR ''/'' [?d, ?h, ?n]"
    by (rule join_on_append) simp_all
  then have key: "object_key a (segment_path ?cal (ar_directory a) exch m h sequence table) = Some ?key"
    by (simp add: object_key_def segment_path_def segment_directory_def)
  have "partition_from_key ?cal ?key = Some (?base @ CHR ''/'' # ?d @ CHR ''/'' # ?h, h)"
    by (simp only: partition_from_key_layout [OF no_slash_names(3) no_slash_names(2) no_slash_names(1)]
        calendar_roundtrip_directories [OF assms] option.map)
  moreover have "is_source_key ?key"
  proof -
    have k: "?key = (?base @ CHR ''/'' # ?d @ CHR ''/'' # ?h) @ CHR ''/'' # ?n" by simp
    have "last_component CHR ''/'' ?key = ?n" unfolding k by (rule last_component_append) (rule no_slash_names)
    moreover have "ends_with ?key ''.parquet''"
      unfolding k by (intro ends_with_append) (metis append_Cons append_Nil ends_with_append segment_name_shape(2))
    ultimately show ?thesis by (simp add: is_source_key_def segment_name_shape)
  qed
  ultimately show ?thesis using key by simp
qed

end
