(* ===== verification/Api.thy ===== *)
theory Api
  imports Archive Writer_System
begin

section \<open>The HTTP interface\<close>

text \<open>
  The handlers of \<open>src/api.rs\<close>. A response is a status and a JSON body; routing, extraction and
  serialisation are axum's. The datasets are the entries of a \<open>BTreeMap\<close> in the order of their
  keys; all of them share one writer, one archiver and one set of metrics, which are arguments.
\<close>

record response =
  rs_status :: nat
  rs_body :: json

definition json_response :: "json \<Rightarrow> response" where
  "json_response v = \<lparr>rs_status = 200, rs_body = v\<rparr>"

definition error_response :: "error \<Rightarrow> response" where
  "error_response e = \<lparr>rs_status = 500, rs_body = JObject [(''error'', JString e)]\<rparr>"

definition respond :: "json result \<Rightarrow> response" where
  "respond r = (case r of Inl e \<Rightarrow> error_response e | Inr v \<Rightarrow> json_response v)"

definition market_names :: "string list \<Rightarrow> json" where
  "market_names datasets = JArray (map JString datasets)"

definition health_handler :: "string list \<Rightarrow> response" where
  "health_handler datasets =
     json_response (JObject [(''status'', JString ''ok''), (''datasets'', market_names datasets)])"

definition runtime_handler :: "string list \<Rightarrow> metrics \<Rightarrow> response" where
  "runtime_handler datasets ms = respond
     (if datasets = [] then Inl ''no active dataset''
      else Inr (JObject [(''markets'', market_names datasets), (''runtime'', snapshot_json ms)]))"

definition stats_handler :: "string list \<Rightarrow> writer_params \<Rightarrow> writer_system \<Rightarrow> response" where
  "stats_handler datasets p s = respond
     (if datasets = [] then Inl ''no active dataset''
      else Inr (JObject [(''markets'', market_names datasets),
        (''runtime'', snapshot_json (sy_metrics s)), (''database'', writer_stats p s)]))"

record archive_request =
  rq_market :: "string option"
  rq_hour :: datetime
  rq_force :: "bool option"

definition default_market :: string where
  "default_market = ''spot''"

text \<open>
  The archive request exports the hour of every market; its market only has to exist. \<open>None\<close>
  is an export whose directory traversal does not end.
\<close>

definition archive_handler ::
  "string list \<Rightarrow> 's archiver \<Rightarrow> (path \<Rightarrow> archive_clock) \<Rightarrow> unit result \<Rightarrow> archive_request \<Rightarrow>
   's archive_state \<Rightarrow> ('s archive_state \<times> response) option" where
  "archive_handler datasets a clks flushing rq st =
     (let m = (case rq_market rq of None \<Rightarrow> default_market | Some m \<Rightarrow> m) in
      if \<not> List.member datasets m
      then Some (st, error_response (''unknown market '' @ m))
      else
        map_option (\<lambda>(st', r). (st', respond
            (result_bind r (\<lambda>keys. Inr (JObject [(''uploaded'', JArray (map JString keys))])))))
          (export_hour a clks flushing (rq_hour rq)
             (case rq_force rq of None \<Rightarrow> False | Some b \<Rightarrow> b) st))"

lemma archive_ignores_market:
  assumes "List.member datasets m" and "List.member datasets m'"
  shows "archive_handler datasets a clks flushing (rq\<lparr>rq_market := Some m\<rparr>) st =
    archive_handler datasets a clks flushing (rq\<lparr>rq_market := Some m'\<rparr>) st"
  using assms by (simp add: archive_handler_def)

end
