(* ===== verification/Archive_Safety.thy ===== *)
theory Archive_Safety
  imports Archive
begin

section \<open>The archiver deletes only what is uploaded\<close>

text \<open>
  The invariant of the archiver: a segment on disk whose marker exists is in the store with the
  same bytes. Uploads and cleanups keep it, with every request and system call allowed to fail,
  and no bytes of a segment ever exist nowhere.
\<close>

subsection \<open>Paths and keys\<close>

definition clean_path :: "path \<Rightarrow> bool" where
  "clean_path p \<longleftrightarrow> list_all (\<lambda>w. w \<noteq> [] \<and> CHR ''/'' \<notin> set w) p"

definition clean_fs :: "local_fs \<Rightarrow> bool" where
  "clean_fs fs \<longleftrightarrow> list_all (\<lambda>(p, _). clean_path p) (lf_files fs)"

lemma split_join: "ws \<noteq> [] \<Longrightarrow> list_all (\<lambda>w. c \<notin> set w) ws \<Longrightarrow> split_on c (join_on c ws) = ws"
  by (induction c ws rule: join_on.induct) (simp_all add: split_on_plain split_on_append)

lemma join_on_ne: "clean_path ws \<Longrightarrow> ws \<noteq> [] \<Longrightarrow> join_on c ws \<noteq> []"
  by (cases ws rule: remdups_adj.cases) (auto simp: clean_path_def)

lemma join_on_inj:
  assumes "clean_path ws" and "clean_path vs" and "join_on CHR ''/'' ws = join_on CHR ''/'' vs"
  shows "ws = vs"
proof (cases "ws = [] \<or> vs = []")
  case True
  with assms show ?thesis by (metis join_on.simps(1) join_on_ne)
next
  case False
  have "list_all (\<lambda>w. CHR ''/'' \<notin> set w) ws" "list_all (\<lambda>w. CHR ''/'' \<notin> set w) vs"
    using assms by (auto simp: clean_path_def list_all_iff)
  with False assms(3) show ?thesis by (metis split_join)
qed

lemma object_key_inj:
  assumes "clean_path p" and "clean_path q" and "object_key a p = Some key" and "object_key a q = Some key"
  shows "p = q"
proof -
  let ?n = "length (ar_directory a)"
  have "take ?n p = take ?n q" and "join_on CHR ''/'' (drop ?n p) = join_on CHR ''/'' (drop ?n q)"
    using assms(3,4) by (auto simp: object_key_def split: if_splits)
  moreover have "clean_path (drop ?n p)" "clean_path (drop ?n q)"
    using assms(1,2) by (auto simp: clean_path_def list_all_iff dest: in_set_dropD)
  ultimately show ?thesis by (metis append_take_drop_id join_on_inj)
qed

lemma marker_not_parquet: "\<not> is_parquet (upload_marker p)"
proof -
  have "rsplit_once CHR ''.'' (last p @ CHR ''.'' # ''uploaded'') = Some (last p, ''uploaded'')"
    by (rule rsplit_once_append) simp
  then show ?thesis by (simp add: is_parquet_def upload_marker_def file_extension_def)
qed

lemma upload_marker_inj:
  "p \<noteq> [] \<Longrightarrow> q \<noteq> [] \<Longrightarrow> upload_marker p = upload_marker q \<Longrightarrow> p = q"
  by (simp add: upload_marker_def) (metis append_butlast_last_id)

lemma is_parquet_ne: "is_parquet p \<Longrightarrow> p \<noteq> []"
  by (auto simp: is_parquet_def path_extension_def)

lemma file_at_update [simp]:
  "file_at (fs\<lparr>lf_files := AList.update p b (lf_files fs)\<rparr>) = (file_at fs)(p \<mapsto> b)"
  by (simp add: file_at_def update_conv' fun_eq_iff)

lemma file_at_delete [simp]:
  "file_at (fs\<lparr>lf_files := AList.delete p (lf_files fs)\<rparr>) = (file_at fs)(p := None)"
  by (simp add: file_at_def AList.delete_conv' fun_eq_iff)

lemma clean_fs_file: "clean_fs fs \<Longrightarrow> file_at fs p = Some b \<Longrightarrow> clean_path p"
  by (auto simp: clean_fs_def file_at_def list_all_iff dest: map_of_SomeD)

lemma clean_fs_delete: "clean_fs fs \<Longrightarrow> clean_fs (fs\<lparr>lf_files := AList.delete p (lf_files fs)\<rparr>)"
  by (auto simp: clean_fs_def list_all_iff AList.delete_eq)

lemma clean_marker:
  assumes "clean_path p" and "p \<noteq> []"
  shows "clean_path (upload_marker p)"
proof -
  have all: "\<forall>w \<in> set p. w \<noteq> [] \<and> CHR ''/'' \<notin> set w"
    using assms(1) by (simp add: clean_path_def list_all_iff)
  then have "CHR ''/'' \<notin> set (last p)" using assms(2) last_in_set by blast
  then show ?thesis
    using all by (simp add: clean_path_def upload_marker_def list_all_iff in_set_butlastD)
qed

lemma clean_fs_update:
  assumes "clean_fs fs" and "clean_path p"
  shows "clean_fs (fs\<lparr>lf_files := AList.update p b (lf_files fs)\<rparr>)"
proof -
  have "list_all (\<lambda>(p, _). clean_path p) al \<Longrightarrow> clean_path p \<Longrightarrow>
      list_all (\<lambda>(p, _). clean_path p) (AList.update p b al)" for al
    by (induction al) auto
  with assms show ?thesis by (simp add: clean_fs_def)
qed

subsection \<open>The invariant\<close>

definition uploaded_as :: "'s archiver \<Rightarrow> s3_view \<Rightarrow> path \<Rightarrow> string \<Rightarrow> bool" where
  "uploaded_as a v p b \<longleftrightarrow>
     (\<exists>key. object_key a p = Some key \<and> map_option obj_body (v key) = Some b)"

definition archived_ok :: "'s archiver \<Rightarrow> local_fs \<Rightarrow> s3_view \<Rightarrow> bool" where
  "archived_ok a fs v \<longleftrightarrow> clean_fs fs
     \<and> (\<forall>p b. is_parquet p \<longrightarrow> file_at fs p = Some b \<longrightarrow> path_exists fs (upload_marker p) \<longrightarrow>
          uploaded_as a v p b)"

text \<open>No bytes of a segment on disk are lost: they are still there or in the store.\<close>

definition segments_kept :: "'s archiver \<Rightarrow> local_fs \<Rightarrow> local_fs \<Rightarrow> s3_view \<Rightarrow> bool" where
  "segments_kept a fs fs' v \<longleftrightarrow>
     (\<forall>p. is_parquet p \<longrightarrow> file_at fs' p = file_at fs p
        \<or> file_at fs' p = None \<and> (\<forall>b. file_at fs p = Some b \<longrightarrow> uploaded_as a v p b))"

lemma path_exists_update [simp]:
  "path_exists (fs\<lparr>lf_files := AList.update p b (lf_files fs)\<rparr>) q \<longleftrightarrow> q = p \<or> path_exists fs q"
  by (simp add: path_exists_def is_file_def is_dir_def)

lemma path_exists_delete:
  "path_exists (fs\<lparr>lf_files := AList.delete p (lf_files fs)\<rparr>) q \<Longrightarrow> path_exists fs q"
  by (auto simp: path_exists_def is_file_def is_dir_def split: if_splits)

lemma remove_file_keeps:
  assumes "archived_ok a fs v" and "remove_file os fs q = (fs', r)"
    and "is_parquet q \<Longrightarrow> path_exists fs (upload_marker q)"
  shows "archived_ok a fs' v \<and> segments_kept a fs fs' v"
proof (cases "fs' = fs")
  case True
  with assms(1) show ?thesis by (simp add: segments_kept_def)
next
  case False
  with assms(2) have fs': "fs' = fs\<lparr>lf_files := AList.delete q (lf_files fs)\<rparr>"
    by (auto simp: remove_file_def split: if_splits)
  have "archived_ok a fs' v"
    using assms(1) unfolding archived_ok_def fs'
    by (auto simp: clean_fs_delete split: if_splits dest!: path_exists_delete)
  moreover have "segments_kept a fs fs' v"
    using assms(1,3) by (auto simp: segments_kept_def fs' archived_ok_def)
  ultimately show ?thesis ..
qed

lemma segments_kept_refl [simp]: "segments_kept a fs fs v"
  by (simp add: segments_kept_def)

lemma segments_kept_trans:
  "segments_kept a fs fs1 v \<Longrightarrow> segments_kept a fs1 fs2 v \<Longrightarrow> segments_kept a fs fs2 v"
  unfolding segments_kept_def by (metis option.distinct(1))

lemma cleanup_files_keep:
  assumes "archived_ok a fs v" and "list_all is_parquet ps" and "cleanup_files a cutoff ps fs = (fs', r)"
  shows "archived_ok a fs' v \<and> segments_kept a fs fs' v"
  using assms
proof (induction ps arbitrary: fs)
  case (Cons p ps)
  show ?case
  proof (cases "\<exists>h. hour_from_path (ar_calendar a) p = Some h \<and> h \<le> cutoff \<and> path_exists fs (upload_marker p)")
    case False
    with Cons show ?thesis by (auto split: option.splits)
  next
    case True
    obtain fs1 r1 where r1: "remove_file (ar_os a) fs p = (fs1, r1)" by fastforce
    have k1: "archived_ok a fs1 v \<and> segments_kept a fs fs1 v"
      using remove_file_keeps [OF Cons.prems(1) r1] True by blast
    obtain fs2 r2 where r2: "remove_file (ar_os a) fs1 (upload_marker p) = (fs2, r2)" by fastforce
    have k2: "archived_ok a fs2 v \<and> segments_kept a fs1 fs2 v"
      using remove_file_keeps [of a fs1 v, OF _ r2] k1 marker_not_parquet by blast
    have "fs' = fs1 \<or> fs' = fs2 \<or> cleanup_files a cutoff ps fs2 = (fs', r)"
      using Cons.prems(3) True r1 r2 by (auto split: option.splits sum.splits if_splits)
    moreover have "archived_ok a fs' v \<and> segments_kept a fs2 fs' v"
      if "cleanup_files a cutoff ps fs2 = (fs', r)"
      using Cons.IH [OF _ _ that] k2 Cons.prems(2) by simp
    ultimately show ?thesis using k1 k2 by (metis segments_kept_trans)
  qed
qed simp

subsection \<open>The traversal\<close>

lemma find_parquet_only:
  assumes "find_parquet os fs ds files = Some r"
  shows "list_all is_parquet files \<longrightarrow> (\<forall>ps. r = Inr ps \<longrightarrow> list_all is_parquet ps)"
proof (rule find_parquet.raw_induct [OF _ assms])
  fix find :: "os \<Rightarrow> local_fs \<Rightarrow> path list \<Rightarrow> path list \<Rightarrow> path list result option" and os fs ds files r
  assume ih: "\<And>os fs ds files r. find os fs ds files = Some r \<Longrightarrow>
      list_all is_parquet files \<longrightarrow> (\<forall>ps. r = Inr ps \<longrightarrow> list_all is_parquet ps)"
    and body: "(case ds of [] \<Rightarrow> Some (Inr files)
      | d # ds \<Rightarrow> if \<not> path_exists fs d then find os fs ds files
          else case read_dir os fs d of Inl e \<Rightarrow> Some (Inl e)
            | Inr entries \<Rightarrow> find os fs (rev (filter (is_dir fs) entries) @ ds)
                (files @ filter (\<lambda>p. \<not> is_dir fs p \<and> is_parquet p) entries)) = Some r"
  show "list_all is_parquet files \<longrightarrow> (\<forall>ps. r = Inr ps \<longrightarrow> list_all is_parquet ps)"
  proof (cases ds)
    case Nil
    with body show ?thesis by auto
  next
    case (Cons d ds')
    have pq: "list_all is_parquet files \<Longrightarrow>
        list_all is_parquet (files @ filter (\<lambda>p. \<not> is_dir fs p \<and> is_parquet p) entries)" for entries
      by (auto simp: list_all_iff)
    show ?thesis
    proof (cases "path_exists fs d")
      case False
      with body Cons have "find os fs ds' files = Some r" by simp
      then show ?thesis by (rule ih)
    next
      case True
      show ?thesis
      proof (cases "read_dir os fs d")
        case (Inl e)
        with body Cons True show ?thesis by auto
      next
        case (Inr entries)
        with body Cons True have "find os fs (rev (filter (is_dir fs) entries) @ ds')
            (files @ filter (\<lambda>p. \<not> is_dir fs p \<and> is_parquet p) entries) = Some r" by simp
        from ih [OF this] pq [of entries] show ?thesis by blast
      qed
    qed
  qed
qed

lemma parquet_files_only: "parquet_files os fs root = Some (Inr ps) \<Longrightarrow> list_all is_parquet ps"
  using find_parquet_only unfolding parquet_files_def by fastforce

text \<open>A disk whose entries under \<open>root\<close> form a tree, and an operating system that lists it.\<close>

definition tree_fs :: "path \<Rightarrow> local_fs \<Rightarrow> bool" where
  "tree_fs root fs \<longleftrightarrow> distinct (lf_dirs fs @ map fst (lf_files fs))
     \<and> (\<forall>p \<in> set (lf_dirs fs @ map fst (lf_files fs)). strict_prefix root p \<longrightarrow> butlast p \<in> set (lf_dirs fs))"

definition lists_dirs :: "os \<Rightarrow> bool" where
  "lists_dirs os \<longleftrightarrow> (\<forall>d. os_ok os (Read_Dir d)) \<and> (\<forall>ps. mset (os_order os ps) = mset ps)"

definition child_dirs :: "local_fs \<Rightarrow> path \<Rightarrow> path list" where
  "child_dirs fs d = filter (\<lambda>p. p \<noteq> [] \<and> butlast p = d) (lf_dirs fs)"

lemma strict_prefix_butlast: "p \<noteq> [] \<Longrightarrow> strict_prefix (butlast p) p"
  by (metis append_butlast_last_id prefix_order.dual_order.strict_iff_order prefixI self_append_conv list.distinct(1))

lemma ancestors_in_dirs:
  assumes tree: "tree_fs root fs" and "p \<in> set (lf_dirs fs @ map fst (lf_files fs))"
    and "strict_prefix root p" and "length root < n" and "n < length p"
  shows "take n p \<in> set (lf_dirs fs)"
  using assms(2-)
proof (induction "length p" arbitrary: p rule: less_induct)
  case less
  have b: "butlast p \<in> set (lf_dirs fs)"
    using tree less.prems(1,2) unfolding tree_fs_def by blast
  show ?case
  proof (cases "n = length p - 1")
    case True
    then show ?thesis using b by (simp add: butlast_conv_take)
  next
    case False
    then have n: "n < length (butlast p)" using less.prems(4) by simp
    moreover have "strict_prefix root (butlast p)"
    proof -
      have "prefix root (butlast p)"
        using less.prems(2,3) n by (metis append_butlast_last_id less_imp_le_nat list.size(3) not_less_zero
            prefix_def prefix_length_prefix prefixeq_butlast strict_prefix_def le_less_trans less_trans)
      then show ?thesis using less.prems(3) n by (auto simp: strict_prefix_def)
    qed
    moreover have "length (butlast p) < length p" using less.prems(4) by simp
    ultimately have "take n (butlast p) \<in> set (lf_dirs fs)"
      using less.hyps [of "butlast p"] b less.prems(3) by simp
    then show ?thesis using n by (simp add: take_butlast)
  qed
qed

text \<open>Every entry below a directory is its child or below exactly one of its child directories.\<close>

lemma entries_below:
  assumes tree: "tree_fs root fs" and d: "prefix root d"
    and p: "p \<in> set (lf_dirs fs @ map fst (lf_files fs))"
  shows "length (filter (\<lambda>e. strict_prefix e p) (child_dirs fs d)) =
    (if strict_prefix d p \<and> butlast p \<noteq> d then 1 else 0)"
proof (cases "strict_prefix d p \<and> butlast p \<noteq> d")
  case False
  have "\<not> strict_prefix e p" if "e \<in> set (child_dirs fs d)" for e
  proof
    assume e: "strict_prefix e p"
    from that have "strict_prefix d e" "length e = Suc (length d)"
      by (auto simp: child_dirs_def strict_prefix_butlast)
    with e have "strict_prefix d p" "Suc (length d) < length p"
      by (auto dest: prefix_order.less_trans prefix_length_less)
    with False show False by (auto)
  qed
  with False show ?thesis by (simp add: filter_empty_conv)
next
  case True
  let ?e = "take (Suc (length d)) p"
  obtain xs where xs: "p = d @ xs" "xs \<noteq> []"
    using True by (auto simp: strict_prefix_def prefix_def)
  have "length xs \<noteq> 1"
  proof
    assume "length xs = 1"
    then obtain x where "xs = [x]" by (metis One_nat_def length_0_conv length_Suc_conv)
    with xs True show False by (simp add: butlast_append)
  qed
  then have len: "Suc (length d) < length p" using xs by (cases xs) (auto simp: Suc_lessI)
  have "strict_prefix root p" using d True by (metis prefix_order.le_less_trans)
  moreover have "length root < Suc (length d)" using d by (simp add: less_Suc_eq_le prefix_length_le)
  ultimately have dir: "?e \<in> set (lf_dirs fs)" by (rule ancestors_in_dirs [OF tree p _ _ len])
  obtain x ys where ys: "xs = x # ys" using xs(2) by (cases xs) auto
  have "?e = d @ [x]" by (simp add: xs(1) ys)
  then have be: "butlast ?e = d" "?e \<noteq> []" by simp_all
  have "strict_prefix ?e p"
    using len take_is_prefix [of "Suc (length d)" p] by (auto simp: strict_prefix_def)
  moreover have "e = ?e" if "e \<in> set (child_dirs fs d)" "strict_prefix e p" for e
  proof -
    have "length e = Suc (length d)" using that(1) by (auto simp: child_dirs_def)
    then show ?thesis using that(2) by (auto simp: strict_prefix_def prefix_def)
  qed
  ultimately have "{e. strict_prefix e p} \<inter> set (child_dirs fs d) = {?e}"
    using dir be by (auto simp: child_dirs_def)
  moreover have "distinct (child_dirs fs d)" using tree by (auto simp: tree_fs_def child_dirs_def)
  ultimately show ?thesis using True by (simp add: distinct_length_filter)
qed

definition below :: "(path \<Rightarrow> bool) \<Rightarrow> path \<Rightarrow> path list \<Rightarrow> path multiset" where
  "below P d ps = mset (filter (\<lambda>p. P p \<and> strict_prefix d p) ps)"

definition children :: "(path \<Rightarrow> bool) \<Rightarrow> path \<Rightarrow> path list \<Rightarrow> path multiset" where
  "children P d ps = mset (filter (\<lambda>p. P p \<and> p \<noteq> [] \<and> butlast p = d) ps)"

lemma sum_list_if_add_mset:
  "sum_list (map (\<lambda>e. if Q e then add_mset p (f e) else f e) es) =
   replicate_mset (length (filter Q es)) p + sum_list (map f es)"
  by (induction es) auto

lemma below_children:
  assumes tree: "tree_fs root fs" and d: "prefix root d"
    and "set ps \<subseteq> set (lf_dirs fs @ map fst (lf_files fs))"
  shows "below P d ps = children P d ps + sum_list (map (\<lambda>e. below P e ps) (child_dirs fs d))"
  using assms(3)
proof (induction ps)
  case Nil
  have "sum_list (map (\<lambda>e. {#}) xs) = {#}" for xs :: "path list" by (induction xs) auto
  then show ?case by (simp add: below_def children_def)
next
  case (Cons p ps)
  then have ih: "below P d ps = children P d ps + sum_list (map (\<lambda>e. below P e ps) (child_dirs fs d))"
    by simp
  have p: "p \<in> set (lf_dirs fs @ map fst (lf_files fs))" using Cons.prems by simp
  note count = entries_below [OF tree d p]
  have split: "(p \<noteq> [] \<and> butlast p = d) = (strict_prefix d p \<and> butlast p = d)"
    by (metis strict_prefix_butlast strict_prefix_simps(1))
  have sums: "sum_list (map (\<lambda>e. below P e (p # ps)) (child_dirs fs d)) =
      (if P p then replicate_mset (length (filter (\<lambda>e. strict_prefix e p) (child_dirs fs d))) p else {#})
      + sum_list (map (\<lambda>e. below P e ps) (child_dirs fs d))"
  proof (cases "P p")
    case True
    then have "below P e (p # ps) = (if strict_prefix e p then add_mset p (below P e ps) else below P e ps)" for e
      by (simp add: below_def)
    then show ?thesis using True by (simp add: sum_list_if_add_mset)
  next
    case False
    then have "below P e (p # ps) = below P e ps" for e by (simp add: below_def)
    then show ?thesis using False by simp
  qed
  have "below P d (p # ps) = (if P p \<and> strict_prefix d p then {#p#} else {#}) + below P d ps"
    by (simp add: below_def)
  moreover have "children P d (p # ps) =
      (if P p \<and> strict_prefix d p \<and> butlast p = d then {#p#} else {#}) + children P d ps"
    using split by (simp add: children_def)
  ultimately show ?case unfolding sums count ih by auto
qed

definition dirs_left :: "local_fs \<Rightarrow> path list \<Rightarrow> nat" where
  "dirs_left fs ds = sum_list (map (\<lambda>d. Suc (size (below (\<lambda>_. True) d (lf_dirs fs)))) ds)"

definition found_below :: "local_fs \<Rightarrow> path list \<Rightarrow> path multiset" where
  "found_below fs ds = sum_list (map (\<lambda>d. below is_parquet d (map fst (lf_files fs))) ds)"

lemma size_sum_list: "size (sum_list (map f xs)) = sum_list (map (\<lambda>x. size (f x)) xs)"
  for f :: "'a \<Rightarrow> 'b multiset"
  by (induction xs) auto

lemma sum_list_mset_cong:
  "mset xs = mset ys \<Longrightarrow> sum_list (map f xs) = sum_list (map f ys)"
  for f :: "'a \<Rightarrow> 'b::comm_monoid_add"
  by (metis mset_map sum_mset_sum_list)

lemma read_dir_entries:
  assumes tree: "tree_fs root fs" and os: "lists_dirs os"
  shows "\<exists>es. read_dir os fs d = Inr es
    \<and> mset (filter (is_dir fs) es) = mset (child_dirs fs d)
    \<and> mset (filter (\<lambda>p. \<not> is_dir fs p \<and> is_parquet p) es) = children is_parquet d (map fst (lf_files fs))"
proof -
  let ?all = "filter (\<lambda>p. p \<noteq> [] \<and> butlast p = d) (lf_dirs fs @ map fst (lf_files fs))"
  have es: "read_dir os fs d = Inr (os_order os ?all)" "mset (os_order os ?all) = mset ?all"
    using os by (simp_all only: read_dir_def lists_dirs_def if_True)
  have dirs: "\<forall>p \<in> set (lf_dirs fs). is_dir fs p" and files: "\<forall>p \<in> set (map fst (lf_files fs)). \<not> is_dir fs p"
    using tree by (auto simp: tree_fs_def is_dir_def)
  have "filter (is_dir fs) ?all = child_dirs fs d"
    using dirs files by (auto simp: child_dirs_def filter_empty_conv intro: filter_cong)
  moreover have "filter (\<lambda>p. \<not> is_dir fs p \<and> is_parquet p) ?all =
      filter (\<lambda>p. is_parquet p \<and> p \<noteq> [] \<and> butlast p = d) (map fst (lf_files fs))"
  proof -
    have "filter (\<lambda>p. \<not> is_dir fs p \<and> is_parquet p) (filter (\<lambda>p. p \<noteq> [] \<and> butlast p = d) (lf_dirs fs)) = []"
      using dirs by (auto simp: filter_empty_conv)
    moreover have "filter (\<lambda>p. \<not> is_dir fs p \<and> is_parquet p)
        (filter (\<lambda>p. p \<noteq> [] \<and> butlast p = d) (map fst (lf_files fs))) =
        filter (\<lambda>p. is_parquet p \<and> p \<noteq> [] \<and> butlast p = d) (map fst (lf_files fs))"
      unfolding filter_filter using files by (intro filter_cong) auto
    ultimately show ?thesis by (simp only: filter_append append_Nil)
  qed
  moreover have "mset (filter Q (os_order os ?all)) = mset (filter Q ?all)" for Q
    using es(2) by (metis mset_filter)
  ultimately show ?thesis
    using es(1) unfolding children_def by (intro exI [of _ "os_order os ?all"]) (simp only: simp_thms)
qed

lemma find_parquet_complete:
  assumes tree: "tree_fs root fs" and os: "lists_dirs os"
    and "list_all (\<lambda>d. prefix root d \<and> is_dir fs d) ds"
  shows "\<exists>ps. find_parquet os fs ds files = Some (Inr ps)
    \<and> mset ps = mset files + found_below fs ds"
  using assms(3)
proof (induction "dirs_left fs ds" arbitrary: ds files rule: less_induct)
  case less
  show ?case
  proof (cases ds)
    case Nil
    then show ?thesis by (subst find_parquet.simps) (simp add: found_below_def)
  next
    case (Cons d ds')
    have d: "prefix root d" "is_dir fs d" using less.prems Cons by simp_all
    obtain es where es: "read_dir os fs d = Inr es"
        "mset (filter (is_dir fs) es) = mset (child_dirs fs d)"
        "mset (filter (\<lambda>p. \<not> is_dir fs p \<and> is_parquet p) es) = children is_parquet d (map fst (lf_files fs))"
      using read_dir_entries [OF tree os] by blast
    let ?ds = "rev (filter (is_dir fs) es) @ ds'"
      and ?files = "files @ filter (\<lambda>p. \<not> is_dir fs p \<and> is_parquet p) es"
    have kids: "sum_list (map f (rev (filter (is_dir fs) es))) = sum_list (map f (child_dirs fs d))"
      for f :: "path \<Rightarrow> 'b::comm_monoid_add"
      by (rule sum_list_mset_cong) (simp only: mset_rev es(2))
    have "below (\<lambda>_. True) d (lf_dirs fs) = children (\<lambda>_. True) d (lf_dirs fs)
        + sum_list (map (\<lambda>e. below (\<lambda>_. True) e (lf_dirs fs)) (child_dirs fs d))"
      by (rule below_children [OF tree d(1)]) simp
    moreover have "size (children (\<lambda>_. True) d (lf_dirs fs)) = length (child_dirs fs d)"
      unfolding children_def child_dirs_def by (simp only: size_mset simp_thms)
    ultimately have "size (below (\<lambda>_. True) d (lf_dirs fs)) =
        sum_list (map (\<lambda>e. Suc (size (below (\<lambda>_. True) e (lf_dirs fs)))) (child_dirs fs d))"
      by (simp add: size_sum_list sum_list_Suc)
    then have "dirs_left fs ?ds < dirs_left fs ds"
      unfolding dirs_left_def Cons by (simp add: kids)
    moreover have "list_all (\<lambda>d. prefix root d \<and> is_dir fs d) ?ds"
    proof -
      have "set (filter (is_dir fs) es) = set (child_dirs fs d)"
        using es(2) by (metis set_mset_mset)
      moreover have "prefix root e \<and> is_dir fs e" if "e \<in> set (child_dirs fs d)" for e
        using that d(1) by (auto simp: child_dirs_def is_dir_def
            intro: prefix_order.trans prefixeq_butlast)
      ultimately show ?thesis using less.prems Cons by (auto simp: list_all_iff)
    qed
    ultimately obtain ps where ps: "find_parquet os fs ?ds ?files = Some (Inr ps)"
        "mset ps = mset ?files + found_below fs ?ds"
      using less.hyps by blast
    have "find_parquet os fs ds files = Some (Inr ps)"
      using ps(1) es(1) d(2) Cons by (subst find_parquet.simps) (simp add: path_exists_def)
    moreover have "mset ?files + found_below fs ?ds = mset files + found_below fs ds"
    proof -
      have "below is_parquet d (map fst (lf_files fs)) = children is_parquet d (map fst (lf_files fs))
          + sum_list (map (\<lambda>e. below is_parquet e (map fst (lf_files fs))) (child_dirs fs d))"
        by (rule below_children [OF tree d(1)]) simp
      then show ?thesis unfolding found_below_def Cons mset_append es(3)
        by (simp only: map_append sum_list.append kids list.map sum_list.Cons ac_simps)
    qed
    ultimately show ?thesis using ps(2) by simp
  qed
qed

text \<open>
  C25. On a disk that is a tree and whose directories can be listed, the traversal ends and finds
  every Parquet file below its root exactly once, and nothing else.
\<close>

theorem parquet_files_complete:
  assumes "tree_fs root fs" and "lists_dirs os" and "is_dir fs root"
  shows "\<exists>ps. parquet_files os fs root = Some (Inr ps)
    \<and> mset ps = mset (filter (\<lambda>p. is_parquet p \<and> strict_prefix root p) (map fst (lf_files fs)))"
  using find_parquet_complete [OF assms(1,2), of "[root]" "[]"] assms(3)
  by (simp add: parquet_files_def found_below_def below_def)

definition sample_fs :: local_fs where
  "sample_fs = \<lparr>lf_files = [([''d'', ''h'', ''segment-1.parquet''], ''one''),
      ([''d'', ''h'', ''segment-1.parquet.uploaded''], ''key''), ([''x.parquet''], ''other'')],
    lf_dirs = [[''d''], [''d'', ''h'']]\<rparr>"

definition sample_os :: os where
  "sample_os = \<lparr>os_order = rev, os_ok = (\<lambda>_. True), os_total_space = Some 100,
     os_available_space = Some 50\<rparr>"

lemma lists_sample_os: "lists_dirs sample_os"
  by (simp add: lists_dirs_def sample_os_def)

theorem parquet_files_complete_witness:
  "\<exists>ps. parquet_files sample_os sample_fs [''d''] = Some (Inr ps)
    \<and> mset ps = {#[''d'', ''h'', ''segment-1.parquet'']#}"
proof -
  have t: "tree_fs [''d''] sample_fs" by (simp add: tree_fs_def sample_fs_def)
  have d: "is_dir sample_fs [''d'']" by (simp add: is_dir_def sample_fs_def)
  have "filter (\<lambda>p. is_parquet p \<and> strict_prefix [''d''] p) (map fst (lf_files sample_fs)) =
      [[''d'', ''h'', ''segment-1.parquet'']]"
    by code_simp
  with parquet_files_complete [OF t lists_sample_os d] show ?thesis by simp
qed

subsection \<open>Uploads\<close>

lemma cleanup_keeps:
  assumes "archived_ok a fs v" and "cleanup a now fs = Some (fs', r)"
  shows "archived_ok a fs' v \<and> segments_kept a fs fs' v"
proof -
  have "fs' = fs \<or> (\<exists>ps cutoff. parquet_files (ar_os a) fs (ar_directory a) = Some (Inr ps)
      \<and> cleanup_files a cutoff ps fs = (fs', r))"
    using assms(2) by (auto simp: cleanup_def Let_def split: option.splits sum.splits if_splits)
  then show ?thesis
    using assms(1) cleanup_files_keep [OF assms(1)] parquet_files_only by fastforce
qed

lemma cleanup_if_due_keeps:
  assumes "archived_ok a (as_fs st) v" and "cleanup_if_due a clk st = Some (st', r)"
  shows "as_store st' = as_store st \<and> archived_ok a (as_fs st') v
    \<and> segments_kept a (as_fs st) (as_fs st') v"
  using assms(2) cleanup_keeps [OF assms(1)] assms(1)
  by (auto simp: cleanup_if_due_def split: option.splits sum.splits if_splits)

lemma put_segment_keeps:
  assumes laws: "s3_laws b (ar_client a) view"
    and inv: "archived_ok a fs (view s)" and p: "file_at fs p = Some body"
    and key: "object_key a p = Some key"
    and put: "put_object (ar_client a) s \<lparr>put_key = key, put_body = body, put_if_none_match = False,
                put_tiering = False\<rparr> = (s', r)"
  shows "archived_ok a fs (view s')" and "r = Inr () \<Longrightarrow> uploaded_as a (view s') p body"
proof -
  have eff: "view s' = view s \<and> r \<noteq> Inr ()
      \<or> (\<exists>t. view s' = (view s)(key \<mapsto> \<lparr>obj_body = body, obj_modified = t\<rparr>))"
    using law_put [OF laws put] by simp
  have clean: "clean_fs fs" using inv by (simp add: archived_ok_def)
  show "archived_ok a fs (view s')"
    unfolding archived_ok_def
  proof (intro conjI allI impI)
    show "clean_fs fs" by (rule clean)
    fix q c
    assume q: "is_parquet q" "file_at fs q = Some c" "path_exists fs (upload_marker q)"
    then obtain k where k: "object_key a q = Some k" "map_option obj_body (view s k) = Some c"
      using inv unfolding archived_ok_def uploaded_as_def by blast
    have "map_option obj_body (view s' k) = Some c"
    proof (cases "k = key")
      case True
      then have "q = p"
        using object_key_inj clean_fs_file [OF clean] k(1) key p q(2) by metis
      with eff k(2) p q(2) True show ?thesis by auto
    next
      case False
      with eff k(2) show ?thesis by auto
    qed
    with k(1) show "uploaded_as a (view s') q c" by (auto simp: uploaded_as_def)
  qed
  show "r = Inr () \<Longrightarrow> uploaded_as a (view s') p body"
    using eff key by (auto simp: uploaded_as_def)
qed

lemma write_marker_keeps:
  assumes inv: "archived_ok a fs v" and p: "is_parquet p" "file_at fs p = Some body"
    and up: "uploaded_as a v p body" and w: "write_file os fs (upload_marker p) text' = (fs', r)"
  shows "archived_ok a fs' v \<and> segments_kept a fs fs' v"
proof (cases "fs' = fs")
  case True
  with inv show ?thesis by simp
next
  case False
  let ?m = "upload_marker p"
  have fs': "fs' = fs\<lparr>lf_files := AList.update ?m text' (lf_files fs)\<rparr>"
    using w False by (auto simp: write_file_def split: if_splits)
  have clean: "clean_fs fs" using inv by (simp add: archived_ok_def)
  have ne: "q \<noteq> ?m" if "is_parquet q" for q using that marker_not_parquet by blast
  have "clean_fs fs'"
    unfolding fs' by (intro clean_fs_update clean clean_marker clean_fs_file [OF clean p(2)]
        is_parquet_ne [OF p(1)])
  moreover have "uploaded_as a v q c"
    if "is_parquet q" "file_at fs' q = Some c" "path_exists fs' (upload_marker q)" for q c
  proof (cases "upload_marker q = ?m")
    case True
    then have "q = p" using upload_marker_inj is_parquet_ne that(1) p(1) by blast
    with that(2) ne [OF that(1)] p up show ?thesis by (simp add: fs')
  next
    case False
    with that ne [OF that(1)] inv show ?thesis by (simp add: fs' archived_ok_def)
  qed
  ultimately have "archived_ok a fs' v" unfolding archived_ok_def by blast
  moreover have "segments_kept a fs fs' v" using ne by (auto simp: segments_kept_def fs')
  ultimately show ?thesis ..
qed

lemma upload_keeps:
  assumes laws: "s3_laws b (ar_client a) view"
    and inv: "archived_ok a (as_fs st) (view (as_store st))"
    and run: "upload a clk st p force = Some (st', r)"
  shows "archived_ok a (as_fs st') (view (as_store st'))
    \<and> segments_kept a (as_fs st) (as_fs st') (view (as_store st'))"
proof (cases "st' = st")
  case True
  with inv show ?thesis by simp
next
  case False
  have pq: "is_file (as_fs st) p" "is_parquet p"
    using run False by (auto simp: upload_def is_parquet_def Let_def split: if_splits)
  then obtain body where body: "file_at (as_fs st) p = Some body" by (auto simp: is_file_def)
  obtain key where key: "object_key a p = Some key"
    using run False pq by (auto simp: upload_def Let_def split: if_splits option.splits)
  let ?put = "\<lparr>put_key = key, put_body = body, put_if_none_match = False, put_tiering = False\<rparr>"
  obtain s1 r1 where put: "put_object (ar_client a) (as_store st) ?put = (s1, r1)" by fastforce
  note k1 = put_segment_keeps [OF laws inv body key put]
  obtain fs2 r2 where w: "write_file (ar_os a) (as_fs st) (upload_marker p) (key @ ''\<newline>'') = (fs2, r2)"
    by fastforce
  have stages: "st' = st\<lparr>as_store := s1\<rparr>
      \<or> (r1 = Inr () \<and> (st' = st\<lparr>as_store := s1, as_fs := fs2\<rparr>
          \<or> (\<exists>r3. cleanup_if_due a clk (st\<lparr>as_store := s1, as_fs := fs2\<rparr>) = Some (st', r3))))"
    using run False pq body key put w
    by (auto simp: upload_def Let_def is_parquet_def await_s3_def
        split: if_splits option.splits sum.splits prod.splits)
  show ?thesis
  proof (cases "st' = st\<lparr>as_store := s1\<rparr>")
    case True
    with k1(1) show ?thesis by simp
  next
    case False
    with stages have r1: "r1 = Inr ()" by blast
    note k2 = write_marker_keeps [OF k1(1) pq(2) body k1(2) [OF r1] w]
    have "st' = st\<lparr>as_store := s1, as_fs := fs2\<rparr>
      \<or> (\<exists>r3. cleanup_if_due a clk (st\<lparr>as_store := s1, as_fs := fs2\<rparr>) = Some (st', r3))"
      using stages False by blast
    then show ?thesis
    proof
      assume "st' = st\<lparr>as_store := s1, as_fs := fs2\<rparr>"
      with k2 show ?thesis by simp
    next
      assume "\<exists>r3. cleanup_if_due a clk (st\<lparr>as_store := s1, as_fs := fs2\<rparr>) = Some (st', r3)"
      then obtain r3 where "cleanup_if_due a clk (st\<lparr>as_store := s1, as_fs := fs2\<rparr>) = Some (st', r3)" ..
      with k2 cleanup_if_due_keeps [of a "st\<lparr>as_store := s1, as_fs := fs2\<rparr>" "view s1" clk st' r3]
      show ?thesis by (auto intro: segments_kept_trans)
    qed
  qed
qed

text \<open>A put of a segment on disk does not touch the object of a segment that is gone.\<close>

lemma put_keeps_gone:
  assumes laws: "s3_laws b (ar_client a) view" and clean: "clean_fs fs" "clean_fs fs0"
    and p: "file_at fs p = Some body" and key: "object_key a p = Some key"
    and put: "put_object (ar_client a) s \<lparr>put_key = key, put_body = body, put_if_none_match = False,
                put_tiering = False\<rparr> = (s', r)"
    and kept: "segments_kept a fs0 fs (view s)"
  shows "segments_kept a fs0 fs (view s')"
  unfolding segments_kept_def
proof (intro allI impI)
  fix q
  assume q: "is_parquet q"
  show "file_at fs q = file_at fs0 q
      \<or> file_at fs q = None \<and> (\<forall>c. file_at fs0 q = Some c \<longrightarrow> uploaded_as a (view s') q c)"
  proof (cases "file_at fs q = file_at fs0 q")
    case False
    then have gone: "file_at fs q = None" "\<And>c. file_at fs0 q = Some c \<Longrightarrow> uploaded_as a (view s) q c"
      using kept q unfolding segments_kept_def by blast+
    have "uploaded_as a (view s') q c" if c: "file_at fs0 q = Some c" for c
    proof -
      obtain k where k: "object_key a q = Some k" "map_option obj_body (view s k) = Some c"
        using gone(2) [OF c] unfolding uploaded_as_def by blast
      have "k \<noteq> key"
      proof
        assume "k = key"
        then have "q = p"
          using object_key_inj [OF clean_fs_file [OF clean(2) c] clean_fs_file [OF clean(1) p]] k key
          by blast
        with gone(1) p show False by simp
      qed
      then have "map_option obj_body (view s' k) = Some c"
        using law_put [OF laws put] k(2) by auto
      with k(1) show ?thesis by (auto simp: uploaded_as_def)
    qed
    with gone(1) show ?thesis by blast
  qed simp
qed

definition archive_inv :: "'s archiver \<Rightarrow> ('s \<Rightarrow> s3_view) \<Rightarrow> local_fs \<Rightarrow> 's archive_state \<Rightarrow> bool" where
  "archive_inv a view fs0 st \<longleftrightarrow> clean_fs fs0 \<and> archived_ok a (as_fs st) (view (as_store st))
     \<and> segments_kept a fs0 (as_fs st) (view (as_store st))"

lemma upload_inv:
  assumes laws: "s3_laws b (ar_client a) view" and inv: "archive_inv a view fs0 st"
    and run: "upload a clk st p force = Some (st', r)"
  shows "archive_inv a view fs0 st'"
proof -
  have i: "clean_fs fs0" "archived_ok a (as_fs st) (view (as_store st))"
      "segments_kept a fs0 (as_fs st) (view (as_store st))"
    using inv by (auto simp: archive_inv_def)
  note k = upload_keeps [OF laws i(2) run]
  have "segments_kept a fs0 (as_fs st) (view (as_store st'))"
  proof (cases "as_store st' = as_store st")
    case True
    with i(3) show ?thesis by simp
  next
    case False
    have pq: "is_file (as_fs st) p" "is_parquet p"
      using run False by (auto simp: upload_def is_parquet_def Let_def split: if_splits)
    then obtain body where body: "file_at (as_fs st) p = Some body" by (auto simp: is_file_def)
    obtain key where key: "object_key a p = Some key"
      using run False pq by (auto simp: upload_def Let_def split: if_splits option.splits)
    let ?put = "\<lparr>put_key = key, put_body = body, put_if_none_match = False, put_tiering = False\<rparr>"
    obtain s1 r1 where put: "put_object (ar_client a) (as_store st) ?put = (s1, r1)" by fastforce
    have due: "as_store st3 = as_store st2" if "cleanup_if_due a clk st2 = Some (st3, r3)" for st2 st3 r3
      using that by (auto simp: cleanup_if_due_def split: option.splits sum.splits if_splits)
    have "as_store st' = s1"
      using run False pq body key put due
      by (auto simp: upload_def Let_def is_parquet_def split: if_splits option.splits sum.splits prod.splits)
    moreover have "clean_fs (as_fs st)" using i(2) by (simp add: archived_ok_def)
    ultimately show ?thesis using put_keeps_gone [OF laws _ i(1) body key put i(3)] by simp
  qed
  with k i(1) show ?thesis by (auto simp: archive_inv_def intro: segments_kept_trans)
qed

lemma attempt_upload_inv:
  assumes "s3_laws b (ar_client a) view" and "archive_inv a view fs0 st"
    and "attempt_upload a clks n st p = Some st'"
  shows "archive_inv a view fs0 st'"
  using assms(2,3)
proof (induction n arbitrary: st)
  case (Suc n)
  obtain st1 r1 where u: "upload a (clks (4 - n)) st p False = Some (st1, r1)"
    using Suc.prems(2) by (auto split: option.splits prod.splits)
  note i = upload_inv [OF assms(1) Suc.prems(1) u]
  with Suc u show ?case by (cases r1) auto
qed simp

lemma upload_each_inv:
  assumes "s3_laws b (ar_client a) view" and "archive_inv a view fs0 st"
    and "upload_each a clks ps st = Some st'"
  shows "archive_inv a view fs0 st'"
  using assms(2,3)
proof (induction ps arbitrary: st)
  case (Cons p ps)
  then show ?case
    by (auto simp: upload_with_retry_def split: if_splits option.splits
        dest: attempt_upload_inv [OF assms(1)])
qed simp

lemma export_each_inv:
  assumes "s3_laws b (ar_client a) view" and "archive_inv a view fs0 st"
    and "export_each a clks h force ps st bytes keys = Some (st', r)"
  shows "archive_inv a view fs0 st'"
  using assms(2,3)
proof (induction ps arbitrary: st bytes keys)
  case (Cons p ps)
  then show ?case
    by (auto simp: Let_def split: if_splits option.splits sum.splits prod.splits
        dest: upload_inv [OF assms(1)])
qed simp

lemma archive_inv_init:
  "archived_ok a (as_fs st) (view (as_store st)) \<Longrightarrow> archive_inv a view (as_fs st) st"
  by (auto simp: archive_inv_def archived_ok_def)

subsection \<open>The contract of the archiver's operations\<close>

text \<open>
  Every operation of the archiver keeps the invariant, relative to any disk \<open>fs0\<close> that holds the
  segments there were; hence a run of it loses no segment.
\<close>

locale archive_operation =
  fixes run :: "'s archiver \<Rightarrow> 's archive_state \<Rightarrow> 's archive_state \<Rightarrow> bool"
  assumes keeps: "s3_laws b (ar_client a) view \<Longrightarrow> archive_inv a view fs0 st \<Longrightarrow> run a st st' \<Longrightarrow>
      archive_inv a view fs0 st'"
begin

lemma keeps_segments:
  assumes "s3_laws b (ar_client a) view" and "archived_ok a (as_fs st) (view (as_store st))"
    and "run a st st'"
  shows "segments_kept a (as_fs st) (as_fs st') (view (as_store st'))
    \<and> archived_ok a (as_fs st') (view (as_store st'))"
  using keeps [OF assms(1) archive_inv_init [of a st view, OF assms(2)] assms(3)]
  by (simp add: archive_inv_def)

lemma repeated:
  assumes "s3_laws b (ar_client a) view" and "archive_inv a view fs0 st" and "(run a)\<^sup>*\<^sup>* st st'"
  shows "archive_inv a view fs0 st'"
  using assms(3,2) by (induction rule: rtranclp_induct) (auto intro: keeps [OF assms(1)])

end

interpretation single_upload: archive_operation
  "\<lambda>a st st'. \<exists>clk p force r. upload a clk st p force = Some (st', r)"
  by unfold_locales (auto intro: upload_inv)

interpretation retried_upload: archive_operation "\<lambda>a st st'. \<exists>clks p. upload_with_retry a clks st p = Some st'"
  by unfold_locales (auto simp: upload_with_retry_def intro: attempt_upload_inv)

lemma upload_pending_uploads:
  "upload_pending a clks st = Some (st', r) \<Longrightarrow> st' = st \<or> (\<exists>ps. upload_each a clks ps st = Some st')"
  by (auto simp: upload_pending_def split: sum.splits option.splits)

lemma export_hour_uploads:
  "export_hour a clks flushing t force st = Some (st', r) \<Longrightarrow>
   st' = st \<or> (\<exists>h ps q. export_each a clks h force ps st 0 [] = Some (st', q))"
  by (auto simp: export_hour_def split: sum.splits option.splits)

interpretation pending_scan: archive_operation "\<lambda>a st st'. \<exists>clks r. upload_pending a clks st = Some (st', r)"
  by unfold_locales (metis upload_pending_uploads upload_each_inv)

interpretation hour_export: archive_operation
  "\<lambda>a st st'. \<exists>clks flushing t force r. export_hour a clks flushing t force st = Some (st', r)"
  by unfold_locales (metis export_hour_uploads export_each_inv)

text \<open>
  C8. Exporting an hour, with its uploads, cleanups and any failures, never loses a segment: at
  the end each segment file is still on disk, or it is gone and the store holds its bytes under
  its key. Every segment on disk with an upload marker is in the store.
\<close>

theorem export_keeps_segments:
  assumes "s3_laws b (ar_client a) view" and "archived_ok a (as_fs st) (view (as_store st))"
    and "export_hour a clks flushing t force st = Some (st', r)"
  shows "segments_kept a (as_fs st) (as_fs st') (view (as_store st'))
    \<and> archived_ok a (as_fs st') (view (as_store st'))"
  using assms(3) by (intro hour_export.keeps_segments [OF assms(1,2)]) blast

subsection \<open>An instance\<close>

definition sample_calendar :: calendar where
  "sample_calendar = \<lparr>cal_year = (\<lambda>_. 2026), cal_month = (\<lambda>_. 8), cal_day = (\<lambda>_. 3), cal_hour = (\<lambda>_. 12),
     cal_parse_naive = (\<lambda>s. if s = ''2026-08-03 12:00:00'' then Some 0 else None)\<rparr>"

definition sample_archiver :: "mem_store archiver" where
  "sample_archiver = \<lparr>ar_directory = [''d''], ar_prefix = ''p'', ar_min_retention_hours = 1,
     ar_max_retention_hours = 2, ar_min_free_disk_percent = 10, ar_client = memory_s3 ''b'',
     ar_calendar = sample_calendar,
     ar_timelike = \<lparr>with_minute = (\<lambda>t _. Some t), with_second = (\<lambda>t _. Some t), with_nanosecond = (\<lambda>t _. Some t)\<rparr>,
     ar_os = sample_os, ar_elapsed = (\<lambda>_. False), ar_info_enabled = True\<rparr>"

definition sample_segment :: path where
  "sample_segment = [''d'', ''t'', ''2026-08-03'', ''12'', ''segment-1.parquet'']"

definition sample_archive_state :: "mem_store archive_state" where
  "sample_archive_state = \<lparr>as_fs = \<lparr>lf_files = [(sample_segment, ''rows'')],
       lf_dirs = [[''d''], [''d'', ''t''], [''d'', ''t'', ''2026-08-03''], [''d'', ''t'', ''2026-08-03'', ''12'']]\<rparr>,
     as_store = \<lparr>mem_table = [], mem_faults = []\<rparr>, as_last_cleanup = 0\<rparr>"

lemma sample_archived_ok:
  "archived_ok sample_archiver (as_fs sample_archive_state) (mem_objects (as_store sample_archive_state))"
proof -
  have "clean_fs (as_fs sample_archive_state)" by code_simp
  moreover have "\<not> path_exists (as_fs sample_archive_state) (upload_marker sample_segment)" by code_simp
  moreover have "p = sample_segment" if "file_at (as_fs sample_archive_state) p = Some b" for p b
    using that by (auto simp: file_at_def sample_archive_state_def split: if_splits)
  ultimately show ?thesis unfolding archived_ok_def by blast
qed

theorem export_keeps_segments_witness:
  "case export_hour sample_archiver (\<lambda>_. \<lparr>now_utc = 0, now_instant = 0\<rparr>) (Inr ()) 0 False sample_archive_state of
     Some (st, r) \<Rightarrow>
       segments_kept sample_archiver (as_fs sample_archive_state) (as_fs st) (mem_objects (as_store st))
       \<and> archived_ok sample_archiver (as_fs st) (mem_objects (as_store st))
       \<and> r = Inr [''p/t/2026-08-03/12/segment-1.parquet'']
   | None \<Rightarrow> False"
proof -
  have "map_option snd (export_hour sample_archiver (\<lambda>_. \<lparr>now_utc = 0, now_instant = 0\<rparr>) (Inr ()) 0 False
      sample_archive_state) = Some (Inr [''p/t/2026-08-03/12/segment-1.parquet''])"
    by code_simp
  then obtain st where e: "export_hour sample_archiver (\<lambda>_. \<lparr>now_utc = 0, now_instant = 0\<rparr>) (Inr ()) 0 False
      sample_archive_state = Some (st, Inr [''p/t/2026-08-03/12/segment-1.parquet''])"
    by auto
  have laws: "s3_laws ''b'' (ar_client sample_archiver) mem_objects"
    by (simp add: sample_archiver_def memory_s3_laws)
  from export_keeps_segments [OF laws sample_archived_ok e] e show ?thesis by simp
qed

subsection \<open>Uploading a segment that has expired\<close>

lemma is_file_keys: "is_file fs p \<longleftrightarrow> p \<in> set (map fst (lf_files fs))"
  by (simp add: is_file_def file_at_def map_of_eq_None_iff)

lemma is_dir_files [simp]: "is_dir (fs\<lparr>lf_files := xs\<rparr>) p = is_dir fs p"
  by (simp add: is_dir_def)

lemma is_file_delete [simp]:
  "is_file (fs\<lparr>lf_files := AList.delete q xs\<rparr>) p \<longleftrightarrow> p \<noteq> q \<and> is_file (fs\<lparr>lf_files := xs\<rparr>) p"
  by (simp add: is_file_def file_at_def AList.delete_conv')

lemma remove_file_Inr:
  "remove_file os fs p = (fs', Inr ()) \<longleftrightarrow>
   os_ok os (Remove_File p) \<and> is_file fs p \<and> fs' = fs\<lparr>lf_files := AList.delete p (lf_files fs)\<rparr>"
  by (auto simp: remove_file_def)

lemma tree_fs_marker:
  assumes "tree_fs root fs" and "is_file fs p" and "strict_prefix root p" and "\<not> is_dir fs (upload_marker p)"
  shows "tree_fs root (fs\<lparr>lf_files := AList.update (upload_marker p) b (lf_files fs)\<rparr>)"
proof -
  have "butlast p \<in> set (lf_dirs fs)" using assms(1-3) by (auto simp: tree_fs_def is_file_keys)
  then show ?thesis
    using assms(1,4) by (auto simp: tree_fs_def update_keys upload_marker_def is_dir_def)
qed

text \<open>A cleanup that succeeds has removed every expired segment with a marker that it saw.\<close>

lemma cleanup_files_gone:
  assumes "cleanup_files a cutoff ps fs = (fs', Inr ())" and "list_all is_parquet ps" and "\<not> is_file fs p"
  shows "\<not> is_file fs' p"
  using assms
  by (induction ps arbitrary: fs) (auto simp: remove_file_Inr split: option.splits if_splits prod.splits sum.splits)

lemma cleanup_files_removes:
  assumes "cleanup_files a cutoff ps fs = (fs', Inr ())" and "list_all is_parquet ps" and "p \<in> set ps"
    and "hour_from_path (ar_calendar a) p = Some h" and "h \<le> cutoff" and "path_exists fs (upload_marker p)"
  shows "\<not> is_file fs' p"
  using assms
proof (induction ps arbitrary: fs)
  case (Cons q qs)
  have q: "is_parquet q" "is_parquet p" using Cons.prems(2,3) by (auto simp: list_all_iff)
  show ?case
  proof (cases "\<exists>g. hour_from_path (ar_calendar a) q = Some g \<and> g \<le> cutoff \<and> path_exists fs (upload_marker q)")
    case False
    then have "q \<noteq> p" using Cons.prems(4-6) by auto
    moreover have "cleanup_files a cutoff qs fs = (fs', Inr ())"
      using Cons.prems(1) False by (auto split: option.splits if_splits)
    ultimately show ?thesis using Cons.IH Cons.prems by auto
  next
    case True
    let ?fs1 = "fs\<lparr>lf_files := AList.delete q (lf_files fs)\<rparr>"
    let ?fs2 = "?fs1\<lparr>lf_files := AList.delete (upload_marker q) (lf_files ?fs1)\<rparr>"
    have run: "cleanup_files a cutoff qs ?fs2 = (fs', Inr ())"
      using Cons.prems(1) True
      by (auto simp: remove_file_Inr split: option.splits if_splits prod.splits sum.splits)
    show ?thesis
    proof (cases "q = p")
      case True
      have "\<not> is_file ?fs2 p" using True by simp
      with cleanup_files_gone [OF run] show ?thesis using Cons.prems(2) by simp
    next
      case False
      then have "upload_marker p \<noteq> upload_marker q"
        using upload_marker_inj is_parquet_ne q by blast
      moreover have "upload_marker p \<noteq> q" using marker_not_parquet q(1) by metis
      ultimately have "path_exists ?fs2 (upload_marker p)"
        using Cons.prems(6) by (auto simp: path_exists_def)
      moreover have "list_all is_parquet qs" and "p \<in> set qs" using Cons.prems(2,3) False by simp_all
      ultimately show ?thesis using Cons.IH [OF run] Cons.prems(4,5) by blast
    qed
  qed
qed simp

text \<open>It does succeed when the system calls do.\<close>

lemma cleanup_files_succeeds:
  assumes "\<forall>call. os_ok (ar_os a) call" and "distinct ps" and "list_all is_parquet ps"
    and "\<forall>p \<in> set ps. is_file fs p \<and> \<not> is_dir fs (upload_marker p)"
  shows "snd (cleanup_files a cutoff ps fs) = Inr ()"
  using assms(2-)
proof (induction ps arbitrary: fs)
  case (Cons p ps)
  let ?fs1 = "fs\<lparr>lf_files := AList.delete p (lf_files fs)\<rparr>"
  let ?fs2 = "?fs1\<lparr>lf_files := AList.delete (upload_marker p) (lf_files ?fs1)\<rparr>"
  have "\<forall>q \<in> set ps. q \<noteq> p \<and> q \<noteq> upload_marker p"
    using Cons.prems(1,2) marker_not_parquet by (auto simp: list_all_iff)
  then have later: "\<forall>q \<in> set ps. is_file ?fs2 q \<and> \<not> is_dir ?fs2 (upload_marker q)"
    using Cons.prems(3) by simp
  have rest: "snd (cleanup_files a cutoff ps ?fs2) = Inr ()"
    using Cons.IH [OF _ _ later] Cons.prems(1,2) by simp
  have "is_parquet p" using Cons.prems(2) by simp
  then have "upload_marker p \<noteq> p" using marker_not_parquet by metis
  with rest Cons show ?case
    using assms(1) by (auto simp: remove_file_def path_exists_def split: option.splits)
qed simp

text \<open>The archiver's cutoff, when the calls it is computed from succeed.\<close>

definition cleanup_cutoff :: "'s archiver \<Rightarrow> datetime \<Rightarrow> datetime \<Rightarrow> bool" where
  "cleanup_cutoff a now cutoff \<longleftrightarrow>
     (\<exists>total_bytes available this_hour.
        os_total_space (ar_os a) = Some total_bytes \<and> os_available_space (ar_os a) = Some available
        \<and> floor_hour (ar_timelike a) now = Inr this_hour
        \<and> cutoff = this_hour - hours (int (retention_hours a (free_percent available total_bytes)))
        \<and> in_i64 (int (retention_hours a (free_percent available total_bytes))))"

lemma cleanup_cutoff_eq:
  assumes "cleanup_cutoff a now cutoff" and "parquet_files (ar_os a) fs (ar_directory a) = Some (Inr ps)"
  shows "cleanup a now fs = Some (cleanup_files a cutoff ps fs)"
  using assms by (auto simp: cleanup_cutoff_def cleanup_def Let_def)

lemma cleanup_removes_expired:
  assumes "tree_fs (ar_directory a) fs" and "lists_dirs (ar_os a)" and "is_dir fs (ar_directory a)"
    and cutoff: "cleanup_cutoff a now cutoff"
    and p: "is_file fs p" "is_parquet p" "strict_prefix (ar_directory a) p" "path_exists fs (upload_marker p)"
    and h: "hour_from_path (ar_calendar a) p = Some h" "h \<le> cutoff"
  shows "\<exists>fs' r. cleanup a now fs = Some (fs', r) \<and> (r = Inr () \<longrightarrow> \<not> path_exists fs' p)
    \<and> ((\<forall>call. os_ok (ar_os a) call) \<and> (\<forall>q. is_parquet q \<longrightarrow> \<not> is_dir fs (upload_marker q)) \<longrightarrow> r = Inr ())"
proof -
  obtain ps where ps: "parquet_files (ar_os a) fs (ar_directory a) = Some (Inr ps)"
      "mset ps = mset (filter (\<lambda>p. is_parquet p \<and> strict_prefix (ar_directory a) p) (map fst (lf_files fs)))"
    using find_parquet_complete [OF assms(1,2), of "[ar_directory a]" "[]"] assms(3)
    by (auto simp: parquet_files_def found_below_def below_def)
  have dist: "distinct (lf_dirs fs @ map fst (lf_files fs))" using assms(1) by (simp add: tree_fs_def)
  have set: "set ps = {q \<in> set (map fst (lf_files fs)). is_parquet q \<and> strict_prefix (ar_directory a) q}"
    using mset_eq_setD [OF ps(2)] by auto
  have "distinct ps" using mset_eq_imp_distinct_iff [OF ps(2)] dist by simp
  obtain fs' r where run: "cleanup_files a cutoff ps fs = (fs', r)" by fastforce
  have dirs: "lf_dirs fs' = lf_dirs fs"
    using run
    by (induction ps arbitrary: fs)
      (auto simp: remove_file_def split: option.splits if_splits prod.splits sum.splits)
  have "p \<in> set ps" using p by (simp add: set is_file_keys)
  then have "r = Inr () \<longrightarrow> \<not> is_file fs' p"
    using cleanup_files_removes [of a cutoff ps fs fs' p h] run h p(4) set by (auto simp: list_all_iff)
  moreover have "\<not> is_dir fs' p" using dist p(1) dirs by (auto simp: is_dir_def is_file_keys)
  moreover have "r = Inr ()"
    if "\<forall>call. os_ok (ar_os a) call" "\<forall>q. is_parquet q \<longrightarrow> \<not> is_dir fs (upload_marker q)"
    using cleanup_files_succeeds [OF that(1) \<open>distinct ps\<close>, of fs cutoff] run that(2) set
    by (auto simp: list_all_iff is_file_keys)
  ultimately show ?thesis
    using cleanup_cutoff_eq [OF cutoff ps(1)] run by (auto simp: path_exists_def)
qed

text \<open>
  C30. While a cleanup is due and info messages are logged, uploading a segment that is past the
  retention time never reports success. Here the disk is a tree whose directories can be listed,
  and no directory has the name of a marker. When every request and every system call succeeds, the segment is uploaded and the
  cleanup then deletes it before its size is read for the log message: the error is that of the
  size, although the store holds the bytes.
\<close>

theorem upload_of_expired_segment_reports_error:
  assumes "s3_laws b (ar_client a) view"
    and "tree_fs (ar_directory a) (as_fs st)" and "lists_dirs (ar_os a)"
    and "is_dir (as_fs st) (ar_directory a)"
    and "file_at (as_fs st) p = Some body" and "is_parquet p" and "strict_prefix (ar_directory a) p"
    and "\<forall>q. is_parquet q \<longrightarrow> \<not> is_dir (as_fs st) (upload_marker q)"
    and "force \<or> \<not> path_exists (as_fs st) (upload_marker p)"
    and "ar_info_enabled a"
    and "cleanup_interval \<le> now_instant clk - as_last_cleanup st"
    and "cleanup_cutoff a (now_utc clk) cutoff"
    and "hour_from_path (ar_calendar a) p = Some h" and "h \<le> cutoff"
  shows "\<exists>st' e. upload a clk st p force = Some (st', Inl e)
    \<and> ((\<forall>call. os_ok (ar_os a) call) \<and> (\<forall>key. \<not> ar_elapsed a key)
        \<and> (\<forall>q. snd (put_object (ar_client a) (as_store st) q) = Inr ()) \<longrightarrow>
       e = ''metadata'' \<and> file_at (as_fs st') p = None \<and> uploaded_as a (view (as_store st')) p body)"
proof -
  let ?os = "ar_os a" and ?m = "upload_marker p"
  have p: "is_file (as_fs st) p" "path_extension p = Some ''parquet''"
    using assms(5,6) by (simp_all add: is_file_def is_parquet_def)
  obtain key where key: "object_key a p = Some key"
    using assms(7) by (auto simp: object_key_def strict_prefix_def prefix_def)
  let ?put = "\<lparr>put_key = key, put_body = body, put_if_none_match = False, put_tiering = False\<rparr>"
  obtain s1 r1 where put: "put_object (ar_client a) (as_store st) ?put = (s1, r1)" by fastforce
  let ?fs = "(as_fs st)\<lparr>lf_files := AList.update ?m (key @ ''\<newline>'') (lf_files (as_fs st))\<rparr>"
  have "tree_fs (ar_directory a) ?fs" by (rule tree_fs_marker [OF assms(2) p(1) assms(7)]) (use assms(6,8) in blast)
  moreover have "is_file ?fs p" using p(1) by (simp add: is_file_def)
  ultimately obtain fs' r where c: "cleanup a (now_utc clk) ?fs = Some (fs', r)"
      and gone: "r = Inr () \<Longrightarrow> \<not> path_exists fs' p"
      and ok: "(\<forall>call. os_ok ?os call) \<Longrightarrow> r = Inr ()"
    using cleanup_removes_expired [OF _ assms(3) _ assms(12) _ assms(6,7) _ assms(13,14), of ?fs] assms(4,8)
    by auto
  let ?st = "st\<lparr>as_store := s1, as_fs := ?fs\<rparr>"
  have due: "cleanup_if_due a clk ?st =
      Some (case r of Inl e \<Rightarrow> (?st\<lparr>as_fs := fs'\<rparr>, Inl e)
        | Inr _ \<Rightarrow> (?st\<lparr>as_fs := fs', as_last_cleanup := now_instant clk\<rparr>, Inr ()))"
    using assms(11) c by (simp add: cleanup_if_due_def split: sum.splits)
  have nomark: "\<not> (path_exists (as_fs st) ?m \<and> \<not> force)" using assms(9) by blast
  have failed: "\<exists>st' e. upload a clk st p force = Some (st', Inl e)"
    using p assms(5,10) nomark key put due gone
    by (auto simp: upload_def Let_def await_s3_def write_file_def split: sum.splits)
  have "upload a clk st p force =
      Some (?st\<lparr>as_fs := fs', as_last_cleanup := now_instant clk\<rparr>, Inl ''metadata'')"
      and "\<not> path_exists fs' p" and "r1 = Inr ()"
    if "\<forall>call. os_ok ?os call" "\<forall>key. \<not> ar_elapsed a key"
      "\<forall>q. snd (put_object (ar_client a) (as_store st) q) = Inr ()"
  proof -
    show r1: "r1 = Inr ()" using that(3) put by (metis snd_conv)
    show g: "\<not> path_exists fs' p" using gone ok that(1) by blast
    show "upload a clk st p force =
        Some (?st\<lparr>as_fs := fs', as_last_cleanup := now_instant clk\<rparr>, Inl ''metadata'')"
      using p assms(5,10) nomark key put due g that(1,2) r1 ok [OF that(1)]
      by (cases force) (simp_all add: upload_def Let_def await_s3_def write_file_def)
  qed
  moreover have "uploaded_as a (view s1) p body" if "r1 = Inr ()"
    using law_put [OF assms(1) put] that key by (auto simp: uploaded_as_def)
  ultimately show ?thesis using failed by (auto simp: path_exists_def is_file_def)
qed

theorem upload_of_expired_segment_reports_error_witness:
  "\<exists>st. upload sample_archiver \<lparr>now_utc = hours 3, now_instant = cleanup_interval\<rparr> sample_archive_state
       sample_segment False = Some (st, Inl ''metadata'')
     \<and> file_at (as_fs st) sample_segment = None
     \<and> uploaded_as sample_archiver (mem_objects (as_store st)) sample_segment ''rows''"
proof -
  let ?clk = "\<lparr>now_utc = hours 3, now_instant = cleanup_interval\<rparr>"
  have laws: "s3_laws ''b'' (ar_client sample_archiver) mem_objects"
    by (simp add: sample_archiver_def memory_s3_laws)
  have dir: "ar_directory sample_archiver = [''d'']" and os: "ar_os sample_archiver = sample_os"
      and last: "as_last_cleanup sample_archive_state = 0"
    by (simp_all add: sample_archiver_def sample_archive_state_def)
  have "tree_fs [''d''] (as_fs sample_archive_state)"
    by (simp add: tree_fs_def sample_archive_state_def sample_segment_def)
  moreover have "is_dir (as_fs sample_archive_state) [''d'']" by code_simp
  moreover have "file_at (as_fs sample_archive_state) sample_segment = Some ''rows''" by code_simp
  moreover have "is_parquet sample_segment" and "strict_prefix [''d''] sample_segment"
      and "\<not> path_exists (as_fs sample_archive_state) (upload_marker sample_segment)"
      and "ar_info_enabled sample_archiver"
    by code_simp+
  moreover have "\<forall>q. is_parquet q \<longrightarrow> \<not> is_dir (as_fs sample_archive_state) (upload_marker q)"
  proof (intro allI impI)
    fix q :: path
    have "\<exists>w. last (upload_marker q) = w @ ''.uploaded''" by (simp add: upload_marker_def)
    then have "4 < length (last (upload_marker q)) \<and> last (last (upload_marker q)) = CHR ''d''" by auto
    moreover have "\<forall>d \<in> set (lf_dirs (as_fs sample_archive_state)).
        \<not> (4 < length (last d) \<and> last (last d) = CHR ''d'')" by code_simp
    ultimately show "\<not> is_dir (as_fs sample_archive_state) (upload_marker q)" by (auto simp: is_dir_def)
  qed
  moreover have "cleanup_cutoff sample_archiver (now_utc ?clk) (hours 3 - hours 2)"
    unfolding cleanup_cutoff_def
    by (rule exI [of _ 100], rule exI [of _ 50], rule exI [of _ "hours 3"])
      (simp add: sample_archiver_def sample_os_def floor_hour_def retention_hours_def free_percent_def
        saturating_mul_def usize_max_def in_i64_def i64_min_def i64_max_def)
  moreover have "hour_from_path (ar_calendar sample_archiver) sample_segment = Some 0" by code_simp
  moreover have "(0 :: datetime) \<le> hours 3 - hours 2" by code_simp
  moreover have "\<forall>q. snd (put_object (ar_client sample_archiver) (as_store sample_archive_state) q) = Inr ()"
    by (auto simp: sample_archiver_def sample_archive_state_def memory_s3_def mem_request_def
        mem_fails_def mem_objects_def mem_insert_def)
  moreover have "\<forall>call. os_ok sample_os call" and "\<forall>key. \<not> ar_elapsed sample_archiver key"
    by (simp_all add: sample_os_def sample_archiver_def)
  ultimately show ?thesis
    using upload_of_expired_segment_reports_error [of "''b''" sample_archiver mem_objects sample_archive_state
        sample_segment "''rows''" False ?clk "hours 3 - hours 2" 0, OF laws, unfolded dir os last]
      lists_sample_os by auto
qed

end
