(* ===== verification/Archive_Task.thy ===== *)
theory Archive_Task
  imports Archive_Safety
begin

section \<open>The archiver beside the writer\<close>

text \<open>
  The task of \<open>Archiver::spawn\<close>, which uploads finished segments as the encoder announces them
  and scans for pending ones every minute, and the exports of the HTTP interface, while the
  writer goes on publishing segments on the same disk. An upload holds the lock, so what
  interleaves are single uploads and single publications.
\<close>

subsection \<open>The task\<close>

text \<open>What \<open>select!\<close> yields: a finished segment, the end of the channel, or the timer.\<close>

datatype task_event = Received path | ChannelClosed | ScanDue

text \<open>\<open>clks i\<close> are the clocks of the \<open>i\<close>-th event; \<open>None\<close> is a traversal that does not end.\<close>

fun archiver_task ::
  "'s archiver \<Rightarrow> (nat \<Rightarrow> path \<Rightarrow> nat \<Rightarrow> archive_clock) \<Rightarrow> nat \<Rightarrow> task_event list \<Rightarrow> 's archive_state \<Rightarrow>
   's archive_state option" where
  "archiver_task a clks i [] st = Some st"
| "archiver_task a clks i (Received p # es) st =
     Option.bind (upload_with_retry a (clks i p) st p) (archiver_task a clks (Suc i) es)"
| "archiver_task a clks i (ChannelClosed # es) st = Some st"
| "archiver_task a clks i (ScanDue # es) st =
     Option.bind (upload_pending a (clks i) st) (\<lambda>(st, _). archiver_task a clks (Suc i) es st)"

subsection \<open>Every handler is a sequence of uploads\<close>

definition upload_step :: "'s archiver \<Rightarrow> 's archive_state \<Rightarrow> 's archive_state \<Rightarrow> bool" where
  "upload_step a st st' \<longleftrightarrow> (\<exists>clk p force r. upload a clk st p force = Some (st', r))"

lemma upload_steps:
  "upload a clk st p force = Some (st1, r) \<Longrightarrow> (upload_step a)\<^sup>*\<^sup>* st1 st' \<Longrightarrow> (upload_step a)\<^sup>*\<^sup>* st st'"
  unfolding upload_step_def by (rule converse_rtranclp_into_rtranclp) blast

lemma attempt_upload_steps:
  "attempt_upload a clks n st p = Some st' \<Longrightarrow> (upload_step a)\<^sup>*\<^sup>* st st'"
proof (induction n arbitrary: st)
  case (Suc n)
  then obtain st1 r where "upload a (clks (4 - n)) st p False = Some (st1, r)"
    by (auto split: option.splits)
  then show ?case using Suc by (cases r) (auto intro: upload_steps)
qed simp

lemma upload_each_steps:
  "upload_each a clks ps st = Some st' \<Longrightarrow> (upload_step a)\<^sup>*\<^sup>* st st'"
proof (induction ps arbitrary: st)
  case (Cons p ps)
  then show ?case
    by (auto simp: upload_with_retry_def split: if_splits option.splits
        dest!: attempt_upload_steps intro: rtranclp_trans)
qed simp

lemma export_each_steps:
  "export_each a clks h force ps st bytes keys = Some (st', r) \<Longrightarrow> (upload_step a)\<^sup>*\<^sup>* st st'"
proof (induction ps arbitrary: st bytes keys)
  case (Cons p ps)
  then show ?case
    by (auto simp: Let_def split: if_splits option.splits sum.splits prod.splits intro: upload_steps)
qed simp

lemma upload_pending_steps: "upload_pending a clks st = Some (st', r) \<Longrightarrow> (upload_step a)\<^sup>*\<^sup>* st st'"
  by (drule upload_pending_uploads) (auto intro: upload_each_steps)

lemma export_hour_steps:
  "export_hour a clks flushing t force st = Some (st', r) \<Longrightarrow> (upload_step a)\<^sup>*\<^sup>* st st'"
  by (drule export_hour_uploads) (auto intro: export_each_steps)

lemma archiver_task_steps: "archiver_task a clks i es st = Some st' \<Longrightarrow> (upload_step a)\<^sup>*\<^sup>* st st'"
proof (induction a clks i es st rule: archiver_task.induct)
  case (2 a clks i p es st)
  then show ?case
    by (auto simp: upload_with_retry_def split: Option.bind_splits dest!: attempt_upload_steps
        intro: rtranclp_trans)
next
  case (4 a clks i es st)
  then show ?case
    by (auto split: Option.bind_splits dest!: upload_pending_steps intro: rtranclp_trans)
qed auto

subsection \<open>The writer publishes\<close>

text \<open>
  The rename at the end of \<open>write_segment\<close> as the archiver's disk sees it: a complete file
  appears, and so may directories above it. \<open>publishable\<close> is what the writer guarantees: the
  path is new, has no marker yet, and no directory is named like a marker.
\<close>

definition publish :: "path \<Rightarrow> string \<Rightarrow> path list \<Rightarrow> local_fs \<Rightarrow> local_fs" where
  "publish p b ds fs = fs\<lparr>lf_files := AList.update p b (lf_files fs), lf_dirs := lf_dirs fs @ ds\<rparr>"

definition publishable :: "local_fs \<Rightarrow> path \<Rightarrow> path list \<Rightarrow> bool" where
  "publishable fs p ds \<longleftrightarrow> is_parquet p \<and> clean_path p \<and> \<not> path_exists fs p
     \<and> \<not> path_exists fs (upload_marker p)
     \<and> list_all (\<lambda>d. d = [] \<or> \<not> ends_with (last d) ''.uploaded'') ds"

text \<open>
  Steps of archiver and writer together; the first component collects every segment there ever
  was, with its bytes.
\<close>

inductive archive_step ::
  "'s archiver \<Rightarrow> local_fs \<times> 's archive_state \<Rightarrow> local_fs \<times> 's archive_state \<Rightarrow> bool" for a where
  uploaded: "upload_step a st st' \<Longrightarrow> archive_step a (born, st) (born, st')"
| published: "publishable (as_fs st) p ds \<Longrightarrow> file_at born p = None \<Longrightarrow>
    archive_step a (born, st) (publish p b [] born, st\<lparr>as_fs := publish p b ds (as_fs st)\<rparr>)"

lemma handler_steps: "(upload_step a)\<^sup>*\<^sup>* st st' \<Longrightarrow> (archive_step a)\<^sup>*\<^sup>* (born, st) (born, st')"
  by (induction rule: rtranclp_induct) (auto intro: archive_step.uploaded rtranclp.rtrancl_into_rtrancl)

lemma file_at_publish [simp]: "file_at (publish p b ds fs) q = (if q = p then Some b else file_at fs q)"
  by (simp add: file_at_def publish_def update_conv')

lemma clean_fs_publish: "clean_fs fs \<Longrightarrow> clean_path p \<Longrightarrow> clean_fs (publish p b ds fs)"
  using clean_fs_update [of fs p b] by (simp add: publish_def clean_fs_def)

lemma marker_publish:
  assumes "publishable fs p ds"
  shows "path_exists (publish p b ds fs) (upload_marker q) \<longleftrightarrow> path_exists fs (upload_marker q)"
proof -
  have "upload_marker q \<noteq> p" using assms marker_not_parquet by (auto simp: publishable_def)
  moreover have "upload_marker q \<noteq> []" "ends_with (last (upload_marker q)) ''.uploaded''"
    by (simp_all add: upload_marker_def ends_with_def suffix_def)
  then have "upload_marker q \<notin> set ds"
    using assms unfolding publishable_def list_all_iff by blast
  ultimately show ?thesis
    by (simp add: path_exists_def is_file_def is_dir_def) (auto simp: publish_def)
qed

lemma publish_inv:
  assumes inv: "archive_inv a view born st" and new: "publishable (as_fs st) p ds" "file_at born p = None"
  shows "archive_inv a view (publish p b [] born) (st\<lparr>as_fs := publish p b ds (as_fs st)\<rparr>)"
proof -
  have p: "clean_path p" "\<not> path_exists (as_fs st) (upload_marker p)"
    using new(1) by (simp_all add: publishable_def)
  have "archived_ok a (publish p b ds (as_fs st)) (view (as_store st))"
    using inv p marker_publish [OF new(1)]
    by (auto simp: archive_inv_def archived_ok_def clean_fs_publish)
  moreover have "segments_kept a (publish p b [] born) (publish p b ds (as_fs st)) (view (as_store st))"
    using inv by (simp add: archive_inv_def segments_kept_def)
  ultimately show ?thesis using inv p(1) by (simp add: archive_inv_def clean_fs_publish)
qed

text \<open>The paths of the writer's segments qualify, if the configured names are path components.\<close>

lemma segment_path_publishable:
  assumes "clean_path root" and "clean_path [exchange, table]"
  shows "is_parquet (segment_path cal root exchange m h sequence table)"
    and "clean_path (segment_path cal root exchange m h sequence table)"
proof -
  show "is_parquet (segment_path cal root exchange m h sequence table)"
    by (simp add: is_parquet_def segment_path_def segment_name_extension)
  have "market_as_str m \<noteq> []" "CHR ''/'' \<notin> set (market_as_str m)"
    by (cases m; simp)+
  then show "clean_path (segment_path cal root exchange m h sequence table)"
    using assms no_slash_names
    by (auto simp: clean_path_def segment_path_def segment_directory_def day_directory_def
        hour_directory_def segment_name_def)
qed

lemma archive_steps_inv:
  assumes "s3_laws b (ar_client a) view" and "archive_inv a view born st"
    and "(archive_step a)\<^sup>*\<^sup>* (born, st) (born', st')"
  shows "archive_inv a view born' st'"
  using assms(3)
proof (induction rule: rtranclp_induct2)
  case (step born1 st1 born2 st2)
  from step.hyps(2) show ?case
  proof (cases rule: archive_step.cases)
    case uploaded
    then show ?thesis
      using single_upload.keeps [OF assms(1) step.IH] by (auto simp: upload_step_def)
  next
    case published
    then show ?thesis using publish_inv [OF step.IH] by auto
  qed
qed (rule assms(2))

text \<open>
  C9. No published segment is ever lost. Whatever the archiver's task, its scans and the exports
  upload and clean up, in whatever interleaving with the writer's publications and with whatever
  failures: each segment that was on disk at the start or was published since is still on disk
  with its bytes, or it is gone and the store holds these bytes under its key.
\<close>

theorem published_segments_survive:
  assumes "s3_laws bucket (ar_client a) view" and "archived_ok a (as_fs st) (view (as_store st))"
    and "(archive_step a)\<^sup>*\<^sup>* (as_fs st, st) (born, st')"
    and "is_parquet p" and "file_at born p = Some b"
  shows "file_at (as_fs st') p = Some b
    \<or> file_at (as_fs st') p = None \<and> uploaded_as a (view (as_store st')) p b"
proof -
  have "segments_kept a born (as_fs st') (view (as_store st'))"
    using archive_steps_inv [OF assms(1) archive_inv_init [of a st view, OF assms(2)] assms(3)]
    by (simp add: archive_inv_def)
  with assms(4,5) show ?thesis unfolding segments_kept_def by metis
qed

subsection \<open>An instance\<close>

definition second_segment :: path where
  "second_segment = [''d'', ''t'', ''2026-08-03'', ''12'', ''segment-2.parquet'']"

text \<open>A segment is published, the task uploads it and deletes it an hour after its time.\<close>

definition second_published :: "mem_store archive_state" where
  "second_published = sample_archive_state\<lparr>as_fs := publish second_segment ''new rows'' [] (as_fs sample_archive_state)\<rparr>"

lemma second_uploaded:
  "case archiver_task sample_archiver (\<lambda>_ _ _. \<lparr>now_utc = hours 3, now_instant = cleanup_interval\<rparr>) 0
       [Received second_segment, ScanDue, ChannelClosed] second_published of
     Some st \<Rightarrow> file_at (as_fs st) second_segment = None | None \<Rightarrow> False"
  by code_simp

theorem published_segments_survive_witness:
  "\<exists>st. archiver_task sample_archiver (\<lambda>_ _ _. \<lparr>now_utc = hours 3, now_instant = cleanup_interval\<rparr>) 0
       [Received second_segment, ScanDue, ChannelClosed] second_published = Some st
     \<and> uploaded_as sample_archiver (mem_objects (as_store st)) second_segment ''new rows''"
proof -
  obtain st where st: "archiver_task sample_archiver (\<lambda>_ _ _. \<lparr>now_utc = hours 3, now_instant = cleanup_interval\<rparr>) 0
       [Received second_segment, ScanDue, ChannelClosed] second_published = Some st"
      "file_at (as_fs st) second_segment = None"
    using second_uploaded by (auto split: option.splits)
  have new: "publishable (as_fs sample_archive_state) second_segment []" by code_simp
  have fresh: "file_at (as_fs sample_archive_state) second_segment = None" by code_simp
  let ?born = "publish second_segment ''new rows'' [] (as_fs sample_archive_state)"
  have "archive_step sample_archiver (as_fs sample_archive_state, sample_archive_state) (?born, second_published)"
    unfolding second_published_def by (rule archive_step.published [OF new fresh])
  then have run: "(archive_step sample_archiver)\<^sup>*\<^sup>* (as_fs sample_archive_state, sample_archive_state) (?born, st)"
    using handler_steps [OF archiver_task_steps [OF st(1)]] by (rule converse_rtranclp_into_rtranclp)
  have laws: "s3_laws ''b'' (ar_client sample_archiver) mem_objects"
    by (simp add: sample_archiver_def memory_s3_laws)
  have "is_parquet second_segment" by code_simp
  moreover have "file_at ?born second_segment = Some ''new rows''" by simp
  ultimately show ?thesis
    using published_segments_survive [OF laws sample_archived_ok run] st by fastforce
qed

end
