(* ===== verification/Compactor.thy ===== *)
theory Compactor
  imports Compactor_Keys Object_Store
begin

section \<open>Compaction: merging a partition and retiring its sources\<close>

text \<open>
  The effectful half of \<open>src/compactor.rs\<close>: \<open>Compactor\<close>'s methods over the object store.
  Every method takes the state \<open>s\<close> of the store and returns the state after its requests with
  its \<open>Result\<close>. The steps on the local workspace succeed or fail as \<open>cp_local\<close> says; the
  clock is a parameter that names each reading. Log messages are left out.
\<close>

subsection \<open>The compactor and its environment\<close>

datatype local_step =
    Create_Workspace | Create_Input nat | Copy_Input nat | Open_Input nat | Create_Output
  | Remove_Input nat | Open_Output | Read_Output

datatype reading =
    Settle_Now | Window_Now | Entry_Now string | Completed_Now string | Updated_Now string
  | Prune_Now | Stale_Now | Lock_Now

type_synonym clock = "reading \<Rightarrow> datetime"

record parquet_lib =
  pq_open :: "string \<Rightarrow> schema result"
  pq_batches :: "nat \<Rightarrow> string \<Rightarrow> record_batch result list result"
  pq_properties :: "unit result"
  pq_new_writer :: "schema \<Rightarrow> unit result"
  pq_write :: "schema \<Rightarrow> record_batch list \<Rightarrow> record_batch \<Rightarrow> unit result"
  pq_close :: "schema \<Rightarrow> record_batch list \<Rightarrow> string result"
  pq_num_rows :: "string \<Rightarrow> int result"

record 's compactor =
  cp_options :: compactor_options
  cp_client :: "'s s3_client"
  cp_chrono :: chrono
  cp_kernels :: arrow_kernels
  cp_parquet :: parquet_lib
  cp_local :: "local_step \<Rightarrow> bool"
  cp_encode_checkpoint :: "checkpoint \<Rightarrow> string option"
  cp_decode_checkpoint :: "string \<Rightarrow> checkpoint option"
  cp_encode_completion :: "completion \<Rightarrow> string option"
  cp_rfc3339 :: "datetime \<Rightarrow> string"

definition local_io :: "'s compactor \<Rightarrow> local_step \<Rightarrow> error \<Rightarrow> unit result" where
  "local_io c step message = (if cp_local c step then Inr () else Inl message)"

definition put_request :: "string \<Rightarrow> string \<Rightarrow> put_input" where
  "put_request k body =
     \<lparr>put_key = k, put_body = body, put_if_none_match = False, put_tiering = False\<rparr>"

text \<open>A request whose error is only given a context.\<close>

definition with_message :: "'s \<times> (s3_error + 'a) \<Rightarrow> error \<Rightarrow> 's \<times> 'a result" where
  "with_message r message =
     (case r of (s, Inl _) \<Rightarrow> (s, Inl message) | (s, Inr x) \<Rightarrow> (s, Inr x))"

definition bind_state :: "'s \<times> 'a result \<Rightarrow> ('s \<Rightarrow> 'a \<Rightarrow> 's \<times> 'b result) \<Rightarrow> 's \<times> 'b result" where
  "bind_state r f = (case r of (s, Inl e) \<Rightarrow> (s, Inl e) | (s, Inr x) \<Rightarrow> f s x)"

text \<open>\<open>u64::try_from(length.unwrap_or_default()).unwrap_or_default()\<close>\<close>

definition length_or_zero :: "int option \<Rightarrow> nat" where
  "length_or_zero n = (case n of None \<Rightarrow> 0 | Some v \<Rightarrow> if 0 \<le> v then nat v else 0)"

subsection \<open>Checkpoint and lock\<close>

definition load_checkpoint :: "'s compactor \<Rightarrow> 's \<Rightarrow> 's \<times> checkpoint result" where
  "load_checkpoint c s =
     (case get_object (cp_client c) s (co_checkpoint_key (cp_options c)) of
        (s', Inr (Inl e)) \<Rightarrow> (s', Inl e)
      | (s', Inr (Inr bytes)) \<Rightarrow>
          (s', with_context (cp_decode_checkpoint c bytes) ''decode compaction checkpoint'')
      | (s', Inl No_Such_Key) \<Rightarrow>
          (s', Inr \<lparr>ck_version = 1, ck_updated_at = None, ck_partitions = Map.empty\<rparr>)
      | (s', Inl _) \<Rightarrow> (s', Inl ''load compaction checkpoint''))"

definition save_checkpoint :: "'s compactor \<Rightarrow> 's \<Rightarrow> checkpoint \<Rightarrow> 's \<times> unit result" where
  "save_checkpoint c s ck =
     (case cp_encode_checkpoint c ck of
        None \<Rightarrow> (s, Inl ''serialize checkpoint'')
      | Some body \<Rightarrow>
          with_message (put_object (cp_client c) s (put_request (co_checkpoint_key (cp_options c)) body))
            ''save compaction checkpoint'')"

definition lock_key :: "compactor_options \<Rightarrow> string" where
  "lock_key opts = trim_end_matches CHR ''/'' (co_retention_prefix opts) @ ''-control/lock''"

definition seconds :: "datetime \<Rightarrow> int" where
  "seconds t = t div 1000000000"

definition is_stale :: "datetime \<Rightarrow> head_output \<Rightarrow> bool" where
  "is_stale now h \<longleftrightarrow>
     (case head_modified h of None \<Rightarrow> False | Some m \<Rightarrow> m < seconds now - 12 * 3600)"

definition put_lock :: "'s compactor \<Rightarrow> clock \<Rightarrow> 's \<Rightarrow> string \<Rightarrow> 's \<times> string result" where
  "put_lock c t s key =
     bind_state
       (with_message
          (put_object (cp_client c) s \<lparr>put_key = key, put_body = cp_rfc3339 c (t Lock_Now),
             put_if_none_match = True, put_tiering = False\<rparr>)
          ''acquire compaction lock'')
       (\<lambda>s _. (s, Inr key))"

definition acquire_lock :: "'s compactor \<Rightarrow> clock \<Rightarrow> 's \<Rightarrow> 's \<times> string result" where
  "acquire_lock c t s =
     (let key = lock_key (cp_options c) in
      case head_object (cp_client c) s key of
        (s, Inr existing) \<Rightarrow>
          if is_stale (t Stale_Now) existing
          then bind_state
                 (with_message (delete_object (cp_client c) s key) ''remove stale compaction lock'')
                 (\<lambda>s _. put_lock c t s key)
          else (s, Inl (''another compaction task holds '' @ key))
      | (s, Inl _) \<Rightarrow> put_lock c t s key)"

definition release_lock :: "'s compactor \<Rightarrow> 's \<Rightarrow> string \<Rightarrow> 's \<times> unit result" where
  "release_lock c s key =
     with_message (delete_object (cp_client c) s key) ''release compaction lock''"

subsection \<open>Finding candidates\<close>

fun collect_prefixes :: "(s3_error + list_page) list \<Rightarrow> string list result" where
  "collect_prefixes [] = Inr []"
| "collect_prefixes (Inl _ # pages) = Inl ''list S3 prefixes''"
| "collect_prefixes (Inr p # pages) =
     result_bind (collect_prefixes pages) (\<lambda>rest. Inr (List.map_filter (\<lambda>x. x) (page_prefixes p) @ rest))"

definition list_common_prefixes :: "'s compactor \<Rightarrow> 's \<Rightarrow> string \<Rightarrow> 's \<times> string list result" where
  "list_common_prefixes c s pre =
     (case list_objects (cp_client c) s pre (Some CHR ''/'') of
        (s', pages) \<Rightarrow> (s', collect_prefixes pages))"

text \<open>The children of a prefix: date directories on or after \<open>first\<close>, and prefixes to descend into.\<close>

definition date_of_child :: "'s compactor \<Rightarrow> string \<Rightarrow> int option" where
  "date_of_child c child =
     parse_date_component (cp_chrono c)
       (last_component CHR ''/'' (trim_end_matches CHR ''/'' child))"

definition child_dates :: "'s compactor \<Rightarrow> int \<Rightarrow> string list \<Rightarrow> string list" where
  "child_dates c first children =
     filter (\<lambda>child. case date_of_child c child of None \<Rightarrow> False | Some d \<Rightarrow> d \<ge> first) children"

definition child_prefixes :: "'s compactor \<Rightarrow> nat \<Rightarrow> string list \<Rightarrow> (string \<times> nat) list" where
  "child_prefixes c depth children =
     map (\<lambda>child. (child, depth + 1)) (filter (\<lambda>child. date_of_child c child = None) children)"

text \<open>A prefix is replaced by deeper ones, and none is deeper than nine levels.\<close>

definition pending_depths :: "(string \<times> nat) list \<Rightarrow> nat multiset" where
  "pending_depths pending = mset (map (\<lambda>(_, depth). 10 - depth) pending)"

lemma pending_depths_pop: "(pending_depths pending, pending_depths (p # pending)) \<in> mult less_than"
  by (simp add: pending_depths_def mult_def) (rule r_into_trancl, simp add: mult1_def, force)

lemma pending_depths_descend:
  assumes "depth \<le> 8"
  shows "(pending_depths (rev (child_prefixes c depth children) @ pending),
          pending_depths ((current, depth) # pending)) \<in> mult less_than"
proof -
  have "pending_depths (rev (child_prefixes c depth children) @ pending) =
      pending_depths pending + mset (map (\<lambda>_. 9 - depth) (child_prefixes c depth children))"
    by (simp add: pending_depths_def child_prefixes_def image_mset.compositionality comp_def)
  moreover have "pending_depths ((current, depth) # pending) = pending_depths pending + {#10 - depth#}"
    by (simp add: pending_depths_def)
  moreover have "(pending_depths pending + mset (map (\<lambda>_. 9 - depth) (child_prefixes c depth children)),
        pending_depths pending + {#10 - depth#}) \<in> mult less_than"
    using assms by (intro one_step_implies_mult) auto
  ultimately show ?thesis by simp
qed

text \<open>The top of the \<open>pending\<close> stack is the head of the list.\<close>

function find_date_prefixes ::
  "'s compactor \<Rightarrow> int \<Rightarrow> 's \<Rightarrow> (string \<times> nat) list \<Rightarrow> string list \<Rightarrow> 's \<times> string list result" where
  "find_date_prefixes c first s [] dates = (s, Inr dates)"
| "find_date_prefixes c first s ((current, depth) # pending) dates =
     (if depth > 8 then find_date_prefixes c first s pending dates
      else (case list_common_prefixes c s current of
              (s', Inl e) \<Rightarrow> (s', Inl e)
            | (s', Inr children) \<Rightarrow>
                find_date_prefixes c first s' (rev (child_prefixes c depth children) @ pending)
                  (dates @ child_dates c first children)))"
  by pat_completeness auto

termination
  by (relation "inv_image (mult less_than) (\<lambda>(c, first, s, pending, dates). pending_depths pending)")
    (auto simp: wf_mult pending_depths_pop pending_depths_descend)

text \<open>\<open>hours.extend(self.list_common_prefixes(&date_prefix).await?)\<close> for every date.\<close>

fun list_hours :: "'s compactor \<Rightarrow> 's \<Rightarrow> string list \<Rightarrow> string list \<Rightarrow> 's \<times> string list result" where
  "list_hours c s [] found = (s, Inr found)"
| "list_hours c s (d # ds) found =
     bind_state (list_common_prefixes c s d) (\<lambda>s hs. list_hours c s ds (found @ hs))"

definition recent_hour_prefixes :: "'s compactor \<Rightarrow> 's \<Rightarrow> datetime \<Rightarrow> 's \<times> string list result" where
  "recent_hour_prefixes c s window_start =
     bind_state
       (find_date_prefixes c (date_naive (cp_chrono c) window_start) s
          [(trim_matches CHR ''/'' (co_prefix (cp_options c)) @ ''/'', 0)] [])
       (\<lambda>s dates. list_hours c s dates [])"

fun scan_pages ::
  "'s compactor \<Rightarrow> datetime \<Rightarrow> (s3_error + list_page) list \<Rightarrow> (string \<times> partition) list \<Rightarrow>
   (string \<times> partition) list result" where
  "scan_pages c cutoff [] g = Inr g"
| "scan_pages c cutoff (Inl _ # pages) g = Inl ''list Parquet objects''"
| "scan_pages c cutoff (Inr p # pages) g =
     scan_pages c cutoff pages
       (scan_objects (cp_chrono c) cutoff (map (\<lambda>x. (lo_key x, lo_size x)) (page_contents p)) g)"

fun scan_hours ::
  "'s compactor \<Rightarrow> datetime \<Rightarrow> 's \<Rightarrow> string list \<Rightarrow> (string \<times> partition) list \<Rightarrow>
   's \<times> (string \<times> partition) list result" where
  "scan_hours c cutoff s [] g = (s, Inr g)"
| "scan_hours c cutoff s (pre # pres) g =
     (case list_objects (cp_client c) s pre None of
        (s', pages) \<Rightarrow>
          (case scan_pages c cutoff pages g of
             Inl e \<Rightarrow> (s', Inl e)
           | Inr g' \<Rightarrow> scan_hours c cutoff s' pres g'))"

definition candidates :: "'s compactor \<Rightarrow> clock \<Rightarrow> 's \<Rightarrow> checkpoint \<Rightarrow> 's \<times> partition list result" where
  "candidates c t s ck =
     (let opts = cp_options c;
          cutoff = t Settle_Now - minutes (co_settle_minutes opts);
          window_start = t Window_Now - hours (co_lookback_hours opts)
      in bind_state (recent_hour_prefixes c s window_start) (\<lambda>s pres.
         bind_state (scan_hours c cutoff s pres []) (\<lambda>s g.
           (s, Inr (select_partitions opts ck g)))))"

subsection \<open>Merging\<close>

definition download :: "'s compactor \<Rightarrow> 's \<Rightarrow> string \<Rightarrow> nat \<Rightarrow> 's \<times> string result" where
  "download c s key i =
     bind_state (with_message (get_object (cp_client c) s key) (''download '' @ key)) (\<lambda>s body.
       (s, result_bind (local_io c (Create_Input i) ''create input'') (\<lambda>_.
           result_bind body (\<lambda>bytes.
           result_bind (local_io c (Copy_Input i) ''copy input'') (\<lambda>_. Inr bytes)))))"

text \<open>The writer is open once its schema is known; it holds the batches written so far.\<close>

type_synonym merge_state = "(schema \<times> record_batch list) option \<times> nat"

fun write_batches ::
  "'s compactor \<Rightarrow> string \<Rightarrow> schema \<Rightarrow> record_batch result list \<Rightarrow> record_batch list \<times> nat \<Rightarrow>
   (record_batch list \<times> nat) result" where
  "write_batches c key schema [] (written, rows) = Inr (written, rows)"
| "write_batches c key schema (Inl _ # batches) (written, rows) = Inl (''read '' @ key)"
| "write_batches c key schema (Inr batch # batches) (written, rows) =
     (let rows = saturating_add rows (batch_num_rows batch) in
      result_bind (reorder_batch (cp_kernels c) batch) (\<lambda>ordered.
      result_bind (pq_write (cp_parquet c) schema written ordered) (\<lambda>_.
        write_batches c key schema batches (written @ [ordered], rows))))"

definition open_writer ::
  "'s compactor \<Rightarrow> string \<Rightarrow> schema \<Rightarrow> (schema \<times> record_batch list) option \<Rightarrow> record_batch list result" where
  "open_writer c key schema writer =
     (case writer of
        Some (expected, written) \<Rightarrow>
          if expected \<noteq> schema then Inl (''schema mismatch in '' @ key) else Inr written
      | None \<Rightarrow>
          result_bind (local_io c Create_Output ''create output'') (\<lambda>_.
          result_bind (pq_properties (cp_parquet c)) (\<lambda>_.
          result_bind (pq_new_writer (cp_parquet c) schema) (\<lambda>_. Inr []))))"

definition merge_input :: "'s compactor \<Rightarrow> nat \<Rightarrow> string \<Rightarrow> string \<Rightarrow> merge_state \<Rightarrow> merge_state result" where
  "merge_input c i key input st =
     (case st of (writer, rows) \<Rightarrow>
        result_bind (local_io c (Open_Input i) ''open input'') (\<lambda>_.
        result_bind (pq_open (cp_parquet c) input) (\<lambda>schema.
        result_bind (open_writer c key schema writer) (\<lambda>written.
        result_bind (pq_batches (cp_parquet c) (co_batch_rows (cp_options c)) input) (\<lambda>batches.
        result_bind (write_batches c key schema batches (written, rows)) (\<lambda>(written, rows).
        result_bind (local_io c (Remove_Input i) ''remove input'') (\<lambda>_.
          Inr (Some (schema, written), rows))))))))"

fun merge_loop :: "'s compactor \<Rightarrow> 's \<Rightarrow> nat \<Rightarrow> source list \<Rightarrow> merge_state \<Rightarrow> 's \<times> merge_state result" where
  "merge_loop c s i [] st = (s, Inr st)"
| "merge_loop c s i (src # srcs) st =
     bind_state (download c s (src_key src) i) (\<lambda>s input.
     bind_state (s, merge_input c i (src_key src) input st) (\<lambda>s st.
       merge_loop c s (Suc i) srcs st))"

text \<open>\<open>merge\<close>: the bytes of the output file and the number of rows written.\<close>

definition merge_sources :: "'s compactor \<Rightarrow> 's \<Rightarrow> source list \<Rightarrow> 's \<times> (string \<times> nat) result" where
  "merge_sources c s srcs =
     bind_state (merge_loop c s 0 srcs (None, 0)) (\<lambda>s (writer, rows).
       (s, (case writer of
              None \<Rightarrow> Inl ''partition has no readable source files''
            | Some (schema, written) \<Rightarrow>
                result_bind (pq_close (cp_parquet c) schema written) (\<lambda>file. Inr (file, rows)))))"

definition verify_output :: "'s compactor \<Rightarrow> string \<Rightarrow> nat \<Rightarrow> unit result" where
  "verify_output c file expected_rows =
     result_bind (local_io c Open_Output ''open output'') (\<lambda>_.
     result_bind (pq_num_rows (cp_parquet c) file) (\<lambda>n.
       if (if 0 \<le> n then nat n else 0) \<noteq> expected_rows
       then Inl ''output row count mismatch'' else Inr ()))"

subsection \<open>Publishing and retiring\<close>

definition upload_output :: "'s compactor \<Rightarrow> 's \<Rightarrow> string \<Rightarrow> string \<Rightarrow> 's \<times> unit result" where
  "upload_output c s key file =
     (case local_io c Read_Output ''read output'' of
        Inl e \<Rightarrow> (s, Inl e)
      | Inr _ \<Rightarrow>
          with_message (put_object (cp_client c) s
            \<lparr>put_key = key, put_body = file, put_if_none_match = False, put_tiering = True\<rparr>)
            (''upload '' @ key))"

definition retained_key :: "compactor_options \<Rightarrow> string \<Rightarrow> source \<Rightarrow> string" where
  "retained_key opts prefix_of src =
     (let root = trim_matches CHR ''/'' (co_prefix opts);
          relative = trim_matches CHR ''/''
            (case strip_prefix prefix_of root of None \<Rightarrow> prefix_of | Some rest \<Rightarrow> rest)
      in trim_matches CHR ''/'' (co_retention_prefix opts) @ ''/'' @ relative @ ''/''
         @ last_component CHR ''/'' (src_key src))"

definition retain_source :: "'s compactor \<Rightarrow> 's \<Rightarrow> string \<Rightarrow> source \<Rightarrow> 's \<times> unit result" where
  "retain_source c s prefix_of src =
     (let opts = cp_options c; destination = retained_key opts prefix_of src in
      bind_state
        (with_message
           (copy_object (cp_client c) s (co_bucket opts @ ''/'' @ src_key src) destination)
           (''retain '' @ src_key src)) (\<lambda>s _.
      bind_state
        (with_message (head_object (cp_client c) s destination)
           (''verify retained '' @ destination)) (\<lambda>s retained.
        if length_or_zero (head_length retained) \<noteq> src_bytes src
        then (s, Inl (''retained size mismatch for '' @ src_key src))
        else (s, Inr ()))))"

fun retain_sources :: "'s compactor \<Rightarrow> 's \<Rightarrow> string \<Rightarrow> source list \<Rightarrow> 's \<times> unit result" where
  "retain_sources c s prefix_of [] = (s, Inr ())"
| "retain_sources c s prefix_of (src # srcs) =
     bind_state (retain_source c s prefix_of src) (\<lambda>s _. retain_sources c s prefix_of srcs)"

function delete_sources :: "'s compactor \<Rightarrow> 's \<Rightarrow> source list \<Rightarrow> 's \<times> unit result" where
  "delete_sources c s [] = (s, Inr ())"
| "delete_sources c s (src # srcs) =
     (let chunk = take 1000 (src # srcs) in
      bind_state
        (with_message (delete_objects (cp_client c) s (map src_key chunk))
           ''delete compacted source objects'') (\<lambda>s errors.
        if errors \<noteq> [] then (s, Inl ''S3 rejected one or more source deletions'')
        else delete_sources c s (drop 1000 (src # srcs))))"
  by pat_completeness auto
termination by (relation "measure (\<lambda>(c, s, srcs). length srcs)") auto

definition object_exists :: "'s compactor \<Rightarrow> 's \<Rightarrow> string \<Rightarrow> 's \<times> bool result" where
  "object_exists c s key =
     (case head_object (cp_client c) s key of
        (s', Inr _) \<Rightarrow> (s', Inr True)
      | (s', Inl Not_Found) \<Rightarrow> (s', Inr False)
      | (s', Inl _) \<Rightarrow> (s', Inl (''head '' @ key)))"

definition success_key :: "partition \<Rightarrow> string" where
  "success_key p = part_prefix p @ ''/'' @ success_name"

definition output_key :: "partition \<Rightarrow> string" where
  "output_key p = part_prefix p @ ''/'' @ output_name"

text \<open>The files to merge: a completed partition's output comes first.\<close>

definition sources_to_merge :: "'s compactor \<Rightarrow> 's \<Rightarrow> partition \<Rightarrow> 's \<times> source list result" where
  "sources_to_merge c s p =
     bind_state (object_exists c s (success_key p)) (\<lambda>s completed.
       if \<not> completed then (s, Inr (part_sources p))
       else bind_state
         (with_message (head_object (cp_client c) s (output_key p))
            ''completed partition is missing its compacted output'') (\<lambda>s existing.
         (s, Inr (\<lparr>src_key = output_key p, src_bytes = length_or_zero (head_length existing)\<rparr>
                  # part_sources p))))"

definition write_marker :: "'s compactor \<Rightarrow> clock \<Rightarrow> 's \<Rightarrow> partition \<Rightarrow> nat \<Rightarrow> 's \<times> unit result" where
  "write_marker c t s p rows =
     (let completion = \<lparr>cm_completed_at = t (Completed_Now (part_prefix p)),
            cm_output_key = output_key p, cm_input_files = length (part_sources p),
            cm_input_bytes = partition_bytes p, cm_rows = rows\<rparr> in
      case cp_encode_completion c completion of
        None \<Rightarrow> (s, Inl ''serialize completion'')
      | Some body \<Rightarrow> with_message (put_object (cp_client c) s (put_request (success_key p) body))
          ''write compaction success marker'')"

text \<open>\<open>compact\<close> up to the check of the merged file, which writes nothing, and after it.\<close>

definition prepare_output :: "'s compactor \<Rightarrow> 's \<Rightarrow> partition \<Rightarrow> 's \<times> (string \<times> nat) result" where
  "prepare_output c s p =
     bind_state (sources_to_merge c s p) (\<lambda>s inputs.
     bind_state (s, local_io c Create_Workspace ''create compaction workspace'') (\<lambda>s _.
     bind_state (merge_sources c s inputs) (\<lambda>s (file, rows).
     bind_state (s, verify_output c file rows) (\<lambda>s _. (s, Inr (file, rows))))))"

definition publish_output :: "'s compactor \<Rightarrow> clock \<Rightarrow> 's \<Rightarrow> partition \<Rightarrow> string \<Rightarrow> nat \<Rightarrow> 's \<times> unit result" where
  "publish_output c t s p file rows =
     bind_state (upload_output c s (output_key p) file) (\<lambda>s _.
     bind_state (retain_sources c s (part_prefix p) (part_sources p)) (\<lambda>s _.
     bind_state (write_marker c t s p rows) (\<lambda>s _.
       delete_sources c s (part_sources p))))"

definition compact :: "'s compactor \<Rightarrow> clock \<Rightarrow> 's \<Rightarrow> partition \<Rightarrow> 's \<times> unit result" where
  "compact c t s p =
     (let p = p\<lparr>part_sources := sort_key src_key (part_sources p)\<rparr> in
      bind_state (prepare_output c s p) (\<lambda>s (file, rows). publish_output c t s p file rows))"

subsection \<open>A run\<close>

fun run_list :: "'s compactor \<Rightarrow> clock \<Rightarrow> 's \<Rightarrow> checkpoint \<Rightarrow> partition list \<Rightarrow> 's \<times> checkpoint result" where
  "run_list c t s ck [] = (s, Inr ck)"
| "run_list c t s ck (p # ps) =
     (let entry = checkpoint_entry (t (Entry_Now (part_prefix p))) p in
      bind_state (compact c t s p) (\<lambda>s _.
        let ck = ck\<lparr>ck_partitions := (ck_partitions ck)(part_prefix p \<mapsto> entry),
                   ck_updated_at := Some (t (Updated_Now (part_prefix p)))\<rparr> in
        bind_state (save_checkpoint c s ck) (\<lambda>s _. run_list c t s ck ps)))"

definition chosen_partitions :: "compactor_options \<Rightarrow> partition list \<Rightarrow> partition list" where
  "chosen_partitions opts ps =
     (let sorted = sort_key part_hour ps in
      if co_max_partitions opts > 0 then take (co_max_partitions opts) sorted else sorted)"

definition run_partitions :: "'s compactor \<Rightarrow> clock \<Rightarrow> 's \<Rightarrow> 's \<times> unit result" where
  "run_partitions c t s =
     bind_state (load_checkpoint c s) (\<lambda>s ck.
     bind_state (candidates c t s ck) (\<lambda>s ps.
       if \<not> co_execute (cp_options c) then (s, Inr ())
       else bind_state (run_list c t s ck (chosen_partitions (cp_options c) ps)) (\<lambda>s ck.
            save_checkpoint c s (prune_checkpoint (cp_options c) (t Prune_Now) ck))))"

definition run_compactor :: "'s compactor \<Rightarrow> clock \<Rightarrow> 's \<Rightarrow> 's \<times> unit result" where
  "run_compactor c t s =
     (if \<not> co_execute (cp_options c) then run_partitions c t s
      else bind_state (acquire_lock c t s) (\<lambda>s key.
        case run_partitions c t s of
          (s, result) \<Rightarrow> (case release_lock c s key of
             (s, release) \<Rightarrow> (s, result_bind result (\<lambda>_. release)))))"

text \<open>
  \<open>Compactor::new\<close> checks the options; the rest of the compactor is what the libraries provide.
  \<open>bin/parquet-compact.rs\<close> makes a compactor and runs it once.
\<close>

definition compactor_new :: "'s compactor \<Rightarrow> 's compactor result" where
  "compactor_new c = result_bind (validate_options (cp_options c)) (\<lambda>_. Inr c)"

definition compactor_main :: "'s compactor \<Rightarrow> clock \<Rightarrow> 's \<Rightarrow> 's \<times> unit result" where
  "compactor_main c t s = bind_state (s, compactor_new c) (\<lambda>s c. run_compactor c t s)"

end
