(* ===== verification/Compactor_Safety.thy ===== *)
theory Compactor_Safety
  imports Compactor
begin

section \<open>Compaction loses no data\<close>

text \<open>
  What \<open>compact\<close> guarantees for every outcome of every request: through each phase, which
  objects it may have changed. The keys of the output, the marker, the retained copies and the
  sources are told apart by their last component and by the retention prefix.
\<close>

subsection \<open>Laws of the Parquet library\<close>

definition all_rows :: "record_batch list \<Rightarrow> data_value list multiset" where
  "all_rows bs = sum_list (map batch_rows bs)"

text \<open>\<open>stored f\<close> are the rows of a file: what reading it yields, and what closing a writer stored.\<close>

definition parquet_laws :: "parquet_lib \<Rightarrow> (string \<Rightarrow> data_value list multiset) \<Rightarrow> bool" where
  "parquet_laws pq stored \<longleftrightarrow>
     (\<forall>n f bs. pq_batches pq n f = Inr (map Inr bs) \<longrightarrow> list_all batch_ok bs \<and> stored f = all_rows bs)
     \<and> (\<forall>schema bs f. pq_close pq schema bs = Inr f \<longrightarrow> stored f = all_rows bs)"

subsection \<open>Binding\<close>

lemma bind_state_eq:
  "bind_state r f = (s', x) \<longleftrightarrow>
   (\<exists>e. r = (s', Inl e) \<and> x = Inl e) \<or> (\<exists>s1 y. r = (s1, Inr y) \<and> f s1 y = (s', x))"
  by (cases r; cases "snd r") (auto simp: bind_state_def)

lemma with_message_eq:
  "with_message r m = (s', x) \<longleftrightarrow>
   (\<exists>e. r = (s', Inl e) \<and> x = Inl m) \<or> (\<exists>y. r = (s', Inr y) \<and> x = Inr y)"
  by (cases r; cases "snd r") (auto simp: with_message_def)

subsection \<open>Keys of a partition\<close>

lemma key_split:
  "CHR ''/'' \<notin> set a \<Longrightarrow> CHR ''/'' \<notin> set b \<Longrightarrow>
   (p @ CHR ''/'' # a = q @ CHR ''/'' # b) = (p = q \<and> a = b)"
  by (metis option.inject prod.inject rsplit_once_append)

lemma source_shape:
  assumes "partition_ok cal cutoff (k, p)" and "src \<in> set (part_sources p)"
  shows "\<exists>name. src_key src = part_prefix p @ CHR ''/'' # name \<and> CHR ''/'' \<notin> set name
    \<and> starts_with name ''segment-''"
proof -
  have src: "is_source_key (src_key src)" "partition_from_key cal (src_key src) = Some (k, part_hour p)"
    and k: "part_prefix p = k"
    using assms by (auto simp: partition_ok_def list_all_iff)
  obtain name where n: "src_key src = k @ CHR ''/'' # name" "CHR ''/'' \<notin> set name"
    using partition_from_key_Some [OF src(2)] by blast
  have "starts_with name ''segment-''" using src(1) n by (simp add: is_source_key_def)
  with n k show ?thesis by blast
qed

definition retention_base :: "compactor_options \<Rightarrow> string \<Rightarrow> string" where
  "retention_base opts pre =
     trim_matches CHR ''/'' (co_retention_prefix opts) @ ''/'' @
     trim_matches CHR ''/'' (case strip_prefix pre (trim_matches CHR ''/'' (co_prefix opts)) of
        None \<Rightarrow> pre | Some rest \<Rightarrow> rest)"

lemma retained_key_base:
  "retained_key opts pre src =
   retention_base opts pre @ CHR ''/'' # last_component CHR ''/'' (src_key src)"
  by (simp add: retained_key_def retention_base_def Let_def)

text \<open>The keys of a partition that a compaction writes are none of its sources'.\<close>

definition keys_apart :: "compactor_options \<Rightarrow> partition \<Rightarrow> bool" where
  "keys_apart opts p \<longleftrightarrow>
     (\<forall>src \<in> set (part_sources p).
        src_key src \<noteq> output_key p \<and> src_key src \<noteq> success_key p
        \<and> (\<forall>r \<in> set (part_sources p).
             retained_key opts (part_prefix p) r \<noteq> src_key src
             \<and> (retained_key opts (part_prefix p) r = retained_key opts (part_prefix p) src \<longrightarrow>
                src_key r = src_key src))
        \<and> retained_key opts (part_prefix p) src \<noteq> output_key p
        \<and> retained_key opts (part_prefix p) src \<noteq> success_key p)
     \<and> output_key p \<noteq> success_key p"

lemma not_segment: "\<not> starts_with output_name ''segment-''" "\<not> starts_with success_name ''segment-''"
  by code_simp+

lemma partition_keys_apart:
  assumes ok: "partition_ok cal cutoff (k, p)" and base: "retention_base opts (part_prefix p) \<noteq> part_prefix p"
  shows "keys_apart opts p"
proof -
  have o: "output_key p = part_prefix p @ CHR ''/'' # output_name" "CHR ''/'' \<notin> set output_name"
      "success_key p = part_prefix p @ CHR ''/'' # success_name" "CHR ''/'' \<notin> set success_name"
    by (simp_all add: output_key_def success_key_def output_name_def success_name_def)
  have "output_name \<noteq> success_name" by (simp add: output_name_def success_name_def)
  then have os: "output_key p \<noteq> success_key p" using o by (simp add: key_split)
  have src: "src_key src \<noteq> output_key p \<and> src_key src \<noteq> success_key p
        \<and> (\<forall>r \<in> set (part_sources p).
             retained_key opts (part_prefix p) r \<noteq> src_key src
             \<and> (retained_key opts (part_prefix p) r = retained_key opts (part_prefix p) src \<longrightarrow>
                src_key r = src_key src))
        \<and> retained_key opts (part_prefix p) src \<noteq> output_key p
        \<and> retained_key opts (part_prefix p) src \<noteq> success_key p"
    if src_in: "src \<in> set (part_sources p)" for src
  proof -
    obtain n where n: "src_key src = part_prefix p @ CHR ''/'' # n" "CHR ''/'' \<notin> set n"
        "starts_with n ''segment-''"
      using source_shape [OF ok src_in] by blast
    have ret: "retained_key opts (part_prefix p) src = retention_base opts (part_prefix p) @ CHR ''/'' # n"
      using n by (simp add: retained_key_base)
    have "retained_key opts (part_prefix p) r \<noteq> src_key src
        \<and> (retained_key opts (part_prefix p) r = retained_key opts (part_prefix p) src \<longrightarrow>
           src_key r = src_key src)" if r_in: "r \<in> set (part_sources p)" for r
    proof -
      obtain m where m: "src_key r = part_prefix p @ CHR ''/'' # m" "CHR ''/'' \<notin> set m"
        using source_shape [OF ok r_in] by blast
      then have "retained_key opts (part_prefix p) r = retention_base opts (part_prefix p) @ CHR ''/'' # m"
        by (simp add: retained_key_base)
      with m n ret base show ?thesis by (simp add: key_split)
    qed
    moreover have "n \<noteq> output_name" "n \<noteq> success_name" using n(3) not_segment by auto
    ultimately show ?thesis using n o ret base by (simp add: key_split)
  qed
  show ?thesis unfolding keys_apart_def using src os by blast
qed

lemma keys_apart_sort:
  "keys_apart opts (p\<lparr>part_sources := sort_key f (part_sources p)\<rparr>) = keys_apart opts p"
  by (simp add: keys_apart_def output_key_def success_key_def)

subsection \<open>Reading changes nothing\<close>

definition source_rows :: "(string \<Rightarrow> data_value list multiset) \<Rightarrow> s3_view \<Rightarrow> source list \<Rightarrow> data_value list multiset" where
  "source_rows stored v srcs =
     sum_list (map (\<lambda>src. case v (src_key src) of None \<Rightarrow> {#} | Some x \<Rightarrow> stored (obj_body x)) srcs)"

lemma download_reads:
  assumes "s3_laws b (cp_client c) view" and "download c s key i = (s', r)"
  shows "view s' = view s"
    and "r = Inr body \<Longrightarrow> map_option obj_body (view s key) = Some body"
  using assms law_get [OF assms(1)]
  by (auto simp: download_def bind_state_eq with_message_eq result_bind_Inr)

lemma write_batches_rows:
  assumes k: "kernel_laws (cp_kernels c)"
    and "write_batches c key schema batches (written, rows) = Inr (written', rows')"
  shows "\<exists>bs. batches = map Inr bs \<and> (list_all batch_ok bs \<longrightarrow>
    all_rows written' = all_rows written + all_rows bs)"
  using assms(2)
proof (induction batches arbitrary: written rows)
  case Nil
  then show ?case by (auto simp: all_rows_def)
next
  case (Cons b batches)
  show ?case
  proof (cases b)
    case (Inl e)
    with Cons.prems show ?thesis by simp
  next
    case (Inr batch)
    with Cons.prems obtain ordered where r: "reorder_batch (cp_kernels c) batch = Inr ordered"
        and rest: "write_batches c key schema batches
          (written @ [ordered], saturating_add rows (batch_num_rows batch)) = Inr (written', rows')"
      by (auto simp: Let_def result_bind_Inr)
    obtain bs where bs: "batches = map Inr bs" "list_all batch_ok bs \<longrightarrow>
        all_rows written' = all_rows (written @ [ordered]) + all_rows bs"
      using Cons.IH [OF rest] by blast
    have "b # batches = map Inr (batch # bs)" using Inr bs(1) by simp
    moreover have "list_all batch_ok (batch # bs) \<longrightarrow>
        all_rows written' = all_rows written + all_rows (batch # bs)"
      using bs(2) reorder_batch_keeps [OF k _ r] by (auto simp: all_rows_def ac_simps)
    ultimately show ?thesis by (intro exI [of _ "batch # bs"] conjI)
  qed
qed

definition written_rows :: "merge_state \<Rightarrow> data_value list multiset" where
  "written_rows st = (case fst st of None \<Rightarrow> {#} | Some (_, written) \<Rightarrow> all_rows written)"

lemma merge_input_rows:
  assumes k: "kernel_laws (cp_kernels c)" and pq: "parquet_laws (cp_parquet c) stored"
    and m: "merge_input c i key input st = Inr st'"
  shows "written_rows st' = written_rows st + stored input"
proof -
  obtain writer rows where st: "st = (writer, rows)" by fastforce
  from m obtain schema written batches written' rows' where
      o: "open_writer c key schema writer = Inr written"
      and bat: "pq_batches (cp_parquet c) (co_batch_rows (cp_options c)) input = Inr batches"
      and wb: "write_batches c key schema batches (written, rows) = Inr (written', rows')"
      and st': "st' = (Some (schema, written'), rows')"
    unfolding st merge_input_def by (auto simp: result_bind_Inr)
  have w: "(case writer of Some (_, w) \<Rightarrow> w | None \<Rightarrow> []) = written"
    using o by (auto simp: open_writer_def result_bind_Inr split: option.splits if_splits)
  obtain bs where bs: "batches = map Inr bs"
      "list_all batch_ok bs \<longrightarrow> all_rows written' = all_rows written + all_rows bs"
    using write_batches_rows [OF k wb] by blast
  have "list_all batch_ok bs \<and> stored input = all_rows bs"
    using pq bat bs(1) by (simp add: parquet_laws_def)
  with bs(2) w show ?thesis
    by (auto simp: written_rows_def st st' all_rows_def split: option.splits)
qed

lemma merge_loop_reads:
  assumes laws: "s3_laws b (cp_client c) view"
    and k: "kernel_laws (cp_kernels c)" and pq: "parquet_laws (cp_parquet c) stored"
    and "merge_loop c s i srcs st = (s', r)"
  shows "view s' = view s
    \<and> (\<forall>st'. r = Inr st' \<longrightarrow> written_rows st' = written_rows st + source_rows stored (view s) srcs)"
  using assms(4)
proof (induction srcs arbitrary: s i st)
  case Nil
  then show ?case by (auto simp: source_rows_def)
next
  case (Cons src srcs)
  obtain s1 r1 where d: "download c s (src_key src) i = (s1, r1)"
    by (cases "download c s (src_key src) i")
  note read = download_reads [OF laws d]
  show ?case
  proof (cases r1)
    case (Inl e)
    with Cons.prems d read show ?thesis by (auto simp: bind_state_eq)
  next
    case (Inr input)
    show ?thesis
    proof (cases "merge_input c i (src_key src) input st")
      case (Inl e)
      with Cons.prems d Inr read show ?thesis by (auto simp: bind_state_eq)
    next
      case (Inr st1)
      with Cons.prems d \<open>r1 = Inr input\<close> have "merge_loop c s1 (Suc i) srcs st1 = (s', r)"
        by (simp add: bind_state_def)
      with Cons.IH [of s1 "Suc i" st1] read merge_input_rows [OF k pq Inr] \<open>r1 = Inr input\<close>
      show ?thesis by (auto simp: source_rows_def ac_simps)
    qed
  qed
qed

lemma merge_sources_reads:
  assumes laws: "s3_laws b (cp_client c) view"
    and k: "kernel_laws (cp_kernels c)" and pq: "parquet_laws (cp_parquet c) stored"
    and m: "merge_sources c s srcs = (s', r)"
  shows "view s' = view s"
    and "r = Inr (file, rows) \<Longrightarrow> stored file = source_rows stored (view s) srcs"
proof -
  obtain s1 r1 where l: "merge_loop c s 0 srcs (None, 0) = (s1, r1)"
    by (cases "merge_loop c s 0 srcs (None, 0)")
  note read = merge_loop_reads [OF laws k pq l]
  from m l have s': "s' = s1" by (auto simp: merge_sources_def bind_state_eq)
  with read show "view s' = view s" by simp
  assume r: "r = Inr (file, rows)"
  with m l obtain schema written where "r1 = Inr (Some (schema, written), rows)"
      and close: "pq_close (cp_parquet c) schema written = Inr file"
    by (auto simp: merge_sources_def bind_state_eq result_bind_Inr split: option.splits prod.splits)
  with read pq show "stored file = source_rows stored (view s) srcs"
    by (auto simp: written_rows_def parquet_laws_def)
qed

subsection \<open>What each phase may write\<close>

lemma object_exists_reads:
  assumes "s3_laws b (cp_client c) view" and "object_exists c s key = (s', r)"
  shows "view s' = view s" and "r = Inr False \<Longrightarrow> view s key = None" and "r = Inr True \<Longrightarrow> view s key \<noteq> None"
proof -
  obtain s1 r1 where h: "head_object (cp_client c) s key = (s1, r1)"
    by (cases "head_object (cp_client c) s key")
  note law = law_head [OF assms(1) h]
  show "view s' = view s"
    using assms(2) h law(1) by (auto simp: object_exists_def split: sum.splits s3_error.splits)
  show "r = Inr False \<Longrightarrow> view s key = None" and "r = Inr True \<Longrightarrow> view s key \<noteq> None"
    using assms(2) h law(2,3) by (auto simp: object_exists_def split: sum.splits s3_error.splits)
qed

lemma sources_to_merge_reads:
  assumes "s3_laws b (cp_client c) view" and m: "sources_to_merge c s p = (s', r)"
  shows "view s' = view s"
    and "r = Inr inputs \<Longrightarrow> view s (success_key p) = None \<and> inputs = part_sources p
      \<or> view s (success_key p) \<noteq> None
        \<and> (\<exists>n. inputs = \<lparr>src_key = output_key p, src_bytes = n\<rparr> # part_sources p)"
proof -
  obtain s1 r1 where e: "object_exists c s (success_key p) = (s1, r1)"
    by (cases "object_exists c s (success_key p)")
  note ex = object_exists_reads [OF assms(1) e]
  obtain s2 r2 where h: "head_object (cp_client c) s1 (output_key p) = (s2, r2)"
    by (cases "head_object (cp_client c) s1 (output_key p)")
  note hd = law_head(1) [OF assms(1) h]
  show "view s' = view s"
    using m e h ex(1) hd
    by (auto simp: sources_to_merge_def bind_state_eq with_message_eq split: if_splits)
  assume "r = Inr inputs"
  with m e h ex(2,3) show "view s (success_key p) = None \<and> inputs = part_sources p
      \<or> view s (success_key p) \<noteq> None
        \<and> (\<exists>n. inputs = \<lparr>src_key = output_key p, src_bytes = n\<rparr> # part_sources p)"
    by (auto simp: sources_to_merge_def bind_state_eq with_message_eq split: if_splits)
qed

lemma put_writes:
  assumes "s3_laws b (cp_client c) view"
    and "with_message (put_object (cp_client c) s q) m = (s', r)"
  shows "(\<forall>k. k \<noteq> put_key q \<longrightarrow> view s' k = view s k)
    \<and> (r = Inr () \<longrightarrow> map_option obj_body (view s' (put_key q)) = Some (put_body q))"
proof -
  obtain s1 r1 where q: "put_object (cp_client c) s q = (s1, r1)" by fastforce
  from law_put [OF assms(1) q] assms(2) q show ?thesis
    by (auto simp: with_message_eq)
qed

lemma upload_writes:
  assumes "s3_laws b (cp_client c) view" and "upload_output c s key file = (s', r)"
  shows "(\<forall>k. k \<noteq> key \<longrightarrow> view s' k = view s k)
    \<and> (r = Inr () \<longrightarrow> map_option obj_body (view s' key) = Some file)"
  using assms(2) by (auto simp: upload_output_def dest!: put_writes [OF assms(1)] split: sum.splits)

lemma marker_writes:
  assumes "s3_laws b (cp_client c) view" and "write_marker c t s p rows = (s', r)"
  shows "(\<forall>k. k \<noteq> success_key p \<longrightarrow> view s' k = view s k)
    \<and> (r = Inr () \<longrightarrow> view s' (success_key p) \<noteq> None)"
  using assms(2)
  by (auto simp: write_marker_def put_request_def dest!: put_writes [OF assms(1)] split: option.splits)

lemma retain_source_writes:
  assumes laws: "s3_laws (co_bucket (cp_options c)) (cp_client c) view"
    and r: "retain_source c s pre src = (s', r)"
  shows "(\<forall>k. k \<noteq> retained_key (cp_options c) pre src \<longrightarrow> view s' k = view s k)
    \<and> (r = Inr () \<longrightarrow> (\<exists>x t. view s (src_key src) = Some x
         \<and> view s' (retained_key (cp_options c) pre src) = Some (x\<lparr>obj_modified := t\<rparr>)))"
proof -
  let ?d = "retained_key (cp_options c) pre src"
  obtain s1 r1 where cp: "copy_object (cp_client c) s (co_bucket (cp_options c) @ CHR ''/'' # src_key src) ?d = (s1, r1)"
    by fastforce
  obtain s2 r2 where h: "head_object (cp_client c) s1 ?d = (s2, r2)" by fastforce
  have "(s' = s1 \<and> r \<noteq> Inr ()) \<or> (s' = s2 \<and> r1 = Inr ())"
    using r cp h by (auto simp: retain_source_def Let_def bind_state_eq with_message_eq split: if_splits)
  with law_copy [OF laws cp] law_head(1) [OF laws h] show ?thesis by auto
qed

lemma retain_sources_writes:
  assumes laws: "s3_laws (co_bucket (cp_options c)) (cp_client c) view"
    and "retain_sources c s pre srcs = (s', r)"
    and "\<forall>src \<in> set srcs. \<forall>q \<in> set srcs. retained_key (cp_options c) pre q \<noteq> src_key src
        \<and> (retained_key (cp_options c) pre q = retained_key (cp_options c) pre src \<longrightarrow> src_key q = src_key src)"
  shows "(\<forall>k. k \<notin> retained_key (cp_options c) pre ` set srcs \<longrightarrow> view s' k = view s k)
    \<and> (r = Inr () \<longrightarrow> (\<forall>src \<in> set srcs. \<exists>x. view s (src_key src) = Some x
         \<and> map_option obj_body (view s' (retained_key (cp_options c) pre src)) = Some (obj_body x)))"
  using assms(2,3)
proof (induction srcs arbitrary: s)
  case Nil
  then show ?case by simp
next
  case (Cons src srcs)
  let ?ret = "retained_key (cp_options c) pre"
  obtain s1 r1 where one: "retain_source c s pre src = (s1, r1)" by fastforce
  note w = retain_source_writes [OF laws one]
  show ?case
  proof (cases r1)
    case (Inl e)
    with Cons.prems(1) one have "s' = s1" "r = Inl e" by (simp_all add: bind_state_def)
    with w show ?thesis by simp
  next
    case (Inr u)
    with Cons.prems(1) one have rest: "retain_sources c s1 pre srcs = (s', r)"
      by (simp add: bind_state_def)
    have apart: "\<forall>src \<in> set srcs. \<forall>q \<in> set srcs. ?ret q \<noteq> src_key src
        \<and> (?ret q = ?ret src \<longrightarrow> src_key q = src_key src)"
      using Cons.prems(2) by (meson list.set_intros(2))
    note ih = Cons.IH [OF rest apart]
    have frame: "view s' k = view s k" if "k \<notin> ?ret ` set (src # srcs)" for k
      using that ih w by simp
    have src_kept: "view s1 (src_key q) = view s (src_key q)" if "q \<in> set (src # srcs)" for q
    proof -
      have "?ret src \<noteq> src_key q" using Cons.prems(2) that by (meson list.set_intros(1))
      then show ?thesis using w by simp
    qed
    have "\<exists>x. view s (src_key q) = Some x \<and> map_option obj_body (view s' (?ret q)) = Some (obj_body x)"
      if ok: "r = Inr ()" and q_in: "q \<in> set (src # srcs)" for q
    proof (cases "q \<in> set srcs")
      case True
      with ih ok obtain x where "view s1 (src_key q) = Some x"
          "map_option obj_body (view s' (?ret q)) = Some (obj_body x)" by blast
      then show ?thesis using src_kept [OF q_in] by simp
    next
      case False
      with q_in have q: "q = src" by simp
      obtain x t where x: "view s (src_key src) = Some x" "view s1 (?ret src) = Some (x\<lparr>obj_modified := t\<rparr>)"
        using w Inr by auto
      show ?thesis
      proof (cases "?ret src \<in> ?ret ` set srcs")
        case True
        then obtain q' where q': "q' \<in> set srcs" "?ret q' = ?ret src" by auto
        then have "src_key q' = src_key src" using Cons.prems(2) by (meson list.set_intros)
        moreover obtain y where "view s1 (src_key q') = Some y"
            "map_option obj_body (view s' (?ret q')) = Some (obj_body y)"
          using ih ok q'(1) by blast
        ultimately show ?thesis using q'(2) src_kept [of src] x(1) q by auto
      next
        case False
        then have "view s' (?ret src) = view s1 (?ret src)" using ih by blast
        with x q show ?thesis by simp
      qed
    qed
    with frame show ?thesis by blast
  qed
qed

lemma delete_sources_writes:
  assumes laws: "s3_laws b (cp_client c) view" and "delete_sources c s srcs = (s', r)"
  shows "\<exists>gone. gone \<subseteq> src_key ` set srcs \<and> view s' = view s |` (- gone)
    \<and> (r = Inr () \<longrightarrow> gone = src_key ` set srcs)"
  using assms
proof (induction c s srcs rule: delete_sources.induct)
  case (1 c s)
  then show ?case by (intro exI [of _ "{}"]) simp
next
  case (2 c s src srcs)
  let ?chunk = "take 1000 (src # srcs)" and ?rest = "drop 1000 (src # srcs)"
  have split: "src_key ` set (src # srcs) = src_key ` set ?chunk \<union> src_key ` set ?rest"
    by (metis append_take_drop_id image_Un set_append)
  obtain s1 r1 where d: "delete_objects (cp_client c) s (map src_key ?chunk) = (s1, r1)" by fastforce
  obtain gone where g: "gone \<subseteq> src_key ` set ?chunk" "view s1 = view s |` (- gone)"
      "r1 = Inr [] \<longrightarrow> gone = src_key ` set ?chunk"
    using law_delete_all [OF 2(2) d] by (metis set_map)
  show ?case
  proof (cases "r1 = Inr []")
    case False
    with 2(3) d have "s' = s1" "r \<noteq> Inr ()"
      by (auto simp: Let_def bind_state_eq with_message_eq split: if_splits)
    then show ?thesis using g(2) le_supI1 [OF g(1)] unfolding split by (intro exI [of _ gone]) simp
  next
    case True
    with 2(3) d have rest: "delete_sources c s1 ?rest = (s', r)"
      by (simp add: Let_def bind_state_def with_message_def)
    obtain gone' where g': "gone' \<subseteq> src_key ` set ?rest" "view s' = view s1 |` (- gone')"
        "r = Inr () \<longrightarrow> gone' = src_key ` set ?rest"
      using 2(1) [OF refl _ 2(2) rest] by fastforce
    have "view s' = view s |` (- (gone \<union> gone'))" using g(2) g'(2) by simp
    moreover have "gone \<union> gone' \<subseteq> src_key ` set ?chunk \<union> src_key ` set ?rest"
      using g(1) g'(1) by (rule Un_mono)
    ultimately show ?thesis
      using g(3) g'(3) True unfolding split by (intro exI [of _ "gone \<union> gone'"]) simp
  qed
qed

subsection \<open>The whole compaction\<close>

text \<open>The rows that the output must hold: those of the previous output and of the sources.\<close>

definition merged_rows :: "(string \<Rightarrow> data_value list multiset) \<Rightarrow> s3_view \<Rightarrow> partition \<Rightarrow> data_value list multiset" where
  "merged_rows stored v p =
     (if v (success_key p) = None then {#}
      else (case v (output_key p) of None \<Rightarrow> {#} | Some x \<Rightarrow> stored (obj_body x)))
     + source_rows stored v (part_sources p)"

lemma prepare_reads:
  assumes laws: "s3_laws b (cp_client c) view"
    and k: "kernel_laws (cp_kernels c)" and pq: "parquet_laws (cp_parquet c) stored"
    and pr: "prepare_output c s p = (s', r)"
  shows "view s' = view s"
    and "r = Inr (file, rows) \<Longrightarrow> stored file = merged_rows stored (view s) p"
proof -
  obtain s1 r1 where a: "sources_to_merge c s p = (s1, r1)" by fastforce
  note m1 = sources_to_merge_reads [OF laws a]
  have both: "view s' = view s \<and> (r = Inr (file, rows) \<longrightarrow> stored file = merged_rows stored (view s) p)"
  proof (cases r1)
    case (Inl e)
    with pr a m1 show ?thesis by (auto simp: prepare_output_def bind_state_eq)
  next
    case (Inr inputs)
    obtain s2 r2 where b: "merge_sources c s1 inputs = (s2, r2)" by fastforce
    note m2 = merge_sources_reads [OF laws k pq b]
    have "source_rows stored (view s) inputs = merged_rows stored (view s) p"
      using m1(2) [OF Inr] by (auto simp: merged_rows_def source_rows_def)
    then have rows: "stored file = merged_rows stored (view s) p" if "r2 = Inr (file, rows)"
      using m1(1) m2(2) that by simp
    have "view s' = view s \<and> (r = Inr (file, rows) \<longrightarrow> r2 = Inr (file, rows))"
      using pr a Inr b m1(1) m2(1)
      by (auto simp: prepare_output_def bind_state_eq)
    with rows show ?thesis by blast
  qed
  from both show "view s' = view s" by blast
  from both show "r = Inr (file, rows) \<Longrightarrow> stored file = merged_rows stored (view s) p" by blast
qed

definition published :: "compactor_options \<Rightarrow> s3_view \<Rightarrow> partition \<Rightarrow> string \<Rightarrow> source \<Rightarrow> s3_object \<Rightarrow> bool" where
  "published opts v p file src x \<longleftrightarrow>
     map_option obj_body (v (output_key p)) = Some file
     \<and> map_option obj_body (v (retained_key opts (part_prefix p) src)) = Some (obj_body x)"

lemma publish_safe:
  assumes laws: "s3_laws (co_bucket (cp_options c)) (cp_client c) view"
    and apart: "keys_apart (cp_options c) p"
    and pub: "publish_output c t s p file rows = (s', r)"
    and src: "src \<in> set (part_sources p)"
  shows "(view s' (src_key src) = view s (src_key src) \<and> r \<noteq> Inr ())
    \<or> (\<exists>x. view s (src_key src) = Some x \<and> published (cp_options c) (view s') p file src x
         \<and> (view s' (src_key src) = Some x \<or> view s' (src_key src) = None)
         \<and> (r = Inr () \<longrightarrow> view s' (src_key src) = None)
         \<and> view s' (success_key p) \<noteq> None)"
proof -
  let ?o = "cp_options c" and ?k = "src_key src" and ?pre = "part_prefix p"
  let ?ret = "retained_key ?o ?pre src"
  have ko: "?k \<noteq> output_key p" "?k \<noteq> success_key p" "?ret \<noteq> output_key p" "?ret \<noteq> success_key p"
      "output_key p \<noteq> success_key p"
    using apart src unfolding keys_apart_def by blast+
  have rets: "\<forall>a \<in> set (part_sources p). \<forall>q \<in> set (part_sources p). retained_key ?o ?pre q \<noteq> src_key a
      \<and> (retained_key ?o ?pre q = retained_key ?o ?pre a \<longrightarrow> src_key q = src_key a)"
    and retos: "\<forall>a \<in> set (part_sources p). retained_key ?o ?pre a \<noteq> output_key p
      \<and> retained_key ?o ?pre a \<noteq> success_key p \<and> src_key a \<noteq> output_key p \<and> src_key a \<noteq> success_key p"
    using apart unfolding keys_apart_def by blast+
  obtain s3 r3 where up: "upload_output c s (output_key p) file = (s3, r3)" by fastforce
  note w3 = upload_writes [OF laws up]
  show ?thesis
  proof (cases r3)
    case (Inl e)
    with pub up w3 ko show ?thesis by (auto simp: publish_output_def bind_state_def)
  next
    case r3: (Inr u3)
    obtain s4 r4 where re: "retain_sources c s3 ?pre (part_sources p) = (s4, r4)" by fastforce
    note w4 = retain_sources_writes [OF laws re rets]
    have k4: "view s4 ?k = view s ?k" using w3 w4 ko rets src by (metis imageE)
    show ?thesis
    proof (cases r4)
      case (Inl e)
      with pub up r3 re k4 show ?thesis by (auto simp: publish_output_def bind_state_def)
    next
      case r4: (Inr u4)
      obtain x where x3: "view s3 ?k = Some x"
          and ret4: "map_option obj_body (view s4 ?ret) = Some (obj_body x)"
        using w4 r4 src by auto
      have x: "view s ?k = Some x" using x3 w3 ko by simp
      have "output_key p \<notin> retained_key ?o ?pre ` set (part_sources p)" using retos by auto
      then have out4: "map_option obj_body (view s4 (output_key p)) = Some file"
        using w3 w4 r3 by simp
      obtain s5 r5 where ma: "write_marker c t s4 p rows = (s5, r5)" by fastforce
      note w5 = marker_writes [OF laws ma]
      have k5: "view s5 ?k = Some x" "map_option obj_body (view s5 ?ret) = Some (obj_body x)"
          "map_option obj_body (view s5 (output_key p)) = Some file"
        using w5 k4 x ret4 out4 ko by simp_all
      show ?thesis
      proof (cases r5)
        case (Inl e)
        with pub up r3 re r4 ma have "s' = s5" "r = Inl e"
          by (simp_all add: publish_output_def bind_state_def)
        with k5 x show ?thesis by simp
      next
        case r5: (Inr u5)
        with pub up r3 re r4 ma have de: "delete_sources c s5 (part_sources p) = (s', r)"
          by (simp add: publish_output_def bind_state_def)
        obtain gone where g: "gone \<subseteq> src_key ` set (part_sources p)" "view s' = view s5 |` (- gone)"
            "r = Inr () \<longrightarrow> gone = src_key ` set (part_sources p)"
          using delete_sources_writes [OF laws de] by blast
        have "?ret \<notin> gone" "output_key p \<notin> gone" "success_key p \<notin> gone"
          using g(1) rets retos src by (metis imageE subsetD)+
        with k5 g w5 r5 have "published ?o (view s') p file src x" "view s' (success_key p) \<noteq> None"
          by (simp_all add: published_def)
        moreover have "view s' ?k = Some x \<or> view s' ?k = None"
          using k5 g(2) by (simp add: restrict_map_def)
        moreover have "r = Inr () \<longrightarrow> view s' ?k = None" using g src by auto
        ultimately show ?thesis using x by blast
      qed
    qed
  qed
qed

subsection \<open>Properties\<close>

lemma source_rows_mset: "mset xs = mset ys \<Longrightarrow> source_rows stored v xs = source_rows stored v ys"
proof -
  have sum: "source_rows stored v zs = (\<Sum>src \<in># mset zs. case v (src_key src) of
      None \<Rightarrow> {#} | Some x \<Rightarrow> stored (obj_body x))" for zs
    unfolding source_rows_def by (simp add: sum_mset_sum_list flip: mset_map)
  assume "mset xs = mset ys"
  then show ?thesis by (simp only: sum)
qed

lemma compact_outcome:
  assumes laws: "s3_laws (co_bucket (cp_options c)) (cp_client c) view"
    and "kernel_laws (cp_kernels c)" and "parquet_laws (cp_parquet c) stored"
    and ok: "partition_ok cal cutoff (k, p)"
    and base: "retention_base (cp_options c) (part_prefix p) \<noteq> part_prefix p"
    and run: "compact c t s p = (s', r)" and src: "src \<in> set (part_sources p)"
  shows "(view s' (src_key src) = view s (src_key src) \<and> r \<noteq> Inr ())
    \<or> (\<exists>x file. view s (src_key src) = Some x
         \<and> stored file = merged_rows stored (view s) p
         \<and> published (cp_options c) (view s') p file src x
         \<and> (view s' (src_key src) = Some x \<or> view s' (src_key src) = None)
         \<and> (r = Inr () \<longrightarrow> view s' (src_key src) = None)
         \<and> view s' (success_key p) \<noteq> None)"
proof -
  let ?p = "p\<lparr>part_sources := sort_key src_key (part_sources p)\<rparr>"
  have apart: "keys_apart (cp_options c) ?p"
    using partition_keys_apart [OF ok base] by (simp only: keys_apart_sort)
  have same: "published o' v ?p f a x = published o' v p f a x" "success_key ?p = success_key p"
      "output_key ?p = output_key p" for o' v f a x
    by (simp_all add: published_def output_key_def success_key_def)
  have "source_rows stored v (part_sources ?p) = source_rows stored v (part_sources p)" for v
    by (rule source_rows_mset) simp
  then have rows: "merged_rows stored v ?p = merged_rows stored v p" for v
    by (simp add: merged_rows_def same)
  obtain s1 r1 where pr: "prepare_output c s ?p = (s1, r1)" by fastforce
  note read = prepare_reads [OF assms(1-3) pr]
  show ?thesis
  proof (cases r1)
    case (Inl e)
    with run pr have "s' = s1" "r = Inl e" by (simp_all add: compact_def bind_state_def)
    with read(1) show ?thesis by simp
  next
    case (Inr fr)
    obtain f n where fr: "fr = (f, n)" by fastforce
    have pub: "publish_output c t s1 ?p f n = (s', r)"
      using run pr Inr fr by (simp add: compact_def bind_state_def)
    have "src \<in> set (part_sources ?p)" using src by simp
    note safe = publish_safe [OF laws apart pub this, unfolded same read(1)]
    have "stored f = merged_rows stored (view s) p" using read(2) Inr fr rows by simp
    with safe show ?thesis by auto
  qed
qed

text \<open>
  C7. Compaction loses no data, whatever request or local step fails. A source that was in the
  store is still there, unless the partition's output holds all rows to merge and a copy of the
  source is retained. A compaction that succeeds has retired every source this way and left the
  success marker.
\<close>

theorem compact_loses_no_data:
  assumes "s3_laws (co_bucket (cp_options c)) (cp_client c) view"
    and "kernel_laws (cp_kernels c)" and "parquet_laws (cp_parquet c) stored"
    and "partition_ok cal cutoff (k, p)"
    and "retention_base (cp_options c) (part_prefix p) \<noteq> part_prefix p"
    and "compact c t s p = (s', r)" and "src \<in> set (part_sources p)"
    and "view s (src_key src) = Some x"
  shows "(view s' (src_key src) = Some x
      \<or> (\<exists>file. stored file = merged_rows stored (view s) p
            \<and> published (cp_options c) (view s') p file src x))
    \<and> (r = Inr () \<longrightarrow> view s' (src_key src) = None \<and> view s' (success_key p) \<noteq> None
        \<and> (\<exists>file. stored file = merged_rows stored (view s) p
            \<and> published (cp_options c) (view s') p file src x))"
  using compact_outcome [OF assms(1-7)] assms(8) by auto

text \<open>An instance that computes: a Parquet file is the text of its symbols, one row each.\<close>

definition symbol_batch :: "string \<Rightarrow> record_batch" where
  "symbol_batch f = \<lparr>batch_schema = [new_field ''symbol'' Utf8 True],
     batch_columns = [StringArray (map (\<lambda>ch. Some [ch]) f)]\<rparr>"

definition batch_text :: "record_batch \<Rightarrow> string" where
  "batch_text b = concat (map (\<lambda>i. case batch_row b i of [Text t] \<Rightarrow> t | _ \<Rightarrow> []) [0..<batch_num_rows b])"

definition text_rows :: "string \<Rightarrow> data_value list multiset" where
  "text_rows f = mset (map (\<lambda>ch. [Text [ch]]) f)"

definition text_parquet :: parquet_lib where
  "text_parquet = \<lparr>pq_open = (\<lambda>_. Inr [new_field ''symbol'' Utf8 True]),
     pq_batches = (\<lambda>_ f. Inr [Inr (symbol_batch f)]), pq_properties = Inr (),
     pq_new_writer = (\<lambda>_. Inr ()), pq_write = (\<lambda>_ _ _. Inr ()),
     pq_close = (\<lambda>_ bs. let f = concat (map batch_text bs) in
       if text_rows f = all_rows bs then Inr f else Inl ''close''),
     pq_num_rows = (\<lambda>f. Inr (int (length f)))\<rparr>"

lemma symbol_batch_rows: "batch_rows (symbol_batch f) = text_rows f"
proof -
  have "map (batch_row (symbol_batch f)) [0..<length f] = map (\<lambda>ch. [Text [ch]]) f"
    by (rule nth_equalityI) (simp_all add: batch_row_def symbol_batch_def cell_def)
  moreover have "batch_num_rows (symbol_batch f) = length f"
    by (simp add: symbol_batch_def batch_num_rows_def)
  ultimately show ?thesis by (simp only: batch_rows_def text_rows_def)
qed

lemma text_parquet_laws: "parquet_laws text_parquet text_rows"
proof -
  have "list_all batch_ok bs \<and> text_rows f = all_rows bs"
    if "pq_batches text_parquet n f = Inr (map Inr bs)" for n f bs
  proof -
    have "bs = [symbol_batch f]" using that by (cases bs) (auto simp: text_parquet_def)
    then show ?thesis
      by (simp add: all_rows_def symbol_batch_rows)
        (simp add: batch_ok_def symbol_batch_def batch_num_rows_def)
  qed
  moreover have "text_rows f = all_rows bs" if "pq_close text_parquet schema bs = Inr f" for schema bs f
    using that by (simp add: text_parquet_def Let_def split: if_splits)
  ultimately show ?thesis unfolding parquet_laws_def by blast
qed

definition sample_chrono :: chrono where
  "sample_chrono = \<lparr>cal_year = (\<lambda>_. 2026), cal_month = (\<lambda>_. 8), cal_day = (\<lambda>_. 3), cal_hour = (\<lambda>_. 12),
     cal_parse_naive = (\<lambda>s. if s = ''2026-08-03 12:00:00'' then Some 0 else None),
     parse_date = (\<lambda>s. if s = ''2026-08-03'' then Some 0 else None), date_naive = (\<lambda>_. 0)\<rparr>"

definition sample_options :: compactor_options where
  "sample_options = \<lparr>co_bucket = ''bucket'', co_prefix = ''rust'', co_retention_prefix = ''kept'',
     co_region = ''r'', co_minimum_files = 1, co_minimum_small_files = 1, co_small_file_mb = 8,
     co_settle_minutes = 10, co_lookback_hours = 48, co_checkpoint_key = ''checkpoint'',
     co_batch_rows = 1, co_execute = True, co_max_partitions = 0\<rparr>"

definition sample_compactor :: "mem_store compactor" where
  "sample_compactor = \<lparr>cp_options = sample_options, cp_client = memory_s3 ''bucket'',
     cp_chrono = sample_chrono, cp_kernels = sample_kernels, cp_parquet = text_parquet,
     cp_local = (\<lambda>_. True), cp_encode_checkpoint = (\<lambda>_. Some ''checkpoint''),
     cp_decode_checkpoint = (\<lambda>_. None), cp_encode_completion = (\<lambda>_. Some ''done''),
     cp_rfc3339 = (\<lambda>_. ''now'')\<rparr>"

definition sample_partition :: partition where
  "sample_partition = \<lparr>part_prefix = ''rust/t/2026-08-03/12'', part_hour = 0,
     part_sources = [\<lparr>src_key = ''rust/t/2026-08-03/12/segment-2.parquet'', src_bytes = 1\<rparr>,
                     \<lparr>src_key = ''rust/t/2026-08-03/12/segment-1.parquet'', src_bytes = 2\<rparr>]\<rparr>"

definition sample_store :: "bool list \<Rightarrow> mem_store" where
  "sample_store faults = \<lparr>mem_table =
     [(''rust/t/2026-08-03/12/segment-1.parquet'', \<lparr>obj_body = ''BA'', obj_modified = 0\<rparr>),
      (''rust/t/2026-08-03/12/segment-2.parquet'', \<lparr>obj_body = ''C'', obj_modified = 0\<rparr>)],
     mem_faults = faults\<rparr>"

lemma sample_partition_ok: "partition_ok sample_chrono (hours 1) (''rust/t/2026-08-03/12'', sample_partition)"
  by code_simp

lemma sample_retention_apart:
  "retention_base sample_options (part_prefix sample_partition) \<noteq> part_prefix sample_partition"
  by code_simp

theorem compact_loses_no_data_witness:
  "case compact sample_compactor (\<lambda>_. 0) (sample_store []) sample_partition of (s, r) \<Rightarrow>
     r = Inr () \<and> mem_objects s ''rust/t/2026-08-03/12/segment-1.parquet'' = None
     \<and> (\<exists>file. text_rows file = merged_rows text_rows (mem_objects (sample_store [])) sample_partition
          \<and> published sample_options (mem_objects s) sample_partition file
              \<lparr>src_key = ''rust/t/2026-08-03/12/segment-1.parquet'', src_bytes = 2\<rparr>
              \<lparr>obj_body = ''BA'', obj_modified = 0\<rparr>)"
proof -
  let ?src = "\<lparr>src_key = ''rust/t/2026-08-03/12/segment-1.parquet'', src_bytes = 2\<rparr>"
  obtain s r where run: "compact sample_compactor (\<lambda>_. 0) (sample_store []) sample_partition = (s, r)"
    by fastforce
  have "snd (compact sample_compactor (\<lambda>_. 0) (sample_store []) sample_partition) = Inr ()"
    by code_simp
  then have ok: "r = Inr ()" by (simp add: run)
  have c: "cp_options sample_compactor = sample_options"
      "cp_client sample_compactor = memory_s3 (co_bucket sample_options)"
      "cp_kernels sample_compactor = sample_kernels" "cp_parquet sample_compactor = text_parquet"
    by (simp_all add: sample_compactor_def sample_options_def)
  have x: "mem_objects (sample_store []) (src_key ?src) = Some \<lparr>obj_body = ''BA'', obj_modified = 0\<rparr>"
    by (simp add: mem_objects_def sample_store_def)
  have src: "?src \<in> set (part_sources sample_partition)" by (simp add: sample_partition_def)
  note safe = compact_loses_no_data [of sample_compactor mem_objects text_rows, unfolded c,
    OF memory_s3_laws sample_kernels_laws text_parquet_laws sample_partition_ok
      sample_retention_apart run src x]
  from safe ok show ?thesis unfolding run by simp
qed

text \<open>
  A publication after which a success marker is new has put the merged file in place and has left
  each source as it was or deleted it.
\<close>

lemma publish_marks:
  assumes laws: "s3_laws (co_bucket (cp_options c)) (cp_client c) view"
    and apart: "keys_apart (cp_options c) p"
    and pub: "publish_output c t s p file rows = (s', r)"
    and before: "view s (success_key p) = None" and after: "view s' (success_key p) \<noteq> None"
    and src: "src \<in> set (part_sources p)"
  shows "map_option obj_body (view s' (output_key p)) = Some file"
    and "view s' (src_key src) \<noteq> None \<Longrightarrow> view s' (src_key src) = view s (src_key src)"
proof -
  let ?o = "cp_options c" and ?pre = "part_prefix p"
  have rets: "\<forall>a \<in> set (part_sources p). \<forall>q \<in> set (part_sources p). retained_key ?o ?pre q \<noteq> src_key a
      \<and> (retained_key ?o ?pre q = retained_key ?o ?pre a \<longrightarrow> src_key q = src_key a)"
    and apart': "\<forall>a \<in> set (part_sources p). retained_key ?o ?pre a \<noteq> output_key p
      \<and> retained_key ?o ?pre a \<noteq> success_key p \<and> src_key a \<noteq> output_key p \<and> src_key a \<noteq> success_key p"
    and os: "output_key p \<noteq> success_key p"
    using apart unfolding keys_apart_def by blast+
  let ?rets = "retained_key ?o ?pre ` set (part_sources p)"
  have image: "x \<notin> ?rets" if "\<And>q. q \<in> set (part_sources p) \<Longrightarrow> retained_key ?o ?pre q \<noteq> x" for x
    using that by blast
  have outside: "output_key p \<notin> ?rets" "success_key p \<notin> ?rets"
    by (rule image; use apart' in blast)+
  have away: "src_key src \<notin> ?rets" by (rule image) (use rets src in blast)
  obtain s3 r3 where up: "upload_output c s (output_key p) file = (s3, r3)" by fastforce
  note w3 = upload_writes [OF laws up]
  obtain s4 r4 where re: "retain_sources c s3 ?pre (part_sources p) = (s4, r4)" by fastforce
  note w4 = retain_sources_writes [OF laws re rets]
  obtain s5 r5 where ma: "write_marker c t s4 p rows = (s5, r5)" by fastforce
  note w5 = marker_writes [OF laws ma]
  have "view s3 (success_key p) = None" using w3 os before by simp
  then have "r3 = Inr ()" using pub up after by (cases r3) (auto simp: publish_output_def bind_state_eq)
  have "view s4 (success_key p) = None" using w4 outside \<open>view s3 (success_key p) = None\<close> by simp
  then have "r4 = Inr ()"
    using pub up \<open>r3 = Inr ()\<close> re after by (cases r4) (auto simp: publish_output_def bind_state_eq)
  have out: "map_option obj_body (view s5 (output_key p)) = Some file"
    using w3 w4 w5 os outside(1) \<open>r3 = Inr ()\<close> by simp
  have kept: "view s5 (src_key src) = view s (src_key src)"
    using w3 w4 w5 away apart' src by simp
  have "s' = s5 \<or> delete_sources c s5 (part_sources p) = (s', r)"
    using pub up re ma \<open>r3 = Inr ()\<close> \<open>r4 = Inr ()\<close>
    by (cases r5) (auto simp: publish_output_def bind_state_eq)
  moreover have "view s5 = view s5 |` (- {})" by (simp add: fun_eq_iff restrict_map_def)
  ultimately obtain gone where "gone \<subseteq> src_key ` set (part_sources p)" "view s' = view s5 |` (- gone)"
    using delete_sources_writes [OF laws] by (metis empty_subsetI)
  moreover from this(1) have "output_key p \<notin> gone" using apart' by (metis imageE subsetD)
  ultimately show "map_option obj_body (view s' (output_key p)) = Some file"
      and "view s' (src_key src) \<noteq> None \<Longrightarrow> view s' (src_key src) = view s (src_key src)"
    using out kept by (auto simp: restrict_map_def split: if_splits)
qed

lemma compact_marks:
  assumes laws: "s3_laws (co_bucket (cp_options c)) (cp_client c) view"
    and "kernel_laws (cp_kernels c)" and "parquet_laws (cp_parquet c) stored"
    and ok: "partition_ok cal cutoff (k, p)"
    and base: "retention_base (cp_options c) (part_prefix p) \<noteq> part_prefix p"
    and run: "compact c t s p = (s', r)"
    and before: "view s (success_key p) = None" and after: "view s' (success_key p) \<noteq> None"
  shows "\<exists>file. map_option obj_body (view s' (output_key p)) = Some file
    \<and> stored file = source_rows stored (view s) (part_sources p)
    \<and> (\<forall>src \<in> set (part_sources p). view s' (src_key src) \<noteq> None \<longrightarrow>
        view s' (src_key src) = view s (src_key src))"
proof -
  let ?p = "p\<lparr>part_sources := sort_key src_key (part_sources p)\<rparr>"
  have apart: "keys_apart (cp_options c) ?p"
    using partition_keys_apart [OF ok base] by (simp only: keys_apart_sort)
  have same: "success_key ?p = success_key p" "output_key ?p = output_key p"
    by (simp_all add: output_key_def success_key_def)
  have "source_rows stored v (part_sources ?p) = source_rows stored v (part_sources p)" for v
    by (rule source_rows_mset) simp
  then have rows: "merged_rows stored (view s) ?p = source_rows stored (view s) (part_sources p)"
    using before by (simp add: merged_rows_def same)
  obtain s1 r1 where pr: "prepare_output c s ?p = (s1, r1)" by fastforce
  note read = prepare_reads [OF assms(1-3) pr]
  from run pr before after read(1) obtain f n where fr: "r1 = Inr (f, n)"
    by (cases r1) (auto simp: compact_def bind_state_def)
  have pub: "publish_output c t s1 ?p f n = (s', r)"
    using run pr fr by (simp add: compact_def bind_state_def)
  note marks = publish_marks [OF laws apart pub, unfolded same read(1), OF before after]
  obtain src where "src \<in> set (part_sources p)"
    using ok by (cases "part_sources p") (auto simp: partition_ok_def)
  then have "src \<in> set (part_sources ?p)" by simp
  then have "map_option obj_body (view s' (output_key p)) = Some f" by (rule marks(1))
  moreover have "stored f = source_rows stored (view s) (part_sources p)" using read(2) fr rows by simp
  ultimately show ?thesis using marks(2) by auto
qed

lemma compact_adds:
  assumes "s3_laws (co_bucket (cp_options c)) (cp_client c) view"
    and "kernel_laws (cp_kernels c)" and "parquet_laws (cp_parquet c) stored"
    and ok: "partition_ok cal cutoff (k, p)"
    and "retention_base (cp_options c) (part_prefix p) \<noteq> part_prefix p"
    and "compact c t s p = (s', Inr ())"
    and "view s (success_key p) \<noteq> None"
    and "map_option obj_body (view s (output_key p)) = Some old"
  shows "\<exists>file. map_option obj_body (view s' (output_key p)) = Some file
    \<and> stored file = stored old + source_rows stored (view s) (part_sources p)"
proof -
  obtain src where src: "src \<in> set (part_sources p)"
    using ok by (cases "part_sources p") (auto simp: partition_ok_def)
  from compact_outcome [OF assms(1-6) src]
  obtain x out where "stored out = merged_rows stored (view s) p"
      and "published (cp_options c) (view s') p out src x" by auto
  with assms(7,8) show ?thesis by (auto simp: published_def merged_rows_def)
qed

text \<open>
  C29. A first compaction of a partition that ends after its success marker is in place but leaves
  sources behind, as a failed deletion does, puts their rows in the output twice: the next
  compaction that succeeds on the sources that are left merges them into an output that already
  holds them. The output then has the rows of all sources and once more those of the sources left.
\<close>

theorem rerun_after_failed_deletion_duplicates_rows:
  assumes "s3_laws (co_bucket (cp_options c)) (cp_client c) view"
    and "kernel_laws (cp_kernels c)" and "parquet_laws (cp_parquet c) stored"
    and "partition_ok cal cutoff (k, p)" and "partition_ok cal cutoff (k, again)"
    and "retention_base (cp_options c) (part_prefix p) \<noteq> part_prefix p"
    and "compact c t s p = (s1, r)"
    and "view s (success_key p) = None" and "view s1 (success_key p) \<noteq> None"
    and "part_sources again = filter (\<lambda>src. view s1 (src_key src) \<noteq> None) (part_sources p)"
    and "compact c t' s1 again = (s2, Inr ())"
  shows "\<exists>first second. map_option obj_body (view s1 (output_key p)) = Some first
    \<and> stored first = source_rows stored (view s) (part_sources p)
    \<and> map_option obj_body (view s2 (output_key p)) = Some second
    \<and> stored second = stored first + source_rows stored (view s) (part_sources again)"
proof -
  have prefixes: "part_prefix again = part_prefix p" using assms(4,5) by (simp add: partition_ok_def)
  then have keys: "success_key again = success_key p" "output_key again = output_key p"
    by (simp_all add: success_key_def output_key_def)
  obtain first where first: "map_option obj_body (view s1 (output_key p)) = Some first"
      "stored first = source_rows stored (view s) (part_sources p)"
      "\<forall>src \<in> set (part_sources p). view s1 (src_key src) \<noteq> None \<longrightarrow>
        view s1 (src_key src) = view s (src_key src)"
    using compact_marks [OF assms(1-4,6-9)] by blast
  have "source_rows stored (view s1) (part_sources again) = source_rows stored (view s) (part_sources again)"
    using first(3) assms(10) by (auto simp: source_rows_def intro!: arg_cong [of _ _ sum_list])
  moreover obtain second where "map_option obj_body (view s2 (output_key p)) = Some second"
      "stored second = stored first + source_rows stored (view s1) (part_sources again)"
    using compact_adds [OF assms(1-3,5) _ assms(11)] assms(6,9) first(1) unfolding prefixes keys by blast
  ultimately show ?thesis using first(1,2) by auto
qed

text \<open>The deletion request fails: the rows of both sources are in the output twice.\<close>

theorem rerun_after_failed_deletion_duplicates_rows_witness:
  "case compact sample_compactor (\<lambda>_. 0) (sample_store (replicate 9 False @ [True])) sample_partition of
     (s1, r) \<Rightarrow> r = Inl ''delete compacted source objects''
       \<and> (case compact sample_compactor (\<lambda>_. 0) s1 sample_partition of
           (s2, _) \<Rightarrow> \<exists>second. map_option obj_body (mem_objects s2 (output_key sample_partition)) = Some second
             \<and> text_rows second = text_rows ''ABC'' + text_rows ''ABC'')"
proof -
  let ?s = "sample_store (replicate 9 False @ [True])"
  obtain s1 r where run: "compact sample_compactor (\<lambda>_. 0) ?s sample_partition = (s1, r)" by fastforce
  obtain s2 r2 where rerun: "compact sample_compactor (\<lambda>_. 0) s1 sample_partition = (s2, r2)" by fastforce
  have "snd (compact sample_compactor (\<lambda>_. 0) ?s sample_partition) = Inl ''delete compacted source objects''"
    by code_simp
  then have r: "r = Inl ''delete compacted source objects''" by (simp add: run)
  have "snd (compact sample_compactor (\<lambda>_. 0)
      (fst (compact sample_compactor (\<lambda>_. 0) ?s sample_partition)) sample_partition) = Inr ()"
    by code_simp
  then have ok: "r2 = Inr ()" by (simp add: run rerun)
  have "mem_objects ?s (success_key sample_partition) = None" by code_simp
  moreover have "mem_objects (fst (compact sample_compactor (\<lambda>_. 0) ?s sample_partition))
      (success_key sample_partition) \<noteq> None" by code_simp
  moreover have "filter (\<lambda>src. mem_objects (fst (compact sample_compactor (\<lambda>_. 0) ?s sample_partition))
      (src_key src) \<noteq> None) (part_sources sample_partition) = part_sources sample_partition" by code_simp
  moreover have rows: "source_rows text_rows (mem_objects ?s) (part_sources sample_partition) = text_rows ''ABC''"
    by code_simp
  moreover have c: "cp_options sample_compactor = sample_options"
      "cp_client sample_compactor = memory_s3 (co_bucket sample_options)"
      "cp_kernels sample_compactor = sample_kernels" "cp_parquet sample_compactor = text_parquet"
    by (simp_all add: sample_compactor_def sample_options_def)
  ultimately have "\<exists>first second. map_option obj_body (mem_objects s1 (output_key sample_partition)) = Some first
      \<and> text_rows first = text_rows ''ABC''
      \<and> map_option obj_body (mem_objects s2 (output_key sample_partition)) = Some second
      \<and> text_rows second = text_rows first + text_rows ''ABC''"
    using rerun_after_failed_deletion_duplicates_rows [of sample_compactor mem_objects text_rows, unfolded c,
      OF memory_s3_laws sample_kernels_laws text_parquet_laws sample_partition_ok sample_partition_ok
        sample_retention_apart run _ _ _ rerun [unfolded ok]] run by simp
  then show ?thesis using run rerun r by auto
qed

subsection \<open>The lock\<close>

text \<open>
  C21. A lock that another task holds and that is not twelve hours old cannot be acquired, even
  when the request that looks at it fails; it stays as it is.
\<close>

theorem held_lock_excludes:
  assumes laws: "s3_laws b (cp_client c) view"
    and held: "view s (lock_key (cp_options c)) = Some x"
    and fresh: "seconds (t Stale_Now) - 12 * 3600 \<le> obj_modified x"
    and acq: "acquire_lock c t s = (s', r)"
  shows "view s' = view s \<and> (\<forall>key. r \<noteq> Inr key)"
proof -
  let ?k = "lock_key (cp_options c)"
  obtain s1 r1 where h: "head_object (cp_client c) s ?k = (s1, r1)" by fastforce
  have v1: "view s1 = view s" by (rule law_head(1) [OF laws h])
  show ?thesis
  proof (cases r1)
    case (Inl e)
    let ?p = "\<lparr>put_key = ?k, put_body = cp_rfc3339 c (t Lock_Now), put_if_none_match = True, put_tiering = False\<rparr>"
    obtain s2 r2 where p: "put_object (cp_client c) s1 ?p = (s2, r2)" by fastforce
    have "view s2 = view s1 \<and> r2 \<noteq> Inr ()" using law_put [OF laws p] v1 held by auto
    moreover have "s' = s2 \<and> (r2 \<noteq> Inr () \<longrightarrow> (\<forall>key. r \<noteq> Inr key))"
      using acq h Inl p
      by (auto simp: acquire_lock_def put_lock_def Let_def bind_state_eq with_message_eq)
    ultimately show ?thesis using v1 by simp
  next
    case (Inr existing)
    have "existing = \<lparr>head_length = Some (int (length (obj_body x))), head_modified = Some (obj_modified x)\<rparr>"
      using law_head(2) [OF laws h Inr] held by auto
    then have "\<not> is_stale (t Stale_Now) existing" using fresh by (simp add: is_stale_def)
    then show ?thesis using acq h Inr v1 by (auto simp: acquire_lock_def Let_def)
  qed
qed

definition locked_store :: mem_store where
  "locked_store = \<lparr>mem_table = [(''kept-control/lock'', \<lparr>obj_body = ''x'', obj_modified = 7\<rparr>)],
     mem_faults = [True]\<rparr>"

theorem held_lock_excludes_witness:
  "mem_objects (fst (acquire_lock sample_compactor (\<lambda>_. hours 11) locked_store)) = mem_objects locked_store
   \<and> (\<forall>key. snd (acquire_lock sample_compactor (\<lambda>_. hours 11) locked_store) \<noteq> Inr key)"
proof -
  have laws: "s3_laws ''bucket'' (cp_client sample_compactor) mem_objects"
    by (simp add: sample_compactor_def memory_s3_laws)
  have key: "lock_key (cp_options sample_compactor) = ''kept-control/lock''" by code_simp
  have held: "mem_objects locked_store (lock_key (cp_options sample_compactor)) =
      Some \<lparr>obj_body = ''x'', obj_modified = 7\<rparr>"
    unfolding key by (simp add: locked_store_def mem_objects_def)
  have fresh: "seconds ((\<lambda>_. hours 11) Stale_Now) - 12 * 3600 \<le> obj_modified \<lparr>obj_body = ''x'', obj_modified = 7\<rparr>"
    by (simp add: hours_def seconds_def)
  obtain s' r where a: "acquire_lock sample_compactor (\<lambda>_. hours 11) locked_store = (s', r)" by fastforce
  from held_lock_excludes [OF laws held fresh a] a show ?thesis by simp
qed

subsection \<open>A dry run\<close>

lemma list_common_prefixes_reads:
  "s3_laws b (cp_client c) view \<Longrightarrow> list_common_prefixes c s pre = (s', r) \<Longrightarrow> view s' = view s"
  by (auto simp: list_common_prefixes_def split: prod.splits dest: law_list(1))

lemma find_date_prefixes_reads:
  assumes "s3_laws b (cp_client c) view" and "find_date_prefixes c first s pending dates = (s', r)"
  shows "view s' = view s"
  using assms
proof (induction c first s pending dates rule: find_date_prefixes.induct)
  case (2 c first s current depth pending dates)
  show ?case
  proof (cases "depth > 8")
    case True
    with 2 show ?thesis by simp
  next
    case False
    obtain s1 r1 where l: "list_common_prefixes c s current = (s1, r1)" by fastforce
    note v1 = list_common_prefixes_reads [OF 2(3) l]
    show ?thesis
    proof (cases r1)
      case (Inl e)
      with 2(4) False l v1 show ?thesis by simp
    next
      case (Inr children)
      with 2(4) False l have "find_date_prefixes c first s1
          (rev (child_prefixes c depth children) @ pending) (dates @ child_dates c first children) = (s', r)"
        by simp
      with 2(2) [OF False l [symmetric] Inr 2(3)] v1 show ?thesis by simp
    qed
  qed
qed simp

lemma list_hours_reads:
  assumes "s3_laws b (cp_client c) view" and "list_hours c s ds found = (s', r)"
  shows "view s' = view s"
  using assms(2)
proof (induction ds arbitrary: s found)
  case (Cons d ds)
  obtain s1 r1 where l: "list_common_prefixes c s d = (s1, r1)" by fastforce
  have "view s1 = view s" by (rule list_common_prefixes_reads [OF assms(1) l])
  with Cons l show ?case by (cases r1) (auto simp: bind_state_def)
qed simp

lemma scan_hours_reads:
  assumes "s3_laws b (cp_client c) view" and "scan_hours c cutoff s pres g = (s', r)"
  shows "view s' = view s"
  using assms(2)
proof (induction pres arbitrary: s g)
  case (Cons pre pres)
  obtain s1 pages where l: "list_objects (cp_client c) s pre None = (s1, pages)" by fastforce
  have "view s1 = view s" by (rule law_list(1) [OF assms(1) l])
  with Cons l show ?case by (fastforce split: sum.splits)
qed simp

lemma recent_hour_prefixes_reads:
  assumes "s3_laws b (cp_client c) view" and "recent_hour_prefixes c s w = (s', r)"
  shows "view s' = view s"
  using assms(2)
  by (auto simp: recent_hour_prefixes_def bind_state_eq simp del: find_date_prefixes.simps
      dest!: find_date_prefixes_reads [OF assms(1)] list_hours_reads [OF assms(1)])

lemma candidates_reads:
  assumes "s3_laws b (cp_client c) view" and "candidates c t s ck = (s', r)"
  shows "view s' = view s"
  using assms(2)
  by (auto simp: candidates_def Let_def bind_state_eq
      dest!: recent_hour_prefixes_reads [OF assms(1)] scan_hours_reads [OF assms(1)])

lemma load_checkpoint_reads:
  assumes "s3_laws b (cp_client c) view" and "load_checkpoint c s = (s', r)"
  shows "view s' = view s"
proof -
  obtain s1 r1 where g: "get_object (cp_client c) s (co_checkpoint_key (cp_options c)) = (s1, r1)"
    by fastforce
  have "s' = s1" using assms(2) g by (auto simp: load_checkpoint_def split: sum.splits s3_error.splits)
  with law_get(1) [OF assms(1) g] show ?thesis by simp
qed

text \<open>C26. Without \<open>--execute\<close> a run changes nothing in the store, whatever fails.\<close>

theorem dry_run_changes_nothing:
  assumes "s3_laws b (cp_client c) view" and "\<not> co_execute (cp_options c)"
    and "run_compactor c t s = (s', r)"
  shows "view s' = view s"
  using assms(2,3)
  by (auto simp: run_compactor_def run_partitions_def bind_state_eq
      dest!: load_checkpoint_reads [OF assms(1)] candidates_reads [OF assms(1)])

theorem dry_run_changes_nothing_witness:
  "mem_objects (fst (run_compactor
      (sample_compactor\<lparr>cp_options := sample_options\<lparr>co_execute := False\<rparr>\<rparr>) (\<lambda>_. 0) (sample_store [])))
   = mem_objects (sample_store [])"
  by (rule dry_run_changes_nothing [of "''bucket''" _ _ "\<lambda>_. 0" _ _
        "snd (run_compactor (sample_compactor\<lparr>cp_options := sample_options\<lparr>co_execute := False\<rparr>\<rparr>)
          (\<lambda>_. 0) (sample_store []))"])
    (simp_all add: sample_compactor_def memory_s3_laws)

end
