(* ===== verification/Compactor_Run.thy ===== *)
theory Compactor_Run
  imports Compactor_Safety
begin

section \<open>A whole run of the compactor\<close>

text \<open>
  From the listing of the prefixes to the last checkpoint: the partitions of a run are those of
  distinct prefixes below the source prefix, and the compaction of one leaves the objects of all
  others, and what their compaction published, as they are.
\<close>

subsection \<open>The listing stays below the source prefix\<close>

definition source_root :: "compactor_options \<Rightarrow> string" where
  "source_root opts = trim_matches CHR ''/'' (co_prefix opts) @ ''/''"

lemma starts_with_trans: "starts_with a b \<Longrightarrow> starts_with b c \<Longrightarrow> starts_with a c"
  by (auto simp: starts_with_def intro: prefix_order.trans)

lemma collect_prefixes_in:
  "collect_prefixes pages = Inr qs \<Longrightarrow> q \<in> set qs \<Longrightarrow> \<exists>p. Inr p \<in> set pages \<and> Some q \<in> set (page_prefixes p)"
proof (induction pages arbitrary: qs rule: collect_prefixes.induct)
  case (3 p pages)
  then obtain rest where rest: "collect_prefixes pages = Inr rest"
      "q \<in> set (List.map_filter (\<lambda>x. x) (page_prefixes p)) \<or> q \<in> set rest"
    by (auto simp: result_bind_Inr)
  then show ?case using 3(1) [OF rest(1)] by (auto simp: List.map_filter_def)
qed simp_all

lemma list_common_prefixes_below:
  assumes "s3_laws b (cp_client c) view" and "list_common_prefixes c s pre = (s', Inr qs)"
  shows "\<forall>q \<in> set qs. starts_with q pre"
  using assms(2) collect_prefixes_in law_list(3) [OF assms(1)]
  by (fastforce simp: list_common_prefixes_def split: prod.splits)

lemma find_date_prefixes_below:
  assumes laws: "s3_laws b (cp_client c) view"
    and "find_date_prefixes c first s pending dates = (s', Inr ds)"
    and "\<forall>(q, depth) \<in> set pending. starts_with q root" and "\<forall>d \<in> set dates. starts_with d root"
  shows "\<forall>d \<in> set ds. starts_with d root"
  using assms
proof (induction c first s pending dates rule: find_date_prefixes.induct)
  case (2 c first s current depth pending dates)
  show ?case
  proof (cases "depth > 8")
    case True
    with 2 show ?thesis by simp
  next
    case False
    obtain s1 r1 where l: "list_common_prefixes c s current = (s1, r1)" by fastforce
    show ?thesis
    proof (cases r1)
      case (Inl e)
      with 2(4) False l show ?thesis by simp
    next
      case (Inr children)
      with 2(4) False l have rest: "find_date_prefixes c first s1
          (rev (child_prefixes c depth children) @ pending) (dates @ child_dates c first children) = (s', Inr ds)"
        by simp
      have "starts_with q root" if "q \<in> set children" for q
        using list_common_prefixes_below [OF 2(3) l [unfolded Inr]] that 2(5) starts_with_trans by auto
      then have "\<forall>(q, depth) \<in> set (rev (child_prefixes c depth children) @ pending). starts_with q root"
          "\<forall>d \<in> set (dates @ child_dates c first children). starts_with d root"
        using 2(5,6) by (auto simp: child_prefixes_def child_dates_def)
      then show ?thesis by (rule 2(2) [OF False l [symmetric] Inr 2(3) rest])
    qed
  qed
qed auto

lemma list_hours_below:
  assumes "s3_laws b (cp_client c) view" and "list_hours c s ds found = (s', Inr hs)"
    and "\<forall>d \<in> set ds. starts_with d root" and "\<forall>h \<in> set found. starts_with h root"
  shows "\<forall>h \<in> set hs. starts_with h root"
  using assms(2-)
proof (induction ds arbitrary: s found)
  case (Cons d ds)
  obtain s1 r1 where l: "list_common_prefixes c s d = (s1, r1)" by fastforce
  show ?case
  proof (cases r1)
    case (Inr qs)
    have "\<forall>q \<in> set qs. starts_with q root"
      using list_common_prefixes_below [OF assms(1) l [unfolded Inr]] Cons.prems(2) starts_with_trans by auto
    then have "\<forall>h \<in> set (found @ qs). starts_with h root" using Cons.prems(3) by auto
    moreover have "list_hours c s1 ds (found @ qs) = (s', Inr hs)"
      using Cons.prems(1) l Inr by (simp add: bind_state_def)
    ultimately show ?thesis using Cons.IH Cons.prems(2) by simp
  qed (use Cons.prems(1) l in \<open>simp add: bind_state_def\<close>)
qed simp

lemma recent_hours_below:
  assumes laws: "s3_laws b (cp_client c) view" and run: "recent_hour_prefixes c s w = (s', Inr hs)"
  shows "\<forall>h \<in> set hs. starts_with h (source_root (cp_options c))"
proof -
  let ?root = "source_root (cp_options c)"
  obtain s1 ds where ds: "find_date_prefixes c (date_naive (cp_chrono c) w) s [(?root, 0)] [] = (s1, Inr ds)"
      and hs: "list_hours c s1 ds [] = (s', Inr hs)"
    using run by (auto simp: recent_hour_prefixes_def bind_state_eq source_root_def
        simp del: find_date_prefixes.simps)
  have "\<forall>d \<in> set ds. starts_with d ?root"
    by (rule find_date_prefixes_below [OF laws ds]) (simp_all add: starts_with_def)
  then show ?thesis using list_hours_below [OF laws hs] by simp
qed

subsection \<open>The candidates\<close>

text \<open>The sources of a group are objects of the store below the source prefix.\<close>

definition sources_live :: "string \<Rightarrow> s3_view \<Rightarrow> (string \<times> partition) list \<Rightarrow> bool" where
  "sources_live root v g \<longleftrightarrow>
     (\<forall>src \<in> set (grouped_sources g). starts_with (src_key src) root \<and> v (src_key src) \<noteq> None)"

lemma source_of_key: "source_of cal cutoff obj = Some src \<Longrightarrow> fst obj = Some (src_key src)"
  by (auto simp: source_of_def split: prod.splits option.splits if_splits)

lemma scan_objects_live:
  assumes "grouping_ok cal cutoff g" and "sources_live root v g"
    and objs: "\<And>k n. (Some k, n) \<in> set objs \<Longrightarrow> starts_with k root \<and> v k \<noteq> None"
  shows "grouping_ok cal cutoff (scan_objects cal cutoff objs g)
    \<and> sources_live root v (scan_objects cal cutoff objs g)"
proof -
  note ok = scan_objects_ok [OF assms(1), of objs]
  then have "set (grouped_sources (scan_objects cal cutoff objs g)) =
      set (grouped_sources g) \<union> set (List.map_filter (source_of cal cutoff) objs)"
    by (metis set_mset_mset set_mset_union)
  moreover have "starts_with (src_key src) root \<and> v (src_key src) \<noteq> None"
    if src: "src \<in> set (List.map_filter (source_of cal cutoff) objs)" for src
  proof -
    obtain obj where "obj \<in> set objs" "source_of cal cutoff obj = Some src"
      using src by (auto simp: List.map_filter_def)
    then show ?thesis using objs source_of_key by (metis prod.collapse)
  qed
  ultimately show ?thesis using ok assms(2) by (auto simp: sources_live_def)
qed

lemma scan_pages_live:
  assumes "scan_pages c cutoff pages g = Inr g'"
    and "grouping_ok (cp_chrono c) cutoff g" and "sources_live root v g"
    and "\<And>p x k. Inr p \<in> set pages \<Longrightarrow> x \<in> set (page_contents p) \<Longrightarrow> lo_key x = Some k \<Longrightarrow>
      starts_with k root \<and> v k \<noteq> None"
  shows "grouping_ok (cp_chrono c) cutoff g' \<and> sources_live root v g'"
  using assms
proof (induction c cutoff pages g rule: scan_pages.induct)
  case (3 c cutoff p pages g)
  let ?objs = "map (\<lambda>x. (lo_key x, lo_size x)) (page_contents p)"
  have "starts_with k root \<and> v k \<noteq> None" if "(Some k, n) \<in> set ?objs" for k n
    using that 3(5) [of p] by (auto simp: eq_commute)
  then have "grouping_ok (cp_chrono c) cutoff (scan_objects (cp_chrono c) cutoff ?objs g)"
      "sources_live root v (scan_objects (cp_chrono c) cutoff ?objs g)"
    using scan_objects_live [OF 3(3,4), of ?objs] by blast+
  then show ?case using 3(2,5) by (intro 3(1)) auto
qed simp_all

lemma scan_hours_live:
  assumes laws: "s3_laws b (cp_client c) view" and "scan_hours c cutoff s hs g = (s', Inr g')"
    and "grouping_ok (cp_chrono c) cutoff g" and "sources_live root (view s) g"
    and "\<forall>h \<in> set hs. starts_with h root"
  shows "grouping_ok (cp_chrono c) cutoff g' \<and> sources_live root (view s) g'"
  using assms(2-)
proof (induction hs arbitrary: s g)
  case (Cons h hs)
  obtain s1 pages where l: "list_objects (cp_client c) s h None = (s1, pages)" by fastforce
  note v1 = law_list(1) [OF laws l]
  obtain g1 where g1: "scan_pages c cutoff pages g = Inr g1" "scan_hours c cutoff s1 hs g1 = (s', Inr g')"
    using Cons.prems(1) l by (auto split: sum.splits)
  have "starts_with k root \<and> view s k \<noteq> None"
    if "Inr p \<in> set pages" "x \<in> set (page_contents p)" "lo_key x = Some k" for p x k
    using law_list(2) [OF laws l that] Cons.prems(4) starts_with_trans by fastforce
  from scan_pages_live [OF g1(1) Cons.prems(2,3) this]
  show ?case using Cons.IH [OF g1(2)] Cons.prems(4) v1 by simp
qed simp

text \<open>The partitions of a run.\<close>

definition run_partition :: "'s compactor \<Rightarrow> s3_view \<Rightarrow> partition \<Rightarrow> bool" where
  "run_partition c v p \<longleftrightarrow> (\<exists>cutoff. partition_ok (cp_chrono c) cutoff (part_prefix p, p))
     \<and> (\<forall>src \<in> set (part_sources p).
          starts_with (src_key src) (source_root (cp_options c)) \<and> v (src_key src) \<noteq> None)"

lemma candidates_live:
  assumes laws: "s3_laws b (cp_client c) view" and run: "candidates c t s ck = (s', Inr ps)"
  shows "distinct (map part_prefix ps) \<and> (\<forall>p \<in> set ps. run_partition c (view s) p)"
proof -
  let ?root = "source_root (cp_options c)"
  let ?cutoff = "t Settle_Now - minutes (co_settle_minutes (cp_options c))"
  obtain s1 hs g where hs: "recent_hour_prefixes c s (t Window_Now - hours (co_lookback_hours (cp_options c))) = (s1, Inr hs)"
      and g: "scan_hours c ?cutoff s1 hs [] = (s', Inr g)"
      and ps: "ps = select_partitions (cp_options c) ck g"
    using run by (auto simp: candidates_def Let_def bind_state_eq)
  have "\<forall>h \<in> set hs. starts_with h ?root" by (rule recent_hours_below [OF laws hs])
  then have ok: "grouping_ok (cp_chrono c) ?cutoff g \<and> sources_live ?root (view s1) g"
    using scan_hours_live [OF laws g] by (simp add: grouping_ok_def sources_live_def grouped_sources_def)
  have v1: "view s1 = view s" by (rule recent_hour_prefixes_reads [OF laws hs])
  have keys: "map part_prefix (map snd g) = map fst g"
    using ok by (auto simp: grouping_ok_def list_all_iff partition_ok_def)
  have "distinct (map fst g)" using ok by (auto simp: grouping_ok_def strict_sorted_iff)
  then have "distinct (map part_prefix ps)"
    unfolding ps select_partitions_def by (intro distinct_map_filter) (simp only: keys)
  moreover have "run_partition c (view s) p" if p_in: "p \<in> set ps" for p
  proof -
    obtain k where k: "(k, p) \<in> set g" using p_in by (auto simp: ps select_partitions_def)
    then have p: "partition_ok (cp_chrono c) ?cutoff (k, p)" using ok by (auto simp: grouping_ok_def list_all_iff)
    then have "k = part_prefix p" by (simp add: partition_ok_def)
    moreover have "set (part_sources p) \<subseteq> set (grouped_sources g)"
      using k by (auto simp: grouped_sources_def)
    ultimately show ?thesis using p ok v1 by (auto simp: run_partition_def sources_live_def)
  qed
  ultimately show ?thesis by blast
qed

lemma chosen_live:
  "set (chosen_partitions opts ps) \<subseteq> set ps"
  "distinct (map part_prefix ps) \<Longrightarrow> distinct (map part_prefix (chosen_partitions opts ps))"
proof -
  show "set (chosen_partitions opts ps) \<subseteq> set ps"
    using set_take_subset [of _ "sort_key part_hour ps"] by (auto simp: chosen_partitions_def Let_def)
  assume d: "distinct (map part_prefix ps)"
  have "distinct (map part_prefix (sort_key part_hour ps))"
    using d by (metis distinct_map distinct_sort set_sort)
  then show "distinct (map part_prefix (chosen_partitions opts ps))"
    by (simp add: chosen_partitions_def Let_def take_map [symmetric])
qed

subsection \<open>Directories and names of keys\<close>

definition directory :: "string \<Rightarrow> string option" where
  "directory k = map_option fst (rsplit_once CHR ''/'' k)"

lemma directory_key: "CHR ''/'' \<notin> set n \<Longrightarrow> directory (d @ CHR ''/'' # n) = Some d"
  by (simp add: directory_def rsplit_once_append)

text \<open>The names of the objects that hold data; the lock and the checkpoint have others.\<close>

definition data_key :: "string \<Rightarrow> bool" where
  "data_key k \<longleftrightarrow> starts_with (last_component CHR ''/'' k) ''segment-''
     \<or> last_component CHR ''/'' k = output_name \<or> last_component CHR ''/'' k = success_name"

lemma source_keys:
  assumes "partition_ok cal cutoff (part_prefix p, p)" and "src \<in> set (part_sources p)"
  shows "directory (src_key src) = Some (part_prefix p)" and "data_key (src_key src)"
    and "directory (retained_key opts (part_prefix p) src) = Some (retention_base opts (part_prefix p))"
    and "data_key (retained_key opts (part_prefix p) src)"
proof -
  obtain n where n: "src_key src = part_prefix p @ CHR ''/'' # n" "CHR ''/'' \<notin> set n" "starts_with n ''segment-''"
    using source_shape [OF assms] by blast
  then have last: "last_component CHR ''/'' (src_key src) = n" by simp
  then have "retained_key opts (part_prefix p) src = retention_base opts (part_prefix p) @ CHR ''/'' # n"
    by (simp add: retained_key_base)
  with n last show "directory (src_key src) = Some (part_prefix p)" "data_key (src_key src)"
      "directory (retained_key opts (part_prefix p) src) = Some (retention_base opts (part_prefix p))"
      "data_key (retained_key opts (part_prefix p) src)"
    by (simp_all add: directory_key data_key_def)
qed

lemma written_keys:
  "directory (output_key p) = Some (part_prefix p)" "data_key (output_key p)"
  "directory (success_key p) = Some (part_prefix p)" "data_key (success_key p)"
proof -
  have o: "output_key p = part_prefix p @ CHR ''/'' # output_name" "CHR ''/'' \<notin> set output_name"
      "success_key p = part_prefix p @ CHR ''/'' # success_name" "CHR ''/'' \<notin> set success_name"
    by (simp_all add: output_key_def success_key_def output_name_def success_name_def)
  then show "directory (output_key p) = Some (part_prefix p)" "data_key (output_key p)"
    "directory (success_key p) = Some (part_prefix p)" "data_key (success_key p)"
    by (simp_all add: directory_key data_key_def)
qed

subsection \<open>What a compaction leaves alone\<close>

definition touched :: "compactor_options \<Rightarrow> partition \<Rightarrow> string set" where
  "touched opts p = {output_key p, success_key p} \<union> src_key ` set (part_sources p)
     \<union> retained_key opts (part_prefix p) ` set (part_sources p)"

lemma touched_directory:
  assumes "partition_ok cal cutoff (part_prefix p, p)" and "k \<in> touched opts p"
  shows "directory k \<in> {Some (part_prefix p), Some (retention_base opts (part_prefix p))}"
  using assms(2) source_keys [OF assms(1)] written_keys by (auto simp: touched_def)

lemma publish_frame:
  assumes laws: "s3_laws (co_bucket (cp_options c)) (cp_client c) view"
    and apart: "keys_apart (cp_options c) p"
    and pub: "publish_output c t s p file rows = (s', r)" and k: "k \<notin> touched (cp_options c) p"
  shows "view s' k = view s k"
proof -
  let ?o = "cp_options c" and ?pre = "part_prefix p"
  have rets: "\<forall>a \<in> set (part_sources p). \<forall>q \<in> set (part_sources p). retained_key ?o ?pre q \<noteq> src_key a
      \<and> (retained_key ?o ?pre q = retained_key ?o ?pre a \<longrightarrow> src_key q = src_key a)"
    using apart unfolding keys_apart_def by blast
  have k': "k \<noteq> output_key p" "k \<noteq> success_key p" "k \<notin> retained_key ?o ?pre ` set (part_sources p)"
      "k \<notin> src_key ` set (part_sources p)"
    using k by (auto simp: touched_def)
  have up: "view s1 k = view s k" if "upload_output c s (output_key p) file = (s1, r1)" for s1 r1
    using upload_writes [OF laws that] k' by blast
  have re: "view s2 k = view s1 k" if "retain_sources c s1 ?pre (part_sources p) = (s2, r2)" for s1 s2 r2
    using retain_sources_writes [OF laws that rets] k' by blast
  have ma: "view s3 k = view s2 k" if "write_marker c t s2 p rows = (s3, r3)" for s2 s3 r3
    using marker_writes [OF laws that] k' by blast
  have de: "view s4 k = view s3 k" if "delete_sources c s3 (part_sources p) = (s4, r4)" for s3 s4 r4
    using delete_sources_writes [OF laws that] k'(4) by (auto simp: restrict_map_def)
  show ?thesis
    using pub unfolding publish_output_def bind_state_eq by (elim disjE exE conjE) (metis up re ma de)+
qed

lemma compact_frame:
  assumes laws: "s3_laws (co_bucket (cp_options c)) (cp_client c) view"
    and "kernel_laws (cp_kernels c)" and "parquet_laws (cp_parquet c) stored"
    and ok: "partition_ok cal cutoff (part_prefix p, p)"
    and base: "retention_base (cp_options c) (part_prefix p) \<noteq> part_prefix p"
    and run: "compact c t s p = (s', r)" and k: "k \<notin> touched (cp_options c) p"
  shows "view s' k = view s k"
proof -
  let ?p = "p\<lparr>part_sources := sort_key src_key (part_sources p)\<rparr>"
  have apart: "keys_apart (cp_options c) ?p"
    using partition_keys_apart [OF ok base] by (simp only: keys_apart_sort)
  have same: "touched (cp_options c) ?p = touched (cp_options c) p"
    by (simp add: touched_def output_key_def success_key_def)
  obtain s1 r1 where pr: "prepare_output c s ?p = (s1, r1)" by fastforce
  note read = prepare_reads(1) [OF assms(1-3) pr]
  show ?thesis
  proof (cases r1)
    case (Inl e)
    with run pr read show ?thesis by (simp add: compact_def bind_state_def)
  next
    case (Inr fr)
    obtain f n where "fr = (f, n)" by fastforce
    with run pr Inr have "publish_output c t s1 ?p f n = (s', r)" by (simp add: compact_def bind_state_def)
    from publish_frame [OF laws apart this] k same read show ?thesis by simp
  qed
qed

subsection \<open>Partition after partition\<close>

text \<open>
  The retained copies of a partition lie outside the directories of all partitions, and those of
  two partitions in two directories.
\<close>

definition prefixes_apart :: "compactor_options \<Rightarrow> string set \<Rightarrow> bool" where
  "prefixes_apart opts P \<longleftrightarrow> inj_on (retention_base opts) P \<and> retention_base opts ` P \<inter> P = {}"

definition partitions_of :: "'s compactor \<Rightarrow> string set \<Rightarrow> partition list \<Rightarrow> bool" where
  "partitions_of c P ps \<longleftrightarrow> distinct (map part_prefix ps) \<and> part_prefix ` set ps \<subseteq> P
     \<and> (\<forall>p \<in> set ps. \<exists>cutoff. partition_ok (cp_chrono c) cutoff (part_prefix p, p))"

text \<open>A key of one partition: in its directory or in the directory of its retained copies.\<close>

definition key_of :: "compactor_options \<Rightarrow> string \<Rightarrow> string \<Rightarrow> bool" where
  "key_of opts pre k \<longleftrightarrow> data_key k \<and> directory k \<in> {Some pre, Some (retention_base opts pre)}"

lemma key_of_untouched:
  assumes "prefixes_apart opts P" and "pre \<in> P" and "part_prefix p \<in> P" and "part_prefix p \<noteq> pre"
    and "partition_ok cal cutoff (part_prefix p, p)" and "key_of opts pre k"
  shows "k \<notin> touched opts p"
proof
  assume "k \<in> touched opts p"
  then have d: "directory k \<in> {Some (part_prefix p), Some (retention_base opts (part_prefix p))}"
    by (rule touched_directory [OF assms(5)])
  have "retention_base opts pre \<noteq> retention_base opts (part_prefix p)"
    using assms(1-4) by (auto simp: prefixes_apart_def inj_on_def)
  moreover have "retention_base opts pre \<noteq> part_prefix p" "retention_base opts (part_prefix p) \<noteq> pre"
    using assms(1-3) by (auto simp: prefixes_apart_def)
  ultimately show False using d assms(4,6) by (auto simp: key_of_def)
qed

lemma save_checkpoint_frame:
  assumes laws: "s3_laws b (cp_client c) view" and save: "save_checkpoint c s ck = (s', r)"
    and "\<not> data_key (co_checkpoint_key (cp_options c))" and "data_key k"
  shows "view s' k = view s k"
proof (cases "cp_encode_checkpoint c ck")
  case None
  with save show ?thesis by (simp add: save_checkpoint_def)
next
  case (Some body)
  let ?q = "put_request (co_checkpoint_key (cp_options c)) body"
  have "with_message (put_object (cp_client c) s ?q) ''save compaction checkpoint'' = (s', r)"
    using save Some by (simp add: save_checkpoint_def)
  from put_writes [OF laws this] have "view s' k = view s k" if "k \<noteq> put_key ?q" using that by blast
  moreover have "k \<noteq> put_key ?q" using assms(3,4) by (auto simp: put_request_def)
  ultimately show ?thesis .
qed

text \<open>The hypotheses that all steps of a run share.\<close>

definition run_laws ::
  "'s compactor \<Rightarrow> ('s \<Rightarrow> s3_view) \<Rightarrow> (string \<Rightarrow> data_value list multiset) \<Rightarrow> string set \<Rightarrow> bool" where
  "run_laws c view stored P \<longleftrightarrow> s3_laws (co_bucket (cp_options c)) (cp_client c) view
     \<and> kernel_laws (cp_kernels c) \<and> parquet_laws (cp_parquet c) stored
     \<and> \<not> data_key (co_checkpoint_key (cp_options c)) \<and> prefixes_apart (cp_options c) P"

lemma compact_untouched:
  assumes run: "run_laws c view stored P" and c: "compact c t s p = (s', r)"
    and p: "part_prefix p \<in> P" "partition_ok cal cutoff (part_prefix p, p)" and k: "k \<notin> touched (cp_options c) p"
  shows "view s' k = view s k"
proof -
  have "retention_base (cp_options c) (part_prefix p) \<noteq> part_prefix p"
    using run p(1) by (auto simp: run_laws_def prefixes_apart_def)
  then show ?thesis
    using compact_frame [OF _ _ _ p(2) _ c k] run unfolding run_laws_def by blast
qed

text \<open>Of a run over further partitions, the keys of \<open>pre\<close> see nothing.\<close>

lemma run_list_frame:
  assumes run: "run_laws c view stored P" and "run_list c t s ck ps = (s', r)" and "partitions_of c P ps"
    and pre: "pre \<in> P" "pre \<notin> part_prefix ` set ps" and k: "key_of (cp_options c) pre k"
  shows "view s' k = view s k"
  using assms(2,3) pre(2)
proof (induction ps arbitrary: s ck)
  case (Cons p ps)
  have laws: "s3_laws (co_bucket (cp_options c)) (cp_client c) view"
    and ck: "\<not> data_key (co_checkpoint_key (cp_options c))" and apart: "prefixes_apart (cp_options c) P"
    using run by (simp_all add: run_laws_def)
  obtain cutoff where p: "part_prefix p \<in> P" "partition_ok (cp_chrono c) cutoff (part_prefix p, p)"
      "part_prefix p \<noteq> pre" "partitions_of c P ps"
    using Cons.prems(2,3) by (auto simp: partitions_of_def)
  obtain s1 r1 where c1: "compact c t s p = (s1, r1)" by fastforce
  have v1: "view s1 k = view s k"
    by (rule compact_untouched [OF run c1 p(1,2)]) (rule key_of_untouched [OF apart pre(1) p(1,3,2) k])
  have save: "view s2 k = view s1 k" if "save_checkpoint c s1 ck' = (s2, r2)" for ck' s2 r2
    using save_checkpoint_frame [OF laws that ck] k by (simp add: key_of_def)
  show ?case
  proof (cases r1)
    case (Inl e)
    with Cons.prems(1) c1 v1 show ?thesis by (simp add: Let_def bind_state_def)
  next
    case (Inr u)
    then show ?thesis
      using Cons.prems(1,3) c1 v1 save Cons.IH p(4) by (fastforce simp: Let_def bind_state_eq)
  qed
qed simp

text \<open>
  What becomes of a source: it is as it was, or one of the partitions has merged it, and then the
  output with its rows and the retained copy are there.
\<close>

definition merged_away ::
  "'s compactor \<Rightarrow> (string \<Rightarrow> data_value list multiset) \<Rightarrow> s3_view \<Rightarrow> s3_view \<Rightarrow> partition list \<Rightarrow> string \<Rightarrow>
   s3_object \<Rightarrow> bool" where
  "merged_away c stored v v' ps key x \<longleftrightarrow>
     (\<exists>p \<in> set ps. \<exists>src \<in> set (part_sources p). \<exists>file. src_key src = key
        \<and> stored file = merged_rows stored v p \<and> published (cp_options c) v' p file src x)"

lemma merged_rows_cong:
  assumes "\<And>k. k \<in> insert (output_key p) (insert (success_key p) (src_key ` set (part_sources p))) \<Longrightarrow> v' k = v k"
  shows "merged_rows stored v' p = merged_rows stored v p"
proof -
  have "source_rows stored v' (part_sources p) = source_rows stored v (part_sources p)"
    unfolding source_rows_def using assms by (intro arg_cong [where f = sum_list] map_cong) auto
  moreover have "v' (output_key p) = v (output_key p)" "v' (success_key p) = v (success_key p)"
    using assms by simp_all
  ultimately show ?thesis by (simp only: merged_rows_def)
qed

lemma run_list_safe:
  assumes run: "run_laws c view stored P" and "run_list c t s ck ps = (s', r)" and "partitions_of c P ps"
    and key: "directory key = Some pre" "pre \<in> P" "starts_with (last_component CHR ''/'' key) ''segment-''"
    and "view s key = Some x"
  shows "view s' key = Some x \<or> merged_away c stored (view s) (view s') ps key x"
  using assms(2,3,7)
proof (induction ps arbitrary: s ck)
  case (Cons p ps)
  let ?o = "cp_options c"
  have laws: "s3_laws (co_bucket ?o) (cp_client c) view" "kernel_laws (cp_kernels c)"
      "parquet_laws (cp_parquet c) stored"
    and ck: "\<not> data_key (co_checkpoint_key ?o)" and apart: "prefixes_apart ?o P"
    using run by (simp_all add: run_laws_def)
  obtain cutoff where p: "part_prefix p \<in> P" "partition_ok (cp_chrono c) cutoff (part_prefix p, p)"
      and rest: "part_prefix p \<notin> part_prefix ` set ps" "partitions_of c P ps"
    using Cons.prems(2) by (auto simp: partitions_of_def)
  have base: "retention_base ?o (part_prefix p) \<noteq> part_prefix p"
    using apart p(1) by (auto simp: prefixes_apart_def)
  obtain s1 r1 where c1: "compact c t s p = (s1, r1)" by fastforce
  have save: "view s2 k = view s1 k" if "save_checkpoint c s1 ck' = (s2, r2)" "data_key k" for ck' s2 r2 k
    using save_checkpoint_frame [OF laws(1) that(1) ck that(2)] .
  have dkey: "data_key key" using key(3) by (simp add: data_key_def)
  show ?case
  proof (cases "key \<in> src_key ` set (part_sources p)")
    case True
    then obtain src where src: "src \<in> set (part_sources p)" "src_key src = key" by auto
    have keys: "key_of ?o (part_prefix p) (output_key p)"
        "key_of ?o (part_prefix p) (retained_key ?o (part_prefix p) src)"
      using written_keys source_keys [OF p(2) src(1)] by (simp_all add: key_of_def)
    have later: "view s' k = view s1 k"
      if k: "key_of ?o (part_prefix p) k" and u: "r1 = Inr u" for k u
    proof -
      have "data_key k" using k by (simp add: key_of_def)
      then show ?thesis
        using Cons.prems(1) c1 u save run_list_frame [OF run _ rest(2) p(1) rest(1) k]
        by (fastforce simp: Let_def bind_state_eq)
    qed
    consider (kept) e where "view s1 key = Some x" "r1 = Inl e"
      | (merged) f where "stored f = merged_rows stored (view s) p" "published ?o (view s1) p f src x"
      using compact_outcome [OF laws p(2) base c1 src(1)] Cons.prems(3) src(2) by (cases r1) auto
    then show ?thesis
    proof cases
      case kept
      with Cons.prems(1) c1 show ?thesis by (simp add: Let_def bind_state_def)
    next
      case merged
      have "published ?o (view s') p f src x"
      proof (cases r1)
        case (Inl e)
        with Cons.prems(1) c1 merged(2) show ?thesis by (simp add: Let_def bind_state_def)
      next
        case (Inr u)
        with merged(2) later [OF keys(1)] later [OF keys(2)] show ?thesis by (simp add: published_def)
      qed
      then show ?thesis using src merged(1) by (auto simp: merged_away_def)
    qed
  next
    case False
    have "key \<noteq> output_key p" "key \<noteq> success_key p"
      using key(3) not_segment by (auto simp: output_key_def success_key_def output_name_def success_name_def)
    moreover have "key \<notin> retained_key ?o (part_prefix p) ` set (part_sources p)"
      using key(1,2) source_keys(3) [OF p(2)] apart p(1) by (auto simp: prefixes_apart_def)
    ultimately have "key \<notin> touched ?o p" using False by (simp add: touched_def)
    then have k1: "view s1 key = Some x" using compact_untouched [OF run c1 p] Cons.prems(3) by simp
    show ?thesis
    proof (cases r1)
      case (Inl e)
      with Cons.prems(1) c1 k1 show ?thesis by (simp add: Let_def bind_state_def)
    next
      case (Inr u)
      obtain ck' s2 r2 where sv: "save_checkpoint c s1 ck' = (s2, r2)"
          and more: "(\<exists>e. r2 = Inl e \<and> s' = s2) \<or> run_list c t s2 ck' ps = (s', r)"
        using Cons.prems(1) c1 Inr by (auto simp: Let_def bind_state_eq)
      have k2: "view s2 key = Some x" using save [OF sv dkey] k1 by simp
      have same: "merged_rows stored (view s2) q = merged_rows stored (view s) q" if q_in: "q \<in> set ps" for q
      proof (rule merged_rows_cong)
        fix k assume k: "k \<in> insert (output_key q) (insert (success_key q) (src_key ` set (part_sources q)))"
        obtain cutoff where q: "part_prefix q \<in> P" "partition_ok (cp_chrono c) cutoff (part_prefix q, q)"
          using rest(2) q_in by (auto simp: partitions_of_def)
        have "part_prefix p \<noteq> part_prefix q" using rest(1) q_in by auto
        moreover have kq: "key_of ?o (part_prefix q) k"
          using k written_keys source_keys(1,2) [OF q(2)] by (auto simp: key_of_def)
        ultimately have "k \<notin> touched ?o p" using key_of_untouched [OF apart q(1) p(1) _ p(2)] by blast
        then show "view s2 k = view s k"
          using compact_untouched [OF run c1 p] save [OF sv] kq by (simp add: key_of_def)
      qed
      from more show ?thesis
      proof
        assume "\<exists>e. r2 = Inl e \<and> s' = s2"
        with k2 show ?thesis by auto
      next
        assume "run_list c t s2 ck' ps = (s', r)"
        from Cons.IH [OF this rest(2) k2] show ?thesis using same by (auto simp: merged_away_def)
      qed
    qed
  qed
qed simp

subsection \<open>The run\<close>

lemma lock_not_data: "\<not> data_key (lock_key opts)"
proof -
  have "last_component CHR ''/'' ((trim_end_matches CHR ''/'' (co_retention_prefix opts) @ ''-control'') @ CHR ''/'' # ''lock'') = ''lock''"
    by (rule last_component_append) simp
  then have "last_component CHR ''/'' (lock_key opts) = ''lock''" by (simp add: lock_key_def)
  then show ?thesis by (simp add: data_key_def output_name_def success_name_def starts_with_def)
qed

lemma acquire_frame:
  assumes laws: "s3_laws b (cp_client c) view" and "acquire_lock c t s = (s', r)" and k: "data_key k"
  shows "view s' k = view s k" and "r = Inr key \<Longrightarrow> key = lock_key (cp_options c)"
proof -
  let ?key = "lock_key (cp_options c)"
  have lock: "k \<noteq> ?key" using k lock_not_data by auto
  have put: "view s2 k = view s1 k \<and> (\<forall>y. r2 = Inr y \<longrightarrow> y = ?key)"
    if p: "put_lock c t s1 ?key = (s2, r2)" for s1 s2 r2
    using p lock by (auto simp: put_lock_def bind_state_eq dest!: put_writes [OF laws])
  obtain s1 r1 where h: "head_object (cp_client c) s ?key = (s1, r1)" by fastforce
  have v1: "view s1 = view s" by (rule law_head(1) [OF laws h])
  have "view s' k = view s k \<and> (\<forall>y. r = Inr y \<longrightarrow> y = ?key)"
  proof (cases "\<exists>e. r1 = Inr e \<and> is_stale (t Stale_Now) e")
    case False
    then have "put_lock c t s1 ?key = (s', r) \<or> s' = s1 \<and> (\<forall>y. r \<noteq> Inr y)"
      using assms(2) h by (cases r1) (auto simp: acquire_lock_def Let_def)
    then show ?thesis using put v1 by auto
  next
    case True
    obtain s2 r2 where d: "delete_object (cp_client c) s1 ?key = (s2, r2)" by fastforce
    have v2: "view s2 k = view s k" using law_delete [OF laws d] v1 lock by auto
    have "put_lock c t s2 ?key = (s', r) \<or> s' = s2 \<and> (\<forall>y. r \<noteq> Inr y)"
      using assms(2) h d True by (cases r2) (auto simp: acquire_lock_def Let_def bind_state_def with_message_def)
    then show ?thesis using put v2 by auto
  qed
  then show "view s' k = view s k" and "r = Inr key \<Longrightarrow> key = ?key" by auto
qed

text \<open>The directories of the segments that the compactor recognises.\<close>

definition live_prefixes :: "'s compactor \<Rightarrow> s3_view \<Rightarrow> string set" where
  "live_prefixes c v = {pre. \<exists>key h. v key \<noteq> None \<and> starts_with key (source_root (cp_options c))
     \<and> is_source_key key \<and> partition_from_key (cp_chrono c) key = Some (pre, h)}"

lemma live_prefixes_cong:
  assumes "\<And>k. data_key k \<Longrightarrow> v' k = v k"
  shows "live_prefixes c v' = live_prefixes c v"
proof -
  have "data_key k" if "is_source_key k" for k using that by (simp add: is_source_key_def data_key_def)
  then show ?thesis using assms unfolding live_prefixes_def by (metis (no_types, lifting))
qed

lemma run_partition_live:
  assumes "run_partition c v p"
  shows "part_prefix p \<in> live_prefixes c v"
proof -
  obtain cutoff where ok: "partition_ok (cp_chrono c) cutoff (part_prefix p, p)"
    using assms by (auto simp: run_partition_def)
  then obtain src where "src \<in> set (part_sources p)" by (cases "part_sources p") (auto simp: partition_ok_def)
  with ok assms show ?thesis
    unfolding live_prefixes_def run_partition_def partition_ok_def list_all_iff by blast
qed

lemma published_cong:
  assumes "v' (output_key p) = v (output_key p)"
    and "v' (retained_key opts (part_prefix p) src) = v (retained_key opts (part_prefix p) src)"
  shows "published opts v' p file src x = published opts v p file src x"
  using assms by (simp add: published_def)

lemma run_partitions_safe:
  assumes run: "run_laws c view stored (live_prefixes c (view s))"
    and r: "run_partitions c t s = (s', r)"
    and key: "directory key = Some pre" "pre \<in> live_prefixes c (view s)"
      "starts_with (last_component CHR ''/'' key) ''segment-''"
    and x: "view s key = Some x"
  shows "view s' key = Some x
    \<or> (\<exists>ps. partitions_of c (live_prefixes c (view s)) ps \<and> merged_away c stored (view s) (view s') ps key x)"
proof -
  let ?P = "live_prefixes c (view s)"
  have laws: "s3_laws (co_bucket (cp_options c)) (cp_client c) view"
    and ck: "\<not> data_key (co_checkpoint_key (cp_options c))"
    using run by (simp_all add: run_laws_def)
  obtain s1 r1 where l: "load_checkpoint c s = (s1, r1)" by fastforce
  have v1: "view s1 = view s" by (rule load_checkpoint_reads [OF laws l])
  show ?thesis
  proof (cases r1)
    case (Inl e)
    with r l v1 x show ?thesis by (simp add: run_partitions_def bind_state_def)
  next
    case (Inr ck0)
    obtain s2 r2 where ca: "candidates c t s1 ck0 = (s2, r2)" by fastforce
    have v2: "view s2 = view s" using candidates_reads [OF laws ca] v1 by simp
    show ?thesis
    proof (cases "\<exists>ps. r2 = Inr ps \<and> co_execute (cp_options c)")
      case False
      then have "view s' = view s2"
        using r l Inr ca by (cases r2) (auto simp: run_partitions_def bind_state_def)
      with x v2 show ?thesis by simp
    next
      case True
      then obtain ps where ps: "r2 = Inr ps" "co_execute (cp_options c)" by blast
      let ?chosen = "chosen_partitions (cp_options c) ps"
      have live: "distinct (map part_prefix ps)" "\<And>p. p \<in> set ps \<Longrightarrow> run_partition c (view s) p"
        using candidates_live [OF laws ca [unfolded ps]] v1 by auto
      then have parts: "partitions_of c ?P ?chosen"
        using chosen_live(1) [of "cp_options c" ps] chosen_live(2) [OF live(1)] run_partition_live
        unfolding partitions_of_def run_partition_def by blast
      obtain s3 r3 where rl: "run_list c t s2 ck0 ?chosen = (s3, r3)" by fastforce
      have "view s2 key = Some x" using x v2 by simp
      from run_list_safe [OF run rl parts key this] have safe:
        "view s3 key = Some x \<or> merged_away c stored (view s) (view s3) ?chosen key x" by (simp add: v2)
      have last: "view s' k = view s3 k" if k: "data_key k" for k
        using r l Inr ca ps rl save_checkpoint_frame [OF laws _ ck k]
        by (auto simp: run_partitions_def bind_state_def split: sum.splits)
      have same: "published (cp_options c) (view s') p f src y = published (cp_options c) (view s3) p f src y"
        if "p \<in> set ?chosen" "src \<in> set (part_sources p)" for p f src y
      proof -
        obtain cutoff where "partition_ok (cp_chrono c) cutoff (part_prefix p, p)"
          using parts \<open>p \<in> set ?chosen\<close> by (auto simp: partitions_of_def)
        then show ?thesis by (intro published_cong last written_keys source_keys(4) that(2))
      qed
      have "data_key key" using key(3) by (simp add: data_key_def)
      then have "view s' key = view s3 key" by (rule last)
      moreover have "merged_away c stored (view s) (view s') ?chosen key x"
        if "merged_away c stored (view s) (view s3) ?chosen key x"
        using that same unfolding merged_away_def by blast
      ultimately show ?thesis using safe parts by auto
    qed
  qed
qed

lemma run_compactor_safe:
  assumes "s3_laws (co_bucket (cp_options c)) (cp_client c) view"
    and "kernel_laws (cp_kernels c)" and "parquet_laws (cp_parquet c) stored"
    and "\<not> data_key (co_checkpoint_key (cp_options c))"
    and "prefixes_apart (cp_options c) (live_prefixes c (view s))"
    and "run_compactor c t s = (s', r)"
    and "view s key = Some x" and "starts_with key (source_root (cp_options c))"
    and "is_source_key key" and "partition_from_key (cp_chrono c) key = Some (pre, h)"
  shows "view s' key = Some x
    \<or> (\<exists>p src file. src \<in> set (part_sources p) \<and> src_key src = key
         \<and> stored file = merged_rows stored (view s) p \<and> published (cp_options c) (view s') p file src x)"
proof -
  let ?P = "live_prefixes c (view s)"
  have run: "run_laws c view stored ?P" using assms(1-5) by (simp add: run_laws_def)
  obtain name where name: "key = pre @ CHR ''/'' # name" "CHR ''/'' \<notin> set name"
    using partition_from_key_Some [OF assms(10)] by blast
  then have key: "directory key = Some pre" "starts_with (last_component CHR ''/'' key) ''segment-''"
    using assms(9) by (simp_all add: directory_key is_source_key_def)
  have pre: "pre \<in> ?P" using assms(7-10) by (auto simp: live_prefixes_def)
  have dkey: "data_key key" using key(2) by (simp add: data_key_def)
  have goal: "view s' key = Some x \<or> (\<exists>p src file. src \<in> set (part_sources p) \<and> src_key src = key
         \<and> stored file = merged_rows stored (view s) p \<and> published (cp_options c) (view s') p file src x)"
    if one: "run_partitions c t s1 = (s2, r2)" and before: "\<And>k. data_key k \<Longrightarrow> view s1 k = view s k"
      and after: "\<And>k. data_key k \<Longrightarrow> view s' k = view s2 k" for s1 s2 r2
  proof -
    have same: "live_prefixes c (view s1) = ?P" by (rule live_prefixes_cong) (rule before)
    have "view s1 key = Some x" using before dkey assms(7) by simp
    from run_partitions_safe [of c view stored s1, unfolded same, OF run one key(1) pre key(2) this]
    consider "view s2 key = Some x"
      | ps where "partitions_of c ?P ps" "merged_away c stored (view s1) (view s2) ps key x" by blast
    then show ?thesis
    proof cases
      case 1
      then show ?thesis using after [OF dkey] by simp
    next
      case 2
      then obtain p src f where p: "p \<in> set ps" "src \<in> set (part_sources p)" "src_key src = key"
          "stored f = merged_rows stored (view s1) p" "published (cp_options c) (view s2) p f src x"
        by (auto simp: merged_away_def)
      obtain cutoff where ok: "partition_ok (cp_chrono c) cutoff (part_prefix p, p)"
        using 2(1) p(1) by (auto simp: partitions_of_def)
      have "merged_rows stored (view s1) p = merged_rows stored (view s) p"
        by (rule merged_rows_cong) (auto intro: before written_keys source_keys(2) [OF ok])
      moreover have "published (cp_options c) (view s') p f src x =
          published (cp_options c) (view s2) p f src x"
        by (intro published_cong after written_keys source_keys(4) [OF ok p(2)])
      ultimately show ?thesis using p(2-5) by metis
    qed
  qed
  show ?thesis
  proof (cases "co_execute (cp_options c)")
    case False
    then have "run_partitions c t s = (s', r)" using assms(6) by (simp add: run_compactor_def)
    then show ?thesis by (rule goal) simp_all
  next
    case True
    obtain s1 r1 where lock: "acquire_lock c t s = (s1, r1)" by fastforce
    note v1 = acquire_frame [OF assms(1) lock]
    show ?thesis
    proof (cases r1)
      case (Inl e)
      then have "s' = s1" using assms(6) True lock by (simp add: run_compactor_def bind_state_def)
      then show ?thesis using v1(1) [OF dkey] assms(7) by simp
    next
      case (Inr k)
      obtain s2 r2 where one: "run_partitions c t s1 = (s2, r2)" by fastforce
      obtain s3 r3 where rel: "release_lock c s2 k = (s3, r3)" by fastforce
      have "s' = s3" using assms(6) True lock Inr one rel by (simp add: run_compactor_def bind_state_def)
      moreover have "view s3 j = view s2 j" if "data_key j" for j
      proof -
        obtain r4 where d: "delete_object (cp_client c) s2 k = (s3, r4)"
          using rel by (auto simp: release_lock_def with_message_eq)
        have "j \<noteq> k" using v1(2) [OF dkey Inr] that lock_not_data by auto
        then show ?thesis using law_delete [OF assms(1) d] by auto
      qed
      ultimately show ?thesis using goal [OF one v1(1)] by simp
    qed
  qed
qed

text \<open>
  The default options keep the copies apart, for all prefixes that no slashes surround, as those
  that the archiver writes.
\<close>

definition clean_below :: "compactor_options \<Rightarrow> string \<Rightarrow> bool" where
  "clean_below opts pre \<longleftrightarrow> (\<exists>rel. pre = source_root opts @ rel \<and> rel \<noteq> []
     \<and> hd rel \<noteq> CHR ''/'' \<and> last rel \<noteq> CHR ''/'')"

lemma prefixes_apart_clean:
  assumes clean: "\<forall>pre \<in> P. clean_below opts pre"
    and apart: "\<not> prefix (source_root opts) (trim_matches CHR ''/'' (co_retention_prefix opts) @ ''/'')"
      "\<not> prefix (trim_matches CHR ''/'' (co_retention_prefix opts) @ ''/'') (source_root opts)"
  shows "prefixes_apart opts P"
proof -
  let ?ret = "trim_matches CHR ''/'' (co_retention_prefix opts) @ ''/''"
  have base: "\<exists>rel. pre = source_root opts @ rel \<and> retention_base opts pre = ?ret @ rel" if pre: "pre \<in> P" for pre
  proof -
    obtain rel where rel: "pre = source_root opts @ rel" "rel \<noteq> []" "hd rel \<noteq> CHR ''/''" "last rel \<noteq> CHR ''/''"
      using clean pre by (auto simp: clean_below_def)
    have "strip_prefix pre (trim_matches CHR ''/'' (co_prefix opts)) = Some (CHR ''/'' # rel)"
      using rel(1) by (simp add: strip_prefix_Some source_root_def)
    then have "retention_base opts pre = ?ret @ rel"
      using trim_matches_clean(2) [OF rel(2-4)] by (simp add: retention_base_def)
    with rel(1) show ?thesis by blast
  qed
  have "retention_base opts pre \<noteq> pre'" if P: "pre \<in> P" "pre' \<in> P" for pre pre'
  proof
    assume same: "retention_base opts pre = pre'"
    obtain rel rel' where "retention_base opts pre = ?ret @ rel" "pre' = source_root opts @ rel'"
      using base [OF P(1)] base [OF P(2)] by blast
    with same have "?ret @ rel = source_root opts @ rel'" by simp
    then have "prefix ?ret (source_root opts) \<or> prefix (source_root opts) ?ret"
      by (metis prefixI prefix_same_cases)
    with apart show False by blast
  qed
  moreover have "pre = pre'" if "pre \<in> P" "pre' \<in> P" "retention_base opts pre = retention_base opts pre'" for pre pre'
    using base [OF that(1)] base [OF that(2)] that(3) by auto
  ultimately show ?thesis by (auto simp: prefixes_apart_def inj_on_def)
qed

lemma default_options_apart:
  "\<forall>pre \<in> P. clean_below default_compactor_options pre \<Longrightarrow> prefixes_apart default_compactor_options P"
  "\<not> data_key (co_checkpoint_key default_compactor_options)"
proof -
  have o: "co_prefix default_compactor_options = ''parquet/rust''"
      "co_retention_prefix default_compactor_options = ''parquet/compaction-source''"
      "co_checkpoint_key default_compactor_options = ''parquet/compaction-source-control/checkpoint.json''"
    by (simp_all add: default_compactor_options_def)
  have "trim_matches CHR ''/'' ''parquet/rust'' = ''parquet/rust''"
      "trim_matches CHR ''/'' ''parquet/compaction-source'' = ''parquet/compaction-source''"
    by code_simp+
  then show "prefixes_apart default_compactor_options P" if "\<forall>pre \<in> P. clean_below default_compactor_options pre"
    using that by (intro prefixes_apart_clean) (simp_all add: source_root_def o)
  show "\<not> data_key (co_checkpoint_key default_compactor_options)" unfolding o by code_simp
qed

text \<open>An instance that computes: the run merges the two segments of the sample store.\<close>

abbreviation two_o_clock :: clock where
  "two_o_clock \<equiv> (\<lambda>_. hours 2)"

abbreviation first_segment :: string where
  "first_segment \<equiv> ''rust/t/2026-08-03/12/segment-1.parquet''"

definition sample_locked :: mem_store where
  "sample_locked = (sample_store [])\<lparr>mem_table :=
     (''kept-control/lock'', \<lparr>obj_body = ''now'', obj_modified = 0\<rparr>) # mem_table (sample_store [])\<rparr>"

definition listed_partition :: partition where
  "listed_partition = \<lparr>part_prefix = ''rust/t/2026-08-03/12'', part_hour = 0,
     part_sources = [\<lparr>src_key = first_segment, src_bytes = 2\<rparr>,
                     \<lparr>src_key = ''rust/t/2026-08-03/12/segment-2.parquet'', src_bytes = 1\<rparr>]\<rparr>"

definition no_checkpoint :: checkpoint where
  "no_checkpoint = \<lparr>ck_version = 1, ck_updated_at = None, ck_partitions = Map.empty\<rparr>"

lemma sample_lock: "acquire_lock sample_compactor two_o_clock (sample_store []) = (sample_locked, Inr ''kept-control/lock'')"
  by code_simp

lemma sample_checkpoint: "load_checkpoint sample_compactor sample_locked = (sample_locked, Inr no_checkpoint)"
  by (simp add: load_checkpoint_def sample_compactor_def sample_options_def memory_s3_def mem_request_def
      mem_fails_def mem_next_def mem_objects_def sample_locked_def sample_store_def no_checkpoint_def)

lemma sample_candidates:
  "candidates sample_compactor two_o_clock sample_locked no_checkpoint = (sample_locked, Inr [listed_partition])"
proof -
  have pres: "recent_hour_prefixes sample_compactor sample_locked (hours 2 - hours 48) =
      (sample_locked, Inr [''rust/t/2026-08-03/12/''])" by code_simp
  have scan: "scan_hours sample_compactor (hours 2 - minutes 10) sample_locked [''rust/t/2026-08-03/12/''] [] =
      (sample_locked, Inr [(''rust/t/2026-08-03/12'', listed_partition)])" by code_simp
  have "select_partitions sample_options no_checkpoint [(''rust/t/2026-08-03/12'', listed_partition)] = [listed_partition]"
    by (simp add: select_partitions_def worth_compacting_def already_done_def no_checkpoint_def
        sample_options_def listed_partition_def Let_def)
  moreover have "cp_options sample_compactor = sample_options" "co_settle_minutes sample_options = 10"
      "co_lookback_hours sample_options = 48"
    by (simp_all add: sample_compactor_def sample_options_def)
  ultimately show ?thesis using pres scan by (simp add: candidates_def Let_def bind_state_def)
qed

lemma sample_compacted:
  "snd (compact sample_compactor two_o_clock sample_locked listed_partition) = Inr ()"
  "mem_objects (fst (compact sample_compactor two_o_clock sample_locked listed_partition)) first_segment = None"
  by code_simp+

lemma sample_retired:
  "mem_objects (fst (run_compactor sample_compactor two_o_clock (sample_store []))) first_segment = None"
proof -
  let ?c = sample_compactor
  have laws: "s3_laws ''bucket'' (cp_client ?c) mem_objects"
    by (simp add: sample_compactor_def memory_s3_laws)
  have keys: "\<not> data_key (co_checkpoint_key (cp_options ?c))" "data_key first_segment"
      "first_segment \<noteq> ''kept-control/lock''"
    by code_simp+
  have opts: "co_execute (cp_options ?c)" "chosen_partitions (cp_options ?c) [listed_partition] = [listed_partition]"
    by (simp_all add: sample_compactor_def sample_options_def chosen_partitions_def)
  obtain s2 where c: "compact ?c two_o_clock sample_locked listed_partition = (s2, Inr ())"
      "mem_objects s2 first_segment = None"
    using sample_compacted by (metis prod.collapse)
  have save: "mem_objects s' first_segment = mem_objects s first_segment"
    if "save_checkpoint ?c s ck = (s', r)" for s s' ck r
    by (rule save_checkpoint_frame [OF laws that keys(1,2)])
  obtain s3 r3 where l: "run_list ?c two_o_clock sample_locked no_checkpoint [listed_partition] = (s3, r3)"
    by fastforce
  have "mem_objects s3 first_segment = None"
    using l c save by (auto simp: Let_def bind_state_eq)
  moreover obtain s4 r4 where p: "run_partitions ?c two_o_clock sample_locked = (s4, r4)" by fastforce
  ultimately have "mem_objects s4 first_segment = None"
    using sample_checkpoint sample_candidates opts l save
    by (cases r3) (auto simp: run_partitions_def bind_state_def)
  moreover obtain s5 r5 where d: "release_lock ?c s4 ''kept-control/lock'' = (s5, r5)" by fastforce
  moreover have "mem_objects s5 first_segment = mem_objects s4 first_segment"
    using d keys(3) by (auto simp: release_lock_def with_message_eq dest!: law_delete [OF laws])
  ultimately show ?thesis
    using sample_lock opts(1) p d by (simp add: run_compactor_def bind_state_def)
qed

lemma sample_main: "compactor_main sample_compactor two_o_clock s = run_compactor sample_compactor two_o_clock s"
proof -
  have "validate_options sample_options = Inr ()" by code_simp
  then show ?thesis
    by (simp add: compactor_main_def compactor_new_def bind_state_def) (simp add: sample_compactor_def)
qed

lemma sample_prefixes_apart:
  "prefixes_apart sample_options (live_prefixes sample_compactor (mem_objects (sample_store [])))"
proof -
  have "live_prefixes sample_compactor (mem_objects (sample_store [])) \<subseteq> {''rust/t/2026-08-03/12''}"
  proof
    fix pre assume "pre \<in> live_prefixes sample_compactor (mem_objects (sample_store []))"
    then obtain key h where key: "key \<in> {first_segment, ''rust/t/2026-08-03/12/segment-2.parquet''}"
        "partition_from_key sample_chrono key = Some (pre, h)"
      by (auto simp: live_prefixes_def mem_objects_def sample_store_def sample_compactor_def split: if_splits)
    have "map_option fst (partition_from_key sample_chrono first_segment) = Some ''rust/t/2026-08-03/12''"
        "map_option fst (partition_from_key sample_chrono ''rust/t/2026-08-03/12/segment-2.parquet'') =
          Some ''rust/t/2026-08-03/12''"
      by code_simp+
    with key show "pre \<in> {''rust/t/2026-08-03/12''}" by auto
  qed
  moreover have "retention_base sample_options ''rust/t/2026-08-03/12'' \<noteq> ''rust/t/2026-08-03/12''" by code_simp
  ultimately show ?thesis by (auto simp: prefixes_apart_def inj_on_def)
qed

subsection \<open>Properties\<close>

text \<open>
  C6. A run of \<open>parquet-compact\<close> loses no segment, whatever fails and wherever it stops. If the
  retained copies are kept outside the directories of the segments, and the checkpoint is no
  segment, each segment below the source prefix is afterwards as it was; or it was merged, and
  then its partition's output holds all rows that were to be merged, and a copy is retained,
  whatever partitions were compacted after it.
\<close>

theorem run_loses_no_segment:
  assumes "s3_laws (co_bucket (cp_options c)) (cp_client c) view"
    and "kernel_laws (cp_kernels c)" and "parquet_laws (cp_parquet c) stored"
    and "\<not> data_key (co_checkpoint_key (cp_options c))"
    and "prefixes_apart (cp_options c) (live_prefixes c (view s))"
    and "compactor_main c t s = (s', r)"
    and "view s key = Some x" and "starts_with key (source_root (cp_options c))"
    and "is_source_key key" and "partition_from_key (cp_chrono c) key = Some (pre, h)"
  shows "view s' key = Some x
    \<or> (\<exists>p src file. src \<in> set (part_sources p) \<and> src_key src = key
         \<and> stored file = merged_rows stored (view s) p \<and> published (cp_options c) (view s') p file src x)"
proof -
  consider "s' = s" | "run_compactor c t s = (s', r)"
    using assms(6) by (auto simp: compactor_main_def compactor_new_def bind_state_eq result_bind_Inr)
  then show ?thesis
  proof cases
    case 1
    then show ?thesis using assms(7) by simp
  next
    case 2
    from run_compactor_safe [OF assms(1-5) this assms(7-10)] show ?thesis .
  qed
qed

theorem run_loses_no_segment_witness:
  "case compactor_main sample_compactor two_o_clock (sample_store []) of (s, r) \<Rightarrow>
     mem_objects s first_segment = None
     \<and> (\<exists>p src file. src \<in> set (part_sources p) \<and> src_key src = first_segment
          \<and> text_rows file = merged_rows text_rows (mem_objects (sample_store [])) p
          \<and> published sample_options (mem_objects s) p file src \<lparr>obj_body = ''BA'', obj_modified = 0\<rparr>)"
proof -
  obtain s r where run: "compactor_main sample_compactor two_o_clock (sample_store []) = (s, r)" by fastforce
  have c: "cp_options sample_compactor = sample_options"
      "cp_client sample_compactor = memory_s3 (co_bucket sample_options)"
      "cp_kernels sample_compactor = sample_kernels" "cp_parquet sample_compactor = text_parquet"
      "cp_chrono sample_compactor = sample_chrono"
    by (simp_all add: sample_compactor_def sample_options_def)
  have ck: "\<not> data_key (co_checkpoint_key sample_options)" by code_simp
  have x: "mem_objects (sample_store []) first_segment = Some \<lparr>obj_body = ''BA'', obj_modified = 0\<rparr>"
    by (simp add: mem_objects_def sample_store_def)
  have key: "starts_with first_segment (source_root sample_options)" "is_source_key first_segment"
      "partition_from_key sample_chrono first_segment = Some (''rust/t/2026-08-03/12'', 0)"
    by code_simp+
  have gone: "mem_objects s first_segment = None" using sample_retired run by (simp add: sample_main)
  from run_loses_no_segment [where c = sample_compactor and view = mem_objects and stored = text_rows, unfolded c,
    OF memory_s3_laws sample_kernels_laws text_parquet_laws ck sample_prefixes_apart run x key]
  show ?thesis unfolding run using gone by simp
qed

end
