(* ===== verification/Archive_Start.thy ===== *)
theory Archive_Start
  imports Archive_Safety Config Compactor_Run
begin

section \<open>The archiver of a configuration, and what the compactor finds\<close>

text \<open>
  The construction of the archiver (\<open>Archiver::new\<close> of \<open>src/archive.rs\<close>) and the layout of the
  bucket that the writer, the archiver and the compactor share.
\<close>

subsection \<open>Construction\<close>

text \<open>
  The client is bound to the configured bucket; \<open>dir\<close> is the directory of the writer. The last
  cleanup is put far enough into the past that the first one is due at once.
\<close>

definition archiver_new ::
  "config \<Rightarrow> path \<Rightarrow> 's s3_client \<Rightarrow> calendar \<Rightarrow> timelike \<Rightarrow> os \<Rightarrow> (string \<Rightarrow> bool) \<Rightarrow> bool \<Rightarrow> 's archiver" where
  "archiver_new c dir client cal tm os elapsed info =
     \<lparr>ar_directory = dir, ar_prefix = trim_matches CHR ''/'' (cfg_s3_prefix c),
      ar_min_retention_hours = cfg_min_retention_hours c,
      ar_max_retention_hours = cfg_max_retention_hours c,
      ar_min_free_disk_percent = cfg_min_free_disk_percent c,
      ar_client = client, ar_calendar = cal, ar_timelike = tm, ar_os = os, ar_elapsed = elapsed,
      ar_info_enabled = info\<rparr>"

definition archive_start :: "local_fs \<Rightarrow> 's \<Rightarrow> int \<Rightarrow> 's archive_state" where
  "archive_start fs store now = \<lparr>as_fs = fs, as_store = store, as_last_cleanup = now - cleanup_interval\<rparr>"

lemma first_cleanup_due:
  assumes "now \<le> now_instant clk"
  shows "cleanup_if_due a clk (archive_start fs store now) =
    (case cleanup a (now_utc clk) fs of
       None \<Rightarrow> None
     | Some (fs', Inl e) \<Rightarrow> Some ((archive_start fs store now)\<lparr>as_fs := fs'\<rparr>, Inl e)
     | Some (fs', Inr _) \<Rightarrow>
         Some ((archive_start fs store now)\<lparr>as_fs := fs', as_last_cleanup := now_instant clk\<rparr>, Inr ()))"
proof -
  have "as_fs (archive_start fs store now) = fs"
      "\<not> now_instant clk - as_last_cleanup (archive_start fs store now) < cleanup_interval"
    using assms by (simp_all add: archive_start_def)
  then show ?thesis by (simp add: cleanup_if_due_def)
qed

subsection \<open>The layout of the bucket\<close>

lemma last_join: "ws \<noteq> [] \<Longrightarrow> last ws \<noteq> [] \<Longrightarrow> last (join_on c ws) = last (last ws)"
proof (induction c ws rule: join_on.induct)
  case (3 c w v ws)
  have "join_on c (v # ws) \<noteq> []" using 3(3) by (cases ws) auto
  then have "last (join_on c (w # v # ws)) = last (join_on c (v # ws))" by simp
  also have "\<dots> = last (last (v # ws))" using 3(3) by (intro 3(1)) simp_all
  finally show ?case by simp
qed simp_all

lemma archived_prefix_clean:
  assumes "ar_prefix a = trim_matches CHR ''/'' (co_prefix opts)"
  shows "clean_below opts (ar_prefix a @ CHR ''/'' # join_on CHR ''/''
    [exchange_as_str e, market_as_str m, table, day_directory cal h, hour_directory cal h])"
proof -
  let ?rel = "join_on CHR ''/'' [exchange_as_str e, market_as_str m, table, day_directory cal h, hour_directory cal h]"
  have "hour_directory cal h \<noteq> []" by (simp add: hour_directory_def)
  moreover from this have "last (hour_directory cal h) \<noteq> CHR ''/''"
    using no_slash_names(2) [of cal h] last_in_set by metis
  ultimately have "last ?rel \<noteq> CHR ''/''" using last_join [of "[exchange_as_str e, market_as_str m, table,
      day_directory cal h, hour_directory cal h]" "CHR ''/''"] by simp
  moreover have "?rel \<noteq> []" "hd ?rel \<noteq> CHR ''/''" by (cases e; simp)+
  ultimately have "?rel \<noteq> [] \<and> hd ?rel \<noteq> CHR ''/'' \<and> last ?rel \<noteq> CHR ''/''" by blast
  then show ?thesis unfolding clean_below_def source_root_def
    by (intro exI [of _ ?rel]) (simp add: assms)
qed

subsection \<open>Properties\<close>

text \<open>
  C18. The writer, the archiver and the compactor agree on where a segment belongs. The path that
  the writer gives a segment of an hour is one from which the archiver reads that hour. If archiver
  and compactor are given the same prefix, the key of the upload lies below the compactor's root and
  has the shape of a source; its partition is the exchange, market, table, day and hour of the
  segment, with that hour as its start, and the retained copies of that partition are kept apart
  from it. This is about names only: which hours the compactor lists is not part of it.
\<close>

theorem segment_keys_agree:
  assumes "calendar_roundtrip cal h"
    and "trim_matches CHR ''/'' (co_prefix opts) = trim_matches CHR ''/'' (cfg_s3_prefix c)"
  shows "let a = archiver_new c dir client cal tm os elapsed info;
             p = segment_path cal dir (exchange_as_str (cfg_exchange c)) m h sequence table;
             pre = source_root opts @ join_on CHR ''/'' [exchange_as_str (cfg_exchange c),
               market_as_str m, table, day_directory cal h, hour_directory cal h] in
    hour_from_path cal p = Some h
    \<and> is_parquet p
    \<and> (\<exists>key. object_key a p = Some key \<and> is_source_key key
        \<and> partition_from_key cal key = Some (pre, h) \<and> clean_below opts pre)"
proof -
  let ?a = "archiver_new c dir client cal tm os elapsed info"
  have a: "ar_calendar ?a = cal" "ar_directory ?a = dir" "ar_prefix ?a = trim_matches CHR ''/'' (co_prefix opts)"
    by (simp_all add: archiver_new_def assms(2))
  obtain key where key: "object_key ?a (segment_path cal dir (exchange_as_str (cfg_exchange c)) m h sequence table) = Some key"
      "is_source_key key"
      "partition_from_key cal key = Some (ar_prefix ?a @ CHR ''/'' # join_on CHR ''/''
        [exchange_as_str (cfg_exchange c), market_as_str m, table, day_directory cal h, hour_directory cal h], h)"
    using written_key [of ?a h "exchange_as_str (cfg_exchange c)" m sequence table] assms(1) a(1,2) by auto
  have "ar_prefix ?a @ CHR ''/'' # rest = source_root opts @ rest" for rest
    by (simp add: source_root_def a(3))
  then show ?thesis
    using written_path [OF assms(1)] key archived_prefix_clean [OF a(3)] unfolding Let_def by metis
qed

theorem segment_keys_agree_witness:
  "let p = segment_path sample_calendar [''d''] ''binance'' Spot 0 7 ''trades'';
       pre = ''parquet/rust/'' @ join_on CHR ''/'' [''binance'', ''spot'', ''trades'',
         day_directory sample_calendar 0, hour_directory sample_calendar 0] in
   hour_from_path sample_calendar p = Some 0
   \<and> (\<exists>key. object_key (archiver_new default_config [''d''] (memory_s3 ''b'') sample_calendar
           (ar_timelike sample_archiver) sample_os (\<lambda>_. False) True) p = Some key
        \<and> is_source_key key
        \<and> partition_from_key sample_calendar key = Some (pre, 0)
        \<and> clean_below default_compactor_options pre)"
proof -
  have round: "calendar_roundtrip sample_calendar 0" by code_simp
  have c: "co_prefix default_compactor_options = ''parquet/rust''" "cfg_s3_prefix default_config = ''parquet/rust''"
      "exchange_as_str (cfg_exchange default_config) = ''binance''"
    by (simp_all add: default_compactor_options_def default_config_def)
  have same: "trim_matches CHR ''/'' (co_prefix default_compactor_options) =
      trim_matches CHR ''/'' (cfg_s3_prefix default_config)" by (simp add: c)
  have "trim_matches CHR ''/'' ''parquet/rust'' = ''parquet/rust''" by code_simp
  then have root: "source_root default_compactor_options = ''parquet/rust/''" by (simp add: source_root_def c)
  with segment_keys_agree [OF round same, of "[''d'']" "memory_s3 ''b''" "ar_timelike sample_archiver" sample_os
      "\<lambda>_. False" True Spot 7 "''trades''"]
  show ?thesis unfolding c Let_def by (simp add: root)
qed

end
