(* ===== verification/Parquet_Bench.thy ===== *)
theory Parquet_Bench
  imports Archive Compactor_Safety "HOL-Library.List_Lexorder" "HOL-Library.Char_ord"
begin

section \<open>The rewrite benchmark\<close>

text \<open>
  \<open>src/bin/parquet-bench.rs\<close>: for some seconds it rewrites the Parquet files below a directory,
  over and over, with the compactor's \<open>reorder_batch\<close> if asked to. The disk is that of
  \<open>Archive\<close>, the Parquet library that of \<open>Compactor\<close> with the writer properties as one more
  argument. \<open>clock\<close> lists the readings of the monotonic clock in seconds; the speeds that are
  printed in the end are left out.
\<close>

record bench_options =
  bo_source :: path
  bo_output :: path
  bo_seconds :: nat
  bo_zstd_level :: int
  bo_row_group_rows :: nat
  bo_batch_rows :: nat
  bo_sort_by_symbol :: bool

record bench_lib =
  bl_parquet :: parquet_lib
  bl_kernels :: arrow_kernels
  bl_properties :: "int \<Rightarrow> nat \<Rightarrow> unit result"
  bl_create :: "path \<Rightarrow> bool"

subsection \<open>Finding the sources\<close>

text \<open>Here a directory that is missing is an error; \<open>None\<close> means that the traversal does not end.\<close>

partial_function (option) bench_find ::
  "os \<Rightarrow> local_fs \<Rightarrow> path list \<Rightarrow> path list \<Rightarrow> path list result option" where
  "bench_find os fs directories files =
     (case directories of
        [] \<Rightarrow> Some (Inr files)
      | d # ds \<Rightarrow>
          (case read_dir os fs d of
             Inl e \<Rightarrow> Some (Inl e)
           | Inr entries \<Rightarrow>
               bench_find os fs (rev (filter (is_dir fs) entries) @ ds)
                 (files @ filter (\<lambda>p. \<not> is_dir fs p \<and> is_parquet p) entries)))"

declare bench_find.simps [code]

definition bench_files :: "os \<Rightarrow> local_fs \<Rightarrow> path \<Rightarrow> path list result option" where
  "bench_files os fs root =
     map_option (\<lambda>r. result_bind r (\<lambda>ps. Inr (sort ps))) (bench_find os fs [root] [])"

subsection \<open>Rewriting one file\<close>

fun copy_batches ::
  "bench_lib \<Rightarrow> bool \<Rightarrow> schema \<Rightarrow> record_batch result list \<Rightarrow> record_batch list \<times> nat \<Rightarrow>
   (record_batch list \<times> nat) result" where
  "copy_batches lib sorting schema [] acc = Inr acc"
| "copy_batches lib sorting schema (Inl _ # batches) acc = Inl ''read historical Parquet batch''"
| "copy_batches lib sorting schema (Inr batch # batches) (written, rows) =
     (let rows = saturating_add rows (batch_num_rows batch) in
      result_bind (if sorting then reorder_batch (bl_kernels lib) batch else Inr batch) (\<lambda>out.
      result_bind (pq_write (bl_parquet lib) schema written out) (\<lambda>_.
        copy_batches lib sorting schema batches (written @ [out], rows))))"

definition bench_path :: "path \<Rightarrow> nat \<Rightarrow> path" where
  "bench_path output sequence = output @ [''bench-'' @ show_padded 8 sequence @ ''.parquet'']"

text \<open>The bytes of the new file and the number of rows; the source is read as it was when it was opened.\<close>

definition rewrite_bytes ::
  "bench_lib \<Rightarrow> bench_options \<Rightarrow> path \<Rightarrow> string \<Rightarrow> (string \<times> nat) result" where
  "rewrite_bytes lib opts target source =
     result_bind (pq_open (bl_parquet lib) source) (\<lambda>schema.
     result_bind (pq_batches (bl_parquet lib) (bo_batch_rows opts) source) (\<lambda>batches.
     result_bind (bl_properties lib (bo_zstd_level opts) (bo_row_group_rows opts)) (\<lambda>_.
     if \<not> bl_create lib target then Inl ''create output''
     else
       result_bind (pq_new_writer (bl_parquet lib) schema) (\<lambda>_.
       result_bind (copy_batches lib (bo_sort_by_symbol opts) schema batches ([], 0)) (\<lambda>(written, rows).
       result_bind (pq_close (bl_parquet lib) schema written) (\<lambda>file. Inr (file, rows)))))))"

record rewrite_result =
  rw_rows :: nat
  rw_input_bytes :: nat
  rw_output_bytes :: nat

text \<open>Both sizes are read after the file is written, the source's perhaps from the new file itself.\<close>

definition rewrite ::
  "bench_lib \<Rightarrow> os \<Rightarrow> bench_options \<Rightarrow> nat \<Rightarrow> path \<Rightarrow> local_fs \<Rightarrow> local_fs \<times> rewrite_result result" where
  "rewrite lib os opts sequence p fs =
     (let target = bench_path (bo_output opts) sequence in
      if \<not> (os_ok os (Read_File p) \<and> is_file fs p) then (fs, Inl ''open source'')
      else (case rewrite_bytes lib opts target (the (file_at fs p)) of
              Inl e \<Rightarrow> (fs, Inl e)
            | Inr (file, rows) \<Rightarrow>
                (let fs = fs\<lparr>lf_files := AList.update target file (lf_files fs)\<rparr> in
                 if \<not> (os_ok os (File_Metadata p) \<and> os_ok os (File_Metadata target))
                 then (fs, Inl ''metadata'')
                 else (fs, Inr \<lparr>rw_rows = rows, rw_input_bytes = length (the (file_at fs p)),
                                rw_output_bytes = length file\<rparr>))))"

subsection \<open>The benchmark\<close>

record bench_totals =
  bt_rows :: nat
  bt_input_bytes :: nat
  bt_output_bytes :: nat
  bt_files :: nat

definition add_result :: "rewrite_result \<Rightarrow> bench_totals \<Rightarrow> bench_totals" where
  "add_result r t =
     \<lparr>bt_rows = saturating_add (bt_rows t) (rw_rows r),
      bt_input_bytes = saturating_add (bt_input_bytes t) (rw_input_bytes r),
      bt_output_bytes = saturating_add (bt_output_bytes t) (rw_output_bytes r),
      bt_files = saturating_add (bt_files t) 1\<rparr>"

text \<open>
  The two loops over the readings of the clock: before every pass over the sources and before
  every file the time is read. \<open>rest\<close> are the sources left in this pass, \<open>None\<close> between two
  passes. The result is \<open>None\<close> where the readings end before the deadline.
\<close>

function (sequential) bench_loop ::
  "bench_lib \<Rightarrow> os \<Rightarrow> bench_options \<Rightarrow> nat \<Rightarrow> path list \<Rightarrow> nat list \<Rightarrow> path list option \<Rightarrow>
   local_fs \<times> bench_totals \<Rightarrow> (local_fs \<times> bench_totals result) option" where
  "bench_loop lib os opts deadline sources [] rest (fs, t) = None"
| "bench_loop lib os opts deadline sources (now # clock) None (fs, t) =
     (if now < deadline then bench_loop lib os opts deadline sources clock (Some sources) (fs, t)
      else Some (fs, Inr t))"
| "bench_loop lib os opts deadline sources (now # clock) (Some []) (fs, t) =
     bench_loop lib os opts deadline sources (now # clock) None (fs, t)"
| "bench_loop lib os opts deadline sources (now # clock) (Some (p # ps)) (fs, t) =
     (if now \<ge> deadline then bench_loop lib os opts deadline sources clock None (fs, t)
      else (case rewrite lib os opts (bt_files t) p fs of
              (fs, Inl e) \<Rightarrow> Some (fs, Inl e)
            | (fs, Inr r) \<Rightarrow>
                bench_loop lib os opts deadline sources clock (Some ps) (fs, add_result r t)))"
  by pat_completeness auto
termination
  by (relation "measure (\<lambda>(_, _, _, _, _, clock, rest, _). 2 * length clock + (case rest of None \<Rightarrow> 0 | Some _ \<Rightarrow> 1))") auto

text \<open>\<open>None\<close> is also a traversal that does not end; \<open>mkdir\<close> says whether the output directory could be made.\<close>

definition bench ::
  "bench_lib \<Rightarrow> os \<Rightarrow> bench_options \<Rightarrow> bool \<Rightarrow> nat \<Rightarrow> nat list \<Rightarrow> local_fs \<Rightarrow>
   (local_fs \<times> bench_totals result) option" where
  "bench lib os opts mkdir started clock fs =
     (if bo_row_group_rows opts = 0 \<or> bo_batch_rows opts = 0
      then Some (fs, Inl ''row-group-rows and batch-rows must be positive'')
      else (case bench_files os fs (bo_source opts) of
              None \<Rightarrow> None
            | Some (Inl e) \<Rightarrow> Some (fs, Inl e)
            | Some (Inr sources) \<Rightarrow>
                if sources = [] then Some (fs, Inl ''no Parquet history found'')
                else if \<not> mkdir then Some (fs, Inl ''create output directory'')
                else bench_loop lib os opts (started + bo_seconds opts) sources clock None
                       (fs, \<lparr>bt_rows = 0, bt_input_bytes = 0, bt_output_bytes = 0, bt_files = 0\<rparr>)))"

subsection \<open>A rewrite keeps the rows\<close>

lemma copy_batches_rows:
  assumes k: "kernel_laws (bl_kernels lib)"
    and "copy_batches lib sorting schema batches (written, rows) = Inr (written', rows')"
  shows "\<exists>bs. batches = map Inr bs \<and> (list_all batch_ok bs \<longrightarrow>
    all_rows written' = all_rows written + all_rows bs)"
  using assms(2)
proof (induction batches arbitrary: written rows)
  case (Cons b batches)
  show ?case
  proof (cases b)
    case (Inr batch)
    with Cons.prems obtain out where
      out: "(if sorting then reorder_batch (bl_kernels lib) batch else Inr batch) = Inr out"
      and rest: "copy_batches lib sorting schema batches
          (written @ [out], saturating_add rows (batch_num_rows batch)) = Inr (written', rows')"
      by (auto simp: Let_def result_bind_Inr)
    have same: "batch_rows out = batch_rows batch" if "batch_ok batch"
      using out reorder_batch_keeps [OF k that] by (auto split: if_splits)
    obtain bs where bs: "batches = map Inr bs" "list_all batch_ok bs \<longrightarrow>
        all_rows written' = all_rows (written @ [out]) + all_rows bs"
      using Cons.IH [OF rest] by blast
    have "b # batches = map Inr (batch # bs)" using Inr bs(1) by simp
    moreover have "list_all batch_ok (batch # bs) \<longrightarrow>
        all_rows written' = all_rows written + all_rows (batch # bs)"
      using bs(2) same by (auto simp: all_rows_def ac_simps)
    ultimately show ?thesis by (intro exI [of _ "batch # bs"] conjI)
  qed (use Cons.prems in simp)
qed (auto simp: all_rows_def)

lemma rewrite_keeps_rows:
  assumes "kernel_laws (bl_kernels lib)" and "parquet_laws (bl_parquet lib) stored"
    and "rewrite_bytes lib opts target source = Inr (file, rows)"
  shows "stored file = stored source"
proof -
  obtain schema batches written where
    read: "pq_batches (bl_parquet lib) (bo_batch_rows opts) source = Inr batches"
      "copy_batches lib (bo_sort_by_symbol opts) schema batches ([], 0) = Inr (written, rows)"
      "pq_close (bl_parquet lib) schema written = Inr file"
    using assms(3) by (auto simp: rewrite_bytes_def result_bind_Inr split: if_splits)
  obtain bs where bs: "batches = map Inr bs"
      "list_all batch_ok bs \<longrightarrow> all_rows written = all_rows [] + all_rows bs"
    using copy_batches_rows [OF assms(1) read(2)] by blast
  moreover have "list_all batch_ok bs" "stored source = all_rows bs" "stored file = all_rows written"
    using assms(2) read unfolding bs(1) parquet_laws_def by blast+
  ultimately show ?thesis by (simp add: all_rows_def)
qed

end
