(* ===== verification/Spec2Isabelle.thy ===== *)
theory Spec2Isabelle
  imports Ingest Delivery Writer_Progress Writer_Freshness Main_Program Snapshot Futures_Poll Notify Api Parser_Schema Archive_Task Archive_Start
    Parquet_Bench Compactor_Run
begin

text \<open>
  A verification library of coin-data-rs, a collector of Binance market data.

  \<^bold>\<open>The program.\<close> Websocket connections (\<open>src/collector.rs\<close>) receive JSON messages; one processor
  per market parses them (\<open>src/binance_json.rs\<close>, \<open>src/parser.rs\<close>, \<open>src/futures_parser.rs\<close>,
  \<open>src/model.rs\<close>) in batches and routes the records to the writer (\<open>src/writer.rs\<close>). The writer has
  one worker per market, which buffers records by table and hour, and one encoder, which turns
  the buffers into Parquet segments on disk (\<open>src/parquet_store.rs\<close>, \<open>src/schema.sql\<close>). The archiver
  (\<open>src/archive.rs\<close>) uploads the segments to an S3 bucket and frees the disk; a separate program
  (\<open>src/compactor.rs\<close>, \<open>src/bin/parquet-compact.rs\<close>) merges the small objects of an hour. Around them: the options and the
  connection planning (\<open>src/config.rs\<close>), REST snapshots under a weight limit (\<open>src/snapshot.rs\<close>),
  the open-interest poller (\<open>src/futures_poll.rs\<close>), the shared rate limit (\<open>src/rate_limit.rs\<close>),
  metrics, notifications and the HTTP interface (\<open>src/runtime.rs\<close>, \<open>src/notify.rs\<close>, \<open>src/api.rs\<close>),
  the start of all this (\<open>src/main.rs\<close>) and a benchmark (\<open>src/bin/parquet-bench.rs\<close>).

  \<^bold>\<open>Theories.\<close>
  \<^item> \<open>Prelude\<close>, \<open>Rust_Str\<close>: \<open>Result\<close> as a sum whose left is \<open>anyhow\<close>'s outermost message, checked and
    saturating integers, the string functions of Rust that the sources call.
  \<^item> \<open>Data_Model\<close> (\<open>model.rs\<close>), \<open>Binance_Json\<close>, \<open>Spot_Parser\<close>, \<open>Json_Value\<close>, \<open>Futures_Parser\<close>: values,
    records, the decimal parser, the decoding of messages, and one definition per event type.
    What the decimal parser accepts and returns (the bytes it ignores included), when the fast path
    of the decoder is taken and what it gives, the reading back of identifiers.
  \<^item> \<open>Parquet_Schema\<close>, \<open>Schema_Tables\<close>, \<open>Parquet_Store\<close>, \<open>Parser_Schema\<close>: the SQL schema text and its
    parser, the Arrow batches, \<open>write_segment\<close> over a map from paths to bytes. The registry that the
    parser yields, reading back cells, atomicity of a segment with its errors, and that every record of the
    parsers fits the schema of its table.
  \<^item> \<open>Writer\<close>: a worker's state and operations, the contract that all flushes share (the locale
    \<open>flush_operation\<close>) and termination of the drain loop. \<open>Writer_System\<close>: queues, workers and encoder
    as one step relation, a step being one handler of one thread or one delivery.
    \<open>Writer_Safety\<close>, \<open>Writer_Accounting\<close>, \<open>Writer_Files\<close>, \<open>Writer_Progress\<close>: no record is lost or invented,
    an answered flush is a barrier, the byte counter, the paths, the files of written segments, and
    that the threads come to rest without a deadlock and with every flush answered.
    \<open>Writer_Freshness\<close>: the timer and the loop of a worker in time, and the bound on how long a
    record is buffered. \<open>Delivery\<close>:
    what the parsers and the poller emit is never refused, so a write fails only for the disk or
    the Parquet writer.
  \<^item> \<open>Collector\<close>: receive loop, reconnects, processor; batches are invisible to the writer up to a
    failed send. \<open>Ingest\<close>: processors and writer together as one step relation, failing sends
    included, through the interface \<open>record_sink\<close> that the writer provides: what was received is what
    the encoder is done with, what is in the pipeline and what the processors still hold.
  \<^item> \<open>Object_Store\<close>: the S3 requests as a record of functions with their documented laws, and a store
    in memory that has them. \<open>Archive\<close>, \<open>Archive_Safety\<close>, \<open>Archive_Task\<close>: uploads, markers, cleanup and
    export; the contract \<open>archive_operation\<close> of each of them; the archiver beside the writer.
    \<open>Archive_Start\<close>: its construction, and the layout of the bucket that it shares with the compactor.
    \<open>Compactor_Keys\<close>, \<open>Compactor\<close>, \<open>Compactor_Safety\<close>: keys and partitions, the reordering of a batch, the
    requests of a compaction in their order, that no failure loses a row, and that a run after a
    failed deletion doubles rows. \<open>Compactor_Run\<close>: the
    same for a whole run, from the listing of the prefixes to the last checkpoint.
  \<^item> \<open>Config\<close>, \<open>Connections\<close>, \<open>Http\<close>, \<open>Symbol_Universe\<close>: options, shards and connection counts, REST client
    and rate limit, the resolution of symbols. Planned connections stay near their limit, and can
    exceed it. \<open>Limiter\<close>, \<open>Snapshot\<close>, \<open>Futures_Poll\<close>: the weighted
    limiter, the snapshot scheduler, the poller. \<open>Runtime\<close>, \<open>Notify\<close>, \<open>Api\<close>, \<open>Main_Program\<close>,
    \<open>Parquet_Bench\<close>: what is left.

  \<^bold>\<open>Conventions.\<close> Structs are records and enums datatypes with the names of the sources, prefixed
  where two structs share a field name. \<open>u64\<close> and \<open>u32\<close> counters that wrap are words; sizes that
  saturate are naturals with the saturation written out; signed integers with checked operations
  are integers with their bounds. Hash maps are association lists, and the order of their
  iteration is an argument (\<open>table_order\<close>). Clock readings, failures of system calls and requests,
  and scheduling are arguments or nondeterminism of a step relation. An instant is a number of
  nanoseconds. The value \<open>None\<close> of a result that has one stands for a panic or for a loop that does
  not end, as said where it is used; there is no fuel: loops are structural, have a measure, or
  are partial functions whose termination is a property.

  \<^bold>\<open>Parameters.\<close> serde_json (\<open>codec\<close>), arrow and parquet (\<open>arrow_lib\<close>, \<open>arrow_kernels\<close>, \<open>parquet_lib\<close>), the
  S3 client, reqwest, chrono (\<open>calendar\<close>, \<open>timelike\<close>, \<open>chrono\<close>), zstd, the allocator's capacities
  (\<open>layout\<close>) and the operating system. Where a property needs more than their type, its hypotheses
  are the documented laws, and a witness has an instance.

  \<^bold>\<open>Not modelled.\<close> Logging; clap, axum and tracing set-up; construction of the HTTP and S3 clients;
  timeouts except that of an upload; the death of the encoder thread by a panic; the module list
  \<open>lib.rs\<close> and the Criterion benchmark, which only call what is modelled. \<open>f64\<close> is exact rational arithmetic, with rounding where a
  duration or a text is made of it. Changes of case are those of ASCII. An instant has no upper
  bound, so the panic of adding a duration that is too long is left out. The local disk has no
  symbolic links. Uploads and publications interleave as whole steps, because an upload holds the
  lock and a publication is a rename. The writer's properties are about the writer without the
  archiver, which removes uploaded files; \<open>Archive_Task\<close> has both.
\<close>

end
